(* ===== verification/PES_Prelude.thy ===== *)
theory PES_Prelude
  imports
    Main
    "HOL-Library.Word"
    "HOL-Library.AList"
    "HOL-Library.Char_ord"
    "HOL-Library.List_Lexorder"
begin

section \<open>Shared vocabulary of the development\<close>

text \<open>
  What every component of the model uses: machine integers at their width, byte
  strings and their lexicographic order, Rust's \<^verbatim>\<open>Result\<close> with the \<^verbatim>\<open>?\<close> operator,
  hash maps as association lists with distinct keys (the order of the list is the
  iteration order of that map, on which no theorem depends), the text renderings of
  integers, JSON values, and the collections of simplification rules that the
  component theories add to.

  Strings are lists of 8-bit characters, that is, the UTF-8 bytes of the Rust
  \<^verbatim>\<open>String\<close>; \<^verbatim>\<open>len()\<close> is \<open>length\<close> and the order of strings is the bytewise one.
  Durations and monotonic clock readings are natural numbers of nanoseconds.
\<close>

unbundle bit_operations_syntax

named_theorems result_simps \<open>inversion of computations in the error monad\<close>
named_theorems hmap_simps \<open>lookups and domains of hash maps\<close>
named_theorems byte_simps \<open>lengths and values of byte encodings\<close>

subsection \<open>Machine integers and bytes\<close>

type_synonym u8 = "8 word"
type_synonym u16 = "16 word"
type_synonym u64 = "64 word"
type_synonym bytes = "8 word list"
type_synonym duration = nat
type_synonym instant = nat

definition nanos_per_sec :: nat where
  "nanos_per_sec = 1000000000"

definition as_secs :: "duration \<Rightarrow> nat" where
  "as_secs d = d div nanos_per_sec"

definition from_secs :: "nat \<Rightarrow> duration" where
  "from_secs s = s * nanos_per_sec"

lemma as_secs_from_secs [simp]: "as_secs (from_secs s) = s"
  by (simp add: as_secs_def from_secs_def nanos_per_sec_def)

definition elapsed :: "instant \<Rightarrow> instant \<Rightarrow> duration" where
  "elapsed now at = now - at"

definition saturating_sub :: "u64 \<Rightarrow> u64 \<Rightarrow> u64" where
  "saturating_sub a b = (if b \<le> a then a - b else 0)"

lemma unat_saturating_sub [simp]: "unat (saturating_sub a b) = unat a - unat b"
  by (simp add: saturating_sub_def unat_sub_if' word_le_nat_alt)

lemma unat_next:
  assumes "unat (o' :: u64) = n" "Suc n < 2 ^ 64"
  shows "unat (o' + 1) = Suc n"
proof -
  have "unat o' + unat (1 :: u64) < 2 ^ LENGTH(64)" using assms by simp
  then have "unat (o' + 1) = unat o' + unat (1 :: u64)" by (rule unat_add_lem [THEN iffD1])
  with assms show ?thesis by simp
qed

definition as_bytes :: "string \<Rightarrow> bytes" where
  "as_bytes s = map (\<lambda>c. word_of_nat (of_char c)) s"

lemma length_as_bytes [byte_simps, simp]: "length (as_bytes s) = length s"
  by (simp add: as_bytes_def)

lemma of_char_lt: "(of_char c :: nat) < 256"
  using of_char_mod_256 [of c, where 'a = nat] by (metis mod_less_divisor zero_less_numeral)

lemma inj_char_byte: "inj (\<lambda>c. word_of_nat (of_char c) :: u8)"
proof (rule injI)
  fix c d :: char
  assume "(word_of_nat (of_char c) :: u8) = word_of_nat (of_char d)"
  then have "unat (word_of_nat (of_char c) :: u8) = unat (word_of_nat (of_char d) :: u8)"
    by simp
  moreover have "(of_char c :: nat) < 256" "(of_char d :: nat) < 256"
    using of_char_lt [of c] of_char_lt [of d] by simp_all
  ultimately show "c = d"
    by (simp add: unat_of_nat)
qed

lemma as_bytes_inject [simp]: "as_bytes s = as_bytes t \<longleftrightarrow> s = t"
  by (simp add: as_bytes_def inj_map_eq_map [OF inj_char_byte])

subsection \<open>Fixed-width byte encodings\<close>

text \<open>Big-endian encoding of the low \<open>n\<close> bytes of a number, most significant first.\<close>

fun be_bytes :: "nat \<Rightarrow> nat \<Rightarrow> bytes" where
  "be_bytes 0 k = []"
| "be_bytes (Suc n) k = word_of_nat (k div 256 ^ n) # be_bytes n k"

definition nat_of_be :: "bytes \<Rightarrow> nat" where
  "nat_of_be bs = foldl (\<lambda>acc b. acc * 256 + unat b) 0 bs"

definition u16_to_be_bytes :: "u16 \<Rightarrow> bytes" where
  "u16_to_be_bytes w = be_bytes 2 (unat w)"

definition u64_to_be_bytes :: "u64 \<Rightarrow> bytes" where
  "u64_to_be_bytes w = be_bytes 8 (unat w)"

definition u64_from_be_bytes :: "bytes \<Rightarrow> u64" where
  "u64_from_be_bytes bs = word_of_nat (nat_of_be bs)"

definition u64_to_le_bytes :: "u64 \<Rightarrow> bytes" where
  "u64_to_le_bytes w = rev (u64_to_be_bytes w)"

lemma length_be_bytes [byte_simps, simp]: "length (be_bytes n k) = n"
  by (induction n) auto

lemma length_u16_to_be_bytes [byte_simps, simp]: "length (u16_to_be_bytes w) = 2"
  by (simp add: u16_to_be_bytes_def)

lemma length_u64_to_be_bytes [byte_simps, simp]: "length (u64_to_be_bytes w) = 8"
  by (simp add: u64_to_be_bytes_def)

lemma unat_byte_div:
  assumes "k < 256 * m"
  shows "unat (word_of_nat (k div m) :: u8) = k div m"
proof -
  have "k div m < 256"
    using assms by (cases "m = 0") (auto simp: less_mult_imp_div_less mult.commute)
  then show ?thesis by (simp add: unat_of_nat)
qed

lemma be_bytes_mod: "be_bytes n (k mod 256 ^ n) = be_bytes n k"
proof -
  have "be_bytes m (k mod 256 ^ n) = be_bytes m k" if "m \<le> n" for m
    using that
  proof (induction m)
    case 0
    show ?case by simp
  next
    case (Suc m)
    have split: "(256::nat) ^ n = 256 ^ m * 256 ^ (n - m)"
      using Suc.prems by (simp flip: power_add)
    have pos: "\<exists>j. n - m = Suc j" using Suc.prems by (cases "n - m") auto
    have "(k mod 256 ^ n) div 256 ^ m = (k div 256 ^ m) mod 256 ^ (n - m)"
      by (simp add: split div_mult2_eq mod_mult2_eq)
    moreover have "(word_of_nat (j mod 256 ^ (n - m)) :: u8) = word_of_nat j" for j
    proof -
      have "(j mod 256 ^ (n - m)) mod 256 = j mod 256"
        using pos by (auto intro: mod_mod_cancel)
      then show ?thesis by (simp add: word_of_nat_eq_iff take_bit_eq_mod)
    qed
    ultimately show ?case using Suc by simp
  qed
  then show ?thesis by simp
qed

lemma div_mod_less_iff:
  "x div m < y div m \<or> x div m = y div m \<and> x mod m < y mod m \<longleftrightarrow> x < (y :: nat)"
proof (cases "x div m" "y div m" rule: linorder_cases)
  case less
  then show ?thesis using div_le_mono [of y x m] by (auto simp: not_less [symmetric])
next
  case equal
  then have "m * (x div m) = m * (y div m)" by simp
  with equal show ?thesis
    using mult_div_mod_eq [of m x] mult_div_mod_eq [of m y] by linarith
next
  case greater
  then show ?thesis using div_le_mono [of x y m] by (auto simp: not_less [symmetric])
qed

lemma be_bytes_less_iff:
  "x < 256 ^ n \<Longrightarrow> y < 256 ^ n \<Longrightarrow> be_bytes n x < be_bytes n y \<longleftrightarrow> x < y"
proof (induction n arbitrary: x y)
  case 0
  then show ?case by simp
next
  case (Suc n)
  let ?m = "256 ^ n :: nat"
  have hx: "unat (word_of_nat (x div ?m) :: u8) = x div ?m"
    and hy: "unat (word_of_nat (y div ?m) :: u8) = y div ?m"
    using Suc.prems by (simp_all add: unat_byte_div)
  have "be_bytes n x < be_bytes n y \<longleftrightarrow> be_bytes n (x mod ?m) < be_bytes n (y mod ?m)"
    by (simp add: be_bytes_mod)
  also have "\<dots> \<longleftrightarrow> x mod ?m < y mod ?m"
    by (rule Suc.IH) simp_all
  finally have tl: "be_bytes n x < be_bytes n y \<longleftrightarrow> x mod ?m < y mod ?m" .
  have "be_bytes (Suc n) x < be_bytes (Suc n) y \<longleftrightarrow>
      x div ?m < y div ?m \<or> x div ?m = y div ?m \<and> x mod ?m < y mod ?m"
    by (simp add: word_less_nat_alt word_unat_eq_iff hx hy tl)
  also have "\<dots> \<longleftrightarrow> x < y"
    by (rule div_mod_less_iff)
  finally show ?case .
qed

lemma be_bytes_inject:
  "x < 256 ^ n \<Longrightarrow> y < 256 ^ n \<Longrightarrow> be_bytes n x = be_bytes n y \<longleftrightarrow> x = y"
  by (metis be_bytes_less_iff less_irrefl linorder_neqE_nat)

lemma foldl_be:
  "foldl (\<lambda>acc b. acc * 256 + unat b) a bs = a * 256 ^ length bs + nat_of_be (bs :: bytes)"
proof (induction bs arbitrary: a)
  case Nil
  then show ?case by (simp add: nat_of_be_def)
next
  case (Cons b bs)
  have "nat_of_be (b # bs) = unat b * 256 ^ length bs + nat_of_be bs"
    using Cons [of "unat b"] by (simp add: nat_of_be_def)
  with Cons [of "a * 256 + unat b"] show ?case
    by (simp add: algebra_simps)
qed

lemma nat_of_be_Nil [simp]: "nat_of_be [] = 0"
  by (simp add: nat_of_be_def)

lemma nat_of_be_Cons: "nat_of_be (b # bs) = unat b * 256 ^ length bs + nat_of_be bs"
  by (simp add: nat_of_be_def foldl_be [of "unat b" bs, unfolded nat_of_be_def])

lemma nat_of_be_be_bytes [byte_simps]: "nat_of_be (be_bytes n k) = k mod 256 ^ n"
proof (induction n)
  case 0
  then show ?case by simp
next
  case (Suc n)
  have "k mod (256 ^ n * 256) = 256 ^ n * (k div 256 ^ n mod 256) + k mod 256 ^ n"
    by (rule mod_mult2_eq)
  then show ?case
    using Suc by (simp add: nat_of_be_Cons unat_of_nat mult.commute)
qed

lemma u64_range: "unat (w :: u64) < 256 ^ 8"
  using unsigned_less [of w] by simp

lemma u16_range: "unat (w :: u16) < 256 ^ 2"
  using unsigned_less [of w] by simp

lemma u64_be_roundtrip [simp]: "u64_from_be_bytes (u64_to_be_bytes w) = w"
  using u64_range [of w]
  by (simp add: u64_from_be_bytes_def u64_to_be_bytes_def nat_of_be_be_bytes del: be_bytes.simps)

lemma u64_be_less_iff [simp]: "u64_to_be_bytes x < u64_to_be_bytes y \<longleftrightarrow> x < y"
  by (simp add: u64_to_be_bytes_def be_bytes_less_iff [OF u64_range u64_range] word_less_nat_alt)

lemma u64_be_inject [simp]: "u64_to_be_bytes x = u64_to_be_bytes y \<longleftrightarrow> x = y"
  by (metis u64_be_roundtrip)

lemma u16_be_inject [simp]: "u16_to_be_bytes x = u16_to_be_bytes y \<longleftrightarrow> x = y"
  by (simp add: u16_to_be_bytes_def be_bytes_inject [OF u16_range u16_range] word_unat_eq_iff)

lemma append_less_append_same [simp]:
  "(xs @ ys :: 'a :: linorder list) < xs @ zs \<longleftrightarrow> ys < zs"
  by (induction xs) auto

lemma append_less_append_equal_length:
  assumes "length us = length vs"
  shows "(us @ xs :: 'a :: linorder list) < vs @ ys \<longleftrightarrow> us < vs \<or> us = vs \<and> xs < ys"
  using assms by (induction us vs rule: list_induct2) auto

subsection \<open>Results and the question-mark operator\<close>

text \<open>
  \<^verbatim>\<open>Result<T, E>\<close> is \<open>'e + 'a\<close>, with \<open>Inl\<close> the error. \<open>and_then r f\<close> is \<^verbatim>\<open>f(r?)\<close>.
\<close>

primrec and_then :: "'e + 'a \<Rightarrow> ('a \<Rightarrow> 'e + 'b) \<Rightarrow> 'e + 'b" where
  "and_then (Inl e) f = Inl e"
| "and_then (Inr x) f = f x"

primrec map_err :: "('e \<Rightarrow> 'f) \<Rightarrow> 'e + 'a \<Rightarrow> 'f + 'a" where
  "map_err g (Inl e) = Inl (g e)"
| "map_err g (Inr x) = Inr x"

primrec ok_or :: "'e \<Rightarrow> 'a option \<Rightarrow> 'e + 'a" where
  "ok_or e None = Inl e"
| "ok_or e (Some x) = Inr x"

primrec try_map :: "('a \<Rightarrow> 'e + 'b) \<Rightarrow> 'a list \<Rightarrow> 'e + 'b list" where
  "try_map f [] = Inr []"
| "try_map f (x # xs) = and_then (f x) (\<lambda>y. and_then (try_map f xs) (\<lambda>ys. Inr (y # ys)))"

primrec is_err :: "'e + 'a \<Rightarrow> bool" where
  "is_err (Inl e) = True"
| "is_err (Inr x) = False"

lemma and_then_eq_Inr [result_simps]:
  "and_then r f = Inr y \<longleftrightarrow> (\<exists>x. r = Inr x \<and> f x = Inr y)"
  by (cases r) auto

lemma and_then_eq_Inl [result_simps]:
  "and_then r f = Inl e \<longleftrightarrow> r = Inl e \<or> (\<exists>x. r = Inr x \<and> f x = Inl e)"
  by (cases r) auto

lemma map_err_eq_Inr [result_simps]: "map_err g r = Inr y \<longleftrightarrow> r = Inr y"
  by (cases r) auto

lemma map_err_eq_Inl [result_simps]: "map_err g r = Inl e \<longleftrightarrow> (\<exists>e'. r = Inl e' \<and> e = g e')"
  by (cases r) auto

lemma ok_or_eq_Inr [result_simps]: "ok_or e r = Inr y \<longleftrightarrow> r = Some y"
  by (cases r) auto

lemma ok_or_eq_Inl [result_simps]: "ok_or e r = Inl e' \<longleftrightarrow> r = None \<and> e' = e"
  by (cases r) auto

lemma try_map_eq_Inr [result_simps]:
  "try_map f xs = Inr ys \<longleftrightarrow> list_all2 (\<lambda>x y. f x = Inr y) xs ys"
proof (induction xs arbitrary: ys)
  case Nil
  show ?case by auto
next
  case (Cons x xs)
  show ?case by (cases ys) (auto simp: result_simps Cons)
qed

lemma try_map_Inr_comp:
  "(\<And>x. x \<in> set xs \<Longrightarrow> f x = Inr (g x)) \<Longrightarrow> try_map f xs = Inr (map g xs)"
  by (induction xs) auto

subsection \<open>Hash maps\<close>

type_synonym ('k, 'v) hmap = "('k \<times> 'v) list"

abbreviation hm_get :: "('k, 'v) hmap \<Rightarrow> 'k \<Rightarrow> 'v option" where
  "hm_get \<equiv> map_of"

abbreviation hm_keys :: "('k, 'v) hmap \<Rightarrow> 'k list" where
  "hm_keys m \<equiv> map fst m"

abbreviation hm_values :: "('k, 'v) hmap \<Rightarrow> 'v list" where
  "hm_values m \<equiv> map snd m"

definition hm_insert :: "'k \<Rightarrow> 'v \<Rightarrow> ('k, 'v) hmap \<Rightarrow> ('k, 'v) hmap" where
  "hm_insert k v m = AList.update k v m"

definition hm_contains :: "('k, 'v) hmap \<Rightarrow> 'k \<Rightarrow> bool" where
  "hm_contains m k = (map_of m k \<noteq> None)"

definition hm_wf :: "('k, 'v) hmap \<Rightarrow> bool" where
  "hm_wf m \<longleftrightarrow> distinct (map fst m)"

lemma hm_wf_Nil [simp]: "hm_wf []"
  by (simp add: hm_wf_def)

lemma hm_get_insert [hmap_simps, simp]: "hm_get (hm_insert k v m) = (hm_get m)(k \<mapsto> v)"
  by (simp add: hm_insert_def update_conv')

lemma hm_wf_insert [hmap_simps, simp]: "hm_wf m \<Longrightarrow> hm_wf (hm_insert k v m)"
  by (simp add: hm_insert_def hm_wf_def distinct_update)

lemma hm_keys_insert [hmap_simps, simp]: "fst ` set (hm_insert k v m) = insert k (fst ` set m)"
  by (simp add: hm_insert_def dom_update)

lemma hm_insert_new: "k \<notin> fst ` set m \<Longrightarrow> hm_insert k v m = m @ [(k, v)]"
  unfolding hm_insert_def by (induction m) (auto split: prod.splits)

lemma hm_contains_iff [hmap_simps]: "hm_contains m k \<longleftrightarrow> k \<in> fst ` set m"
  by (simp add: hm_contains_def map_of_eq_None_iff)

lemma hm_get_in_set: "hm_wf m \<Longrightarrow> (k, v) \<in> set m \<longleftrightarrow> hm_get m k = Some v"
  by (simp add: hm_wf_def)

lemma hm_get_value: "hm_get m k = Some v \<Longrightarrow> v \<in> snd ` set m"
  by (force dest: map_of_SomeD)

lemma hm_values_iff:
  "hm_wf m \<Longrightarrow> v \<in> set (hm_values m) \<longleftrightarrow> (\<exists>k. hm_get m k = Some v)"
  by (auto simp: image_iff hm_get_in_set [symmetric] intro: bexI [rotated])

lemma hm_wf_filter [simp]: "hm_wf m \<Longrightarrow> hm_wf (filter P m)"
  by (auto simp: hm_wf_def distinct_map intro: inj_on_subset)

lemma hm_get_filter [hmap_simps]:
  assumes "hm_wf m"
  shows "hm_get (filter P m) k =
    (case hm_get m k of None \<Rightarrow> None | Some v \<Rightarrow> if P (k, v) then Some v else None)"
proof (cases "hm_get m k")
  case None
  then have "hm_get (filter P m) k = None" by (auto simp: map_of_eq_None_iff)
  with None show ?thesis by simp
next
  case (Some v)
  have "hm_get (filter P m) k = Some w \<longleftrightarrow> w = v \<and> P (k, v)" for w
    using hm_get_in_set [OF hm_wf_filter [OF assms], of k w P] hm_get_in_set [OF assms, of k w] Some
    by auto
  then show ?thesis using Some by (cases "hm_get (filter P m) k") auto
qed

subsection \<open>Text renderings of integers\<close>

text \<open>
  \<^verbatim>\<open>to_string\<close> of an integer is its decimal text; \<^verbatim>\<open>{:X}\<close> its upper-case hexadecimal text
  without leading zeros. Both are the positional rendering \<open>to_radix\<close>.
\<close>

definition digit_char :: "nat \<Rightarrow> char" where
  "digit_char d = (if d < 10 then char_of (48 + d) else char_of (55 + d))"

definition digit_value :: "char \<Rightarrow> nat" where
  "digit_value c = (if of_char c < (58 :: nat) then of_char c - 48 else of_char c - 55)"

function to_radix :: "nat \<Rightarrow> nat \<Rightarrow> string" where
  "to_radix b n =
     (if b < 2 \<or> n < b then [digit_char n] else to_radix b (n div b) @ [digit_char (n mod b)])"
  by pat_completeness auto
termination
  by (relation "measure snd") auto

declare to_radix.simps [simp del]

definition of_radix :: "nat \<Rightarrow> string \<Rightarrow> nat" where
  "of_radix b s = foldl (\<lambda>acc c. acc * b + digit_value c) 0 s"

definition dec :: "nat \<Rightarrow> string" where
  "dec n = to_radix 10 n"

definition dec_int :: "int \<Rightarrow> string" where
  "dec_int i = (if i < 0 then CHR ''-'' # dec (nat (- i)) else dec (nat i))"

definition upper_hex :: "nat \<Rightarrow> string" where
  "upper_hex n = to_radix 16 n"

lemma digit_value_char: "d < 16 \<Longrightarrow> digit_value (digit_char d) = d"
  by (auto simp: digit_value_def digit_char_def)

lemma of_radix_to_radix: "2 \<le> b \<Longrightarrow> b \<le> 16 \<Longrightarrow> of_radix b (to_radix b n) = n"
proof (induction b n rule: to_radix.induct)
  case (1 b n)
  show ?case
  proof (cases "n < b")
    case True
    with "1.prems" show ?thesis
      by (simp add: to_radix.simps [of b n] of_radix_def digit_value_char)
  next
    case False
    have "n mod b < 16" using "1.prems" mod_less_divisor [of b n] by linarith
    moreover have "of_radix b (to_radix b (n div b)) = n div b"
      using "1.IH" "1.prems" False by simp
    ultimately show ?thesis
      using False "1.prems"
      by (simp add: to_radix.simps [of b n] of_radix_def digit_value_char)
  qed
qed

definition radix_digits :: "string" where
  "radix_digits = ''0123456789ABCDEF''"

lemma digit_char_in: "d < 16 \<Longrightarrow> digit_char d \<in> set radix_digits"
proof -
  assume "d < 16"
  then have "d \<in> set [0..<16]" by simp
  moreover have "list_all (\<lambda>d. digit_char d \<in> set radix_digits) [0..<16]"
    by code_simp
  ultimately show ?thesis by (simp only: list_all_iff)
qed

lemma set_to_radix: "2 \<le> b \<Longrightarrow> b \<le> 16 \<Longrightarrow> set (to_radix b n) \<subseteq> set radix_digits"
proof (induction b n rule: to_radix.induct)
  case (1 b n)
  have "n mod b < 16" using "1.prems" mod_less_divisor [of b n] by linarith
  with 1 show ?case
    by (auto simp: to_radix.simps [of b n] digit_char_in)
qed

fun join_with :: "string \<Rightarrow> string list \<Rightarrow> string" where
  "join_with sep [] = ''''"
| "join_with sep [s] = s"
| "join_with sep (s # t # ss) = s @ sep @ join_with sep (t # ss)"

subsection \<open>JSON values\<close>

text \<open>
  \<^verbatim>\<open>serde_json::Value\<close>. A number is an integer or an IEEE double given by its bits; an
  object lists its members in the order of the underlying map. The text renderings
  \<^verbatim>\<open>Number::to_string\<close> and \<^verbatim>\<open>Value::to_string\<close> belong to that library: they are the two
  fields of the parameter \<open>json_text\<close>, and the locale \<open>json_printer\<close> states what is
  documented of them and used here (an integer prints in decimal, a string without
  characters that JSON escapes prints between double quotes).
\<close>

datatype json_number = IntNum int | FloatNum u64

datatype json =
    JNull
  | JBool bool
  | JNumber json_number
  | JString string
  | JArray "json list"
  | JObject "(string \<times> json) list"

fun json_get :: "json \<Rightarrow> string \<Rightarrow> json option" where
  "json_get (JObject ms) k = map_of ms k"
| "json_get _ k = None"

fun as_object :: "json \<Rightarrow> (string \<times> json) list option" where
  "as_object (JObject ms) = Some ms"
| "as_object _ = None"

record json_text =
  number_text :: "json_number \<Rightarrow> string"
  value_text :: "json \<Rightarrow> string"

definition json_plain_char :: "char \<Rightarrow> bool" where
  "json_plain_char c \<longleftrightarrow>
     32 \<le> (of_char c :: nat) \<and> (of_char c :: nat) < 127 \<and> c \<noteq> CHR 34 \<and> c \<noteq> CHR 92"

definition dquote :: "string \<Rightarrow> string" where
  "dquote s = CHR 34 # s @ [CHR 34]"

locale json_printer =
  fixes J :: json_text
  assumes number_text_int: "number_text J (IntNum i) = dec_int i"
    and value_text_number: "value_text J (JNumber n) = number_text J n"
    and value_text_plain: "list_all json_plain_char s \<Longrightarrow> value_text J (JString s) = dquote s"

lemma split_at_separator:
  "c \<notin> set s \<Longrightarrow> c \<notin> set t \<Longrightarrow> s @ c # xs = t @ c # ys \<longleftrightarrow> s = t \<and> xs = ys"
proof (induction s arbitrary: t)
  case Nil
  then show ?case by (cases t) auto
next
  case (Cons a s)
  then show ?case by (cases t) auto
qed

lemma dquote_append_inject:
  assumes "CHR 34 \<notin> set s" and "CHR 34 \<notin> set t"
  shows "dquote s @ xs = dquote t @ ys \<longleftrightarrow> s = t \<and> xs = ys"
  using split_at_separator [OF assms] by (simp add: dquote_def)

end
