(* ===== verification/Core_Types.thy ===== *)
theory Core_Types
  imports PES_Prelude
begin

section \<open>Domain types (\<^verbatim>\<open>crates/pes-core/src/types.rs\<close>)\<close>

text \<open>
  The records and enums every other crate exchanges, with the source's fields and
  variants. \<^verbatim>\<open>PgLsn\<close> derives its order from the wrapped \<^verbatim>\<open>u64\<close>, so it is made an instance of
  the library's linear orders; \<^verbatim>\<open>Display\<close> of an LSN is proved to lose nothing. A driver
  error (\<^verbatim>\<open>sqlx::Error\<close>) is opaque: only its text is ever read.
\<close>

datatype pg_lsn = PgLsn (lsn_u64: u64)

instantiation pg_lsn :: linorder
begin

definition less_eq_pg_lsn :: "pg_lsn \<Rightarrow> pg_lsn \<Rightarrow> bool" where
  "less_eq_pg_lsn a b \<longleftrightarrow> lsn_u64 a \<le> lsn_u64 b"

definition less_pg_lsn :: "pg_lsn \<Rightarrow> pg_lsn \<Rightarrow> bool" where
  "less_pg_lsn a b \<longleftrightarrow> lsn_u64 a < lsn_u64 b"

instance
  by standard (auto simp: less_eq_pg_lsn_def less_pg_lsn_def intro: pg_lsn.expand)

end

lemma PgLsn_le_iff [simp]: "PgLsn a \<le> PgLsn b \<longleftrightarrow> a \<le> b"
  by (simp add: less_eq_pg_lsn_def)

lemma PgLsn_less_iff [simp]: "PgLsn a < PgLsn b \<longleftrightarrow> a < b"
  by (simp add: less_pg_lsn_def)

definition pg_lsn_display :: "pg_lsn \<Rightarrow> string" where
  "pg_lsn_display l =
     upper_hex (unat (drop_bit 32 (lsn_u64 l))) @ ''/'' @
     upper_hex (unat (lsn_u64 l AND 0xFFFFFFFF))"

record sync_rule =
  sr_id :: string
  sr_description :: "string option"
  sr_parameters :: "string list"
  sr_parameter_queries :: "(string, string) hmap"
  sr_data_queries :: "(string, string) hmap"

datatype bucket_id = BucketId (bucket_name: string)

definition bucket_id_display :: "bucket_id \<Rightarrow> string" where
  "bucket_id_display b = bucket_name b"

record bucket_assignment =
  ba_bucket_id :: bucket_id
  ba_rule_id :: string
  ba_parameters :: "(string, json) hmap"
  ba_data_queries :: "(string, string) hmap"

record token_claims =
  tc_sub :: string
  tc_tenant_id :: "string option"
  tc_exp :: u64
  tc_custom :: "(string, json) hmap"

datatype bucket_op_kind = Upsert json | Delete | CrdtPatch bytes

record bucket_op =
  bo_lsn :: pg_lsn
  bo_bucket_id :: bucket_id
  bo_entity_type :: string
  bo_entity_id :: string
  bo_op :: bucket_op_kind

datatype bucket_checksum = BucketChecksum (checksum_u64: u64)

datatype sqlx_error = SqlxError (sqlx_text: string)

datatype sync_error =
    BucketAssignmentFailed string
  | LsnGap pg_lsn pg_lsn
  | ChecksumMismatch bucket_checksum bucket_checksum
  | ProtocolError string
  | AuthError string
  | Database sqlx_error

fun sync_error_display :: "sync_error \<Rightarrow> string" where
  "sync_error_display (BucketAssignmentFailed m) = ''bucket assignment failed: '' @ m"
| "sync_error_display (LsnGap e a) =
     ''LSN gap detected: expected '' @ pg_lsn_display e @ '', got '' @ pg_lsn_display a"
| "sync_error_display (ChecksumMismatch e a) =
     ''checksum mismatch: expected BucketChecksum('' @ dec (unat (checksum_u64 e)) @
     ''), got BucketChecksum('' @ dec (unat (checksum_u64 a)) @ '')''"
| "sync_error_display (ProtocolError m) = ''protocol error: '' @ m"
| "sync_error_display (AuthError m) = ''auth error: '' @ m"
| "sync_error_display (Database e) = ''database error: '' @ sqlx_text e"

subsection \<open>An LSN is determined by its text\<close>

lemma u64_halves:
  fixes w :: u64
  shows "unat w = unat (drop_bit 32 w) * 2 ^ 32 + unat (w AND 0xFFFFFFFF)"
proof -
  have mask: "(0xFFFFFFFF :: u64) = mask 32" by (simp add: mask_eq_exp_minus_1)
  have "unat (drop_bit 32 w) = unat w div 2 ^ 32"
    unfolding unat_drop_bit_eq by (rule drop_bit_eq_div)
  moreover have "unat (w AND 0xFFFFFFFF) = unat w mod 2 ^ 32"
    unfolding mask take_bit_eq_mask [symmetric] unsigned_take_bit_eq by (rule take_bit_eq_mod)
  ultimately show ?thesis by simp
qed

lemma upper_hex_inject [simp]: "upper_hex m = upper_hex n \<longleftrightarrow> m = n"
proof
  assume "upper_hex m = upper_hex n"
  then have "of_radix 16 (to_radix 16 m) = of_radix 16 (to_radix 16 n)"
    by (simp add: upper_hex_def)
  then show "m = n" by (simp add: of_radix_to_radix)
qed simp

lemma upper_hex_no_slash [simp]: "CHR ''/'' \<notin> set (upper_hex n)"
  using set_to_radix [of 16 n] by (auto simp: upper_hex_def radix_digits_def)

text \<open>\<^verbatim>\<open>Display for PgLsn\<close> prints two hexadecimal halves, and two LSNs with the same text are
  equal.\<close>

theorem pg_lsn_display_inject: "pg_lsn_display a = pg_lsn_display b \<longleftrightarrow> a = b"
proof
  assume "pg_lsn_display a = pg_lsn_display b"
  then have "unat (drop_bit 32 (lsn_u64 a)) = unat (drop_bit 32 (lsn_u64 b)) \<and>
      unat (lsn_u64 a AND 0xFFFFFFFF) = unat (lsn_u64 b AND 0xFFFFFFFF)"
    by (simp add: pg_lsn_display_def split_at_separator)
  then have "unat (lsn_u64 a) = unat (lsn_u64 b)"
    by (simp add: u64_halves [of "lsn_u64 a"] u64_halves [of "lsn_u64 b"])
  then show "a = b" by (simp add: pg_lsn.expand word_unat_eq_iff)
qed simp

end
