(* ===== verification/Rule_Parser.thy ===== *)
theory Rule_Parser
  imports Core_Types
begin

section \<open>Loading \<^verbatim>\<open>sync-rules.toml\<close> (\<^verbatim>\<open>pes-rules: error.rs, parser.rs\<close>)\<close>

text \<open>
  The error type of the rule loader with its rendering and the position of a syntax
  error, and the mapping of a parsed document to a \<open>sync_rule_set\<close>. The TOML parser and
  the file system are parameters: \<open>toml_from_str\<close> gives the document's tables as they
  stand in the text, an absent key being \<open>None\<close>, and the \<^verbatim>\<open>#[serde(default)]\<close> attributes
  are applied here by \<open>fill_document\<close>.
\<close>

datatype io_error = IoError (io_text: string)

datatype parse_error =
    Io string io_error
  | Syntax string "nat option" "nat option"
  | Validation string string

fun line_col_suffix :: "nat option \<Rightarrow> nat option \<Rightarrow> string" where
  "line_col_suffix (Some l) (Some c) = '' at line '' @ dec l @ '', column '' @ dec c"
| "line_col_suffix (Some l) None = '' at line '' @ dec l"
| "line_col_suffix None _ = []"

fun parse_error_display :: "parse_error \<Rightarrow> string" where
  "parse_error_display (Io path src) = ''failed to read '' @ path @ '': '' @ io_text src"
| "parse_error_display (Syntax msg line col) =
     ''TOML syntax error'' @ line_col_suffix line col @ '': '' @ msg"
| "parse_error_display (Validation b msg) =
     ''validation error in bucket '' @ [CHR 39] @ b @ [CHR 39] @ '': '' @ msg"

subsection \<open>From a byte offset to a line and a column\<close>

definition utf8_continuation :: "char \<Rightarrow> bool" where
  "utf8_continuation c \<longleftrightarrow> 128 \<le> (of_char c :: nat) \<and> (of_char c :: nat) < 192"

definition is_char_boundary :: "string \<Rightarrow> nat \<Rightarrow> bool" where
  "is_char_boundary s i \<longleftrightarrow>
     i = 0 \<or> i = length s \<or> i < length s \<and> \<not> utf8_continuation (s ! i)"

text \<open>
  The loop over \<^verbatim>\<open>source[..offset].chars()\<close>, on the bytes: a character is counted at its first
  byte. Slicing inside a character panics, which is the value \<open>None\<close>.
\<close>

fun line_col_loop :: "string \<Rightarrow> nat \<Rightarrow> nat \<Rightarrow> nat \<times> nat" where
  "line_col_loop [] line col = (line, col)"
| "line_col_loop (ch # s) line col =
     (if ch = CHR 10 then line_col_loop s (line + 1) 1
      else if utf8_continuation ch then line_col_loop s line col
      else line_col_loop s line (col + 1))"

definition offset_to_line_col :: "string \<Rightarrow> nat \<Rightarrow> (nat option \<times> nat option) option" where
  "offset_to_line_col source offset =
     (if length source < offset then Some (None, None)
      else if \<not> is_char_boundary source offset then None
      else case line_col_loop (take offset source) 1 1 of
             (line, col) \<Rightarrow> Some (Some line, Some col))"

record toml_error =
  te_message :: string
  te_span_start :: "nat option"

definition from_toml_error :: "toml_error \<Rightarrow> string \<Rightarrow> parse_error option" where
  "from_toml_error err source =
     (case te_span_start err of
        None \<Rightarrow> Some (Syntax (te_message err) None None)
      | Some start \<Rightarrow>
          map_option (\<lambda>(line, col). Syntax (te_message err) line col)
            (offset_to_line_col source start))"

subsection \<open>The document and the rule set\<close>

record sync_rule_set =
  rs_version :: string
  rs_rules :: "(string, sync_rule) hmap"

record raw_bucket =
  rb_description :: "string option"
  rb_parameters :: "string list"
  rb_parameter_queries :: "(string, string) hmap"
  rb_data :: "(string, string) hmap"

record raw_document =
  rd_version :: string
  rd_buckets :: "(string, raw_bucket) hmap"

text \<open>The tables as they stand in the text, before defaults.\<close>

record toml_bucket =
  tb_description :: "string option"
  tb_parameters :: "string list option"
  tb_parameter_queries :: "(string, string) hmap option"
  tb_data :: "(string, string) hmap option"

record toml_document =
  td_version :: "string option"
  td_buckets :: "(string, toml_bucket) hmap option"

definition default_version :: string where
  "default_version = ''1''"

definition or_default :: "'a \<Rightarrow> 'a option \<Rightarrow> 'a" where
  "or_default d v = (case v of None \<Rightarrow> d | Some x \<Rightarrow> x)"

definition fill_bucket :: "toml_bucket \<Rightarrow> raw_bucket" where
  "fill_bucket b =
     \<lparr>rb_description = tb_description b,
      rb_parameters = or_default [] (tb_parameters b),
      rb_parameter_queries = or_default [] (tb_parameter_queries b),
      rb_data = or_default [] (tb_data b)\<rparr>"

definition fill_document :: "toml_document \<Rightarrow> raw_document" where
  "fill_document d =
     \<lparr>rd_version = or_default default_version (td_version d),
      rd_buckets = map (\<lambda>(k, b). (k, fill_bucket b)) (or_default [] (td_buckets d))\<rparr>"

definition rule_of_bucket :: "string \<Rightarrow> raw_bucket \<Rightarrow> sync_rule" where
  "rule_of_bucket i b =
     \<lparr>sr_id = i, sr_description = rb_description b, sr_parameters = rb_parameters b,
      sr_parameter_queries = rb_parameter_queries b, sr_data_queries = rb_data b\<rparr>"

text \<open>\<open>None\<close> is the panic of \<open>from_toml_error\<close> on a span inside a character.\<close>

definition parse_sync_rules_str ::
  "(string \<Rightarrow> toml_error + toml_document) \<Rightarrow> string \<Rightarrow> (parse_error + sync_rule_set) option" where
  "parse_sync_rules_str toml_from_str contents =
     (case toml_from_str contents of
        Inl err \<Rightarrow> map_option Inl (from_toml_error err contents)
      | Inr doc \<Rightarrow>
          (let raw = fill_document doc in
           Some (Inr \<lparr>rs_version = rd_version raw,
                      rs_rules = map (\<lambda>(i, b). (i, rule_of_bucket i b)) (rd_buckets raw)\<rparr>)))"

definition parse_sync_rules ::
  "(string \<Rightarrow> io_error + string) \<Rightarrow> (string \<Rightarrow> toml_error + toml_document) \<Rightarrow> string \<Rightarrow>
   (parse_error + sync_rule_set) option" where
  "parse_sync_rules read_to_string toml_from_str path =
     (case read_to_string path of
        Inl src \<Rightarrow> Some (Inl (Io path src))
      | Inr contents \<Rightarrow> parse_sync_rules_str toml_from_str contents)"

subsection \<open>Positions\<close>

text \<open>The text after the last line feed, and its number of characters.\<close>

definition last_line :: "string \<Rightarrow> string" where
  "last_line s = rev (takeWhile (\<lambda>c. c \<noteq> CHR 10) (rev s))"

definition char_count :: "string \<Rightarrow> nat" where
  "char_count s = length (filter (\<lambda>c. \<not> utf8_continuation c) s)"

lemma last_line_snoc:
  "last_line (s @ [c]) = (if c = CHR 10 then [] else last_line s @ [c])"
  by (simp add: last_line_def)

lemma char_count_snoc:
  "char_count (s @ [c]) = (if utf8_continuation c then char_count s else char_count s + 1)"
  by (simp add: char_count_def)

lemma newline_not_continuation [simp]: "\<not> utf8_continuation (CHR 10)"
  by (simp add: utf8_continuation_def)

lemma line_col_loop_append:
  "line_col_loop (s @ t) l c = (case line_col_loop s l c of (l', c') \<Rightarrow> line_col_loop t l' c')"
  by (induction s arbitrary: l c) auto

lemma line_col_loop_eq:
  "line_col_loop s 1 1 = (1 + count_list s (CHR 10), 1 + char_count (last_line s))"
proof (induction s rule: rev_induct)
  case Nil
  then show ?case by (simp add: last_line_def char_count_def)
next
  case (snoc c s)
  then show ?case
    by (simp add: line_col_loop_append last_line_snoc char_count_snoc)
       (simp add: char_count_def)
qed

text \<open>For an offset at a character boundary, \<^verbatim>\<open>offset_to_line_col\<close> returns one plus the
  number of line feeds before it as the line, and one plus the number of characters between
  the last of them and the offset as the column; it does not panic.\<close>

theorem offset_to_line_col_correct:
  assumes "is_char_boundary source offset"
  shows "offset_to_line_col source offset =
    Some (Some (1 + count_list (take offset source) (CHR 10)),
          Some (1 + char_count (last_line (take offset source))))"
proof -
  have "offset \<le> length source"
    using assms by (auto simp: is_char_boundary_def)
  then show ?thesis
    using assms line_col_loop_eq [of "take offset source"] by (simp add: offset_to_line_col_def)
qed

theorem offset_to_line_col_correct_witness:
  "offset_to_line_col (''a'' @ [CHR 10] @ ''bc = '') 5 = Some (Some 2, Some 4)"
  using offset_to_line_col_correct [of "''a'' @ [CHR 10] @ ''bc = ''" 5]
  by (simp add: is_char_boundary_def utf8_continuation_def last_line_def char_count_def)

subsection \<open>Well-formed rule sets\<close>

text \<open>
  What the loader establishes and the assigner relies on: the keys of a rule set are
  distinct and every rule carries its own key as its id.
\<close>

definition rule_set_wf :: "sync_rule_set \<Rightarrow> bool" where
  "rule_set_wf rs \<longleftrightarrow> hm_wf (rs_rules rs) \<and> (\<forall>(k, r) \<in> set (rs_rules rs). sr_id r = k)"

lemma rule_set_wf_rule:
  "rule_set_wf rs \<Longrightarrow> (k, r) \<in> set (rs_rules rs) \<Longrightarrow> sr_id r = k"
  by (auto simp: rule_set_wf_def)

lemma rule_set_wf_unique:
  assumes "rule_set_wf rs" "r \<in> set (hm_values (rs_rules rs))" "r' \<in> set (hm_values (rs_rules rs))"
    and "sr_id r = sr_id r'"
  shows "r = r'"
proof -
  obtain k k' where in_set: "(k, r) \<in> set (rs_rules rs)" "(k', r') \<in> set (rs_rules rs)"
    using assms(2,3) by auto
  then have "k = k'" using assms(1,4) rule_set_wf_rule by metis
  with in_set show ?thesis
    using assms(1) by (auto simp: rule_set_wf_def hm_wf_def dest: eq_key_imp_eq_value)
qed

lemma parse_sync_rules_str_wf:
  assumes "parse_sync_rules_str toml_from_str contents = Some (Inr rs)"
    and "\<And>doc bs. toml_from_str contents = Inr doc \<Longrightarrow> td_buckets doc = Some bs \<Longrightarrow> hm_wf bs"
  shows "rule_set_wf rs"
proof -
  obtain doc where doc: "toml_from_str contents = Inr doc"
    using assms(1) by (auto simp: parse_sync_rules_str_def split: sum.splits option.splits)
  then have rs: "rs_rules rs = map (\<lambda>(i, b). (i, rule_of_bucket i b)) (rd_buckets (fill_document doc))"
    using assms(1) by (auto simp: parse_sync_rules_str_def Let_def)
  have "hm_wf (or_default [] (td_buckets doc))"
    using assms(2) [OF doc] by (auto simp: or_default_def split: option.splits)
  then show ?thesis
    by (auto simp: rule_set_wf_def rs fill_document_def hm_wf_def rule_of_bucket_def
        comp_def case_prod_beta)
qed

end
