(* ===== verification/Rule_Template.thy ===== *)
theory Rule_Template
  imports Rule_Parser "HOL-Library.Sublist"
begin

section \<open>Template substitution (\<^verbatim>\<open>pes-rules: template.rs\<close>)\<close>

text \<open>
  The allowlist of values and the rendering of \<^verbatim>\<open>{bucket_parameters.X}\<close> references. The two
  regular expressions of the source become matchers: a match is anchored at both ends for
  the allowlist; for references the text is cut, from the left and without overlaps, into
  single characters and references (\<open>segments\<close>), as the leftmost-first search of the pattern
  does. \<open>match_template_ref_iff\<close> states that matcher against the pattern itself.

  The security statement is about the quote structure of the rendered text: reading it
  with SQL's rule that a single quote opens or closes a literal, everything outside
  literals is the text of the rule author, never a substituted value.
\<close>

definition ascii_lower :: "char \<Rightarrow> bool" where
  "ascii_lower c \<longleftrightarrow> CHR ''a'' \<le> c \<and> c \<le> CHR ''z''"

definition ascii_upper :: "char \<Rightarrow> bool" where
  "ascii_upper c \<longleftrightarrow> CHR ''A'' \<le> c \<and> c \<le> CHR ''Z''"

definition ascii_digit :: "char \<Rightarrow> bool" where
  "ascii_digit c \<longleftrightarrow> CHR ''0'' \<le> c \<and> c \<le> CHR ''9''"

definition safe_char :: "char \<Rightarrow> bool" where
  "safe_char c \<longleftrightarrow>
     ascii_lower c \<or> ascii_upper c \<or> ascii_digit c \<or> c = CHR ''_'' \<or> c = CHR ''-''"

definition ref_char :: "char \<Rightarrow> bool" where
  "ref_char c \<longleftrightarrow> ascii_upper c \<or> ascii_lower c \<or> ascii_digit c \<or> c = CHR ''_''"

definition validate_safe_value :: "string \<Rightarrow> bool" where
  "validate_safe_value v \<longleftrightarrow> list_all safe_char v \<and> 1 \<le> length v \<and> length v \<le> 128"

definition template_prefix :: string where
  "template_prefix = ''{bucket_parameters.''"

definition match_template_ref :: "string \<Rightarrow> (string \<times> string) option" where
  "match_template_ref s =
     (if prefix template_prefix s
      then (let after = drop (length template_prefix) s; name = takeWhile ref_char after in
            case dropWhile ref_char after of
              [] \<Rightarrow> None
            | c # rest \<Rightarrow> if c = CHR ''}'' \<and> name \<noteq> [] then Some (name, rest) else None)
      else None)"

datatype segment = Lit char | Ref string

lemma match_template_ref_shorter:
  "match_template_ref s = Some (name, rest) \<Longrightarrow> length rest < length s"
  using length_dropWhile_le [of ref_char "drop (length template_prefix) s"]
  by (auto simp: match_template_ref_def Let_def split: if_splits list.splits)

function segments :: "string \<Rightarrow> segment list" where
  "segments s =
     (case match_template_ref s of
        Some (name, rest) \<Rightarrow> Ref name # segments rest
      | None \<Rightarrow> (case s of [] \<Rightarrow> [] | c # cs \<Rightarrow> Lit c # segments cs))"
  by pat_completeness auto
termination
  by (relation "measure length") (auto dest: match_template_ref_shorter)

declare segments.simps [simp del]

fun refs_of :: "segment list \<Rightarrow> string list" where
  "refs_of [] = []"
| "refs_of (Lit c # ss) = refs_of ss"
| "refs_of (Ref n # ss) = n # refs_of ss"

definition template_refs :: "string \<Rightarrow> string list" where
  "template_refs q = refs_of (segments q)"

subsection \<open>The two passes of \<^verbatim>\<open>substitute\<close>\<close>

definition unresolved_message :: "string \<Rightarrow> string" where
  "unresolved_message name =
     ''template references unresolved parameter '' @ [CHR 39] @ ''bucket_parameters.'' @ name @ [CHR 39]"

definition unsafe_message :: "string \<Rightarrow> string" where
  "unsafe_message name =
     ''value for parameter '' @ [CHR 39] @ name @ [CHR 39] @
     '' failed the safe-value allowlist (must match [a-zA-Z0-9_-]{1,128})''"

fun check_refs :: "string \<Rightarrow> (string, string) hmap \<Rightarrow> string list \<Rightarrow> parse_error + unit" where
  "check_refs bucket ps [] = Inr ()"
| "check_refs bucket ps (name # names) =
     (case hm_get ps name of
        None \<Rightarrow> Inl (Validation bucket (unresolved_message name))
      | Some v \<Rightarrow>
          if \<not> validate_safe_value v then Inl (Validation bucket (unsafe_message name))
          else check_refs bucket ps names)"

definition sql_literal :: "string \<Rightarrow> string" where
  "sql_literal v = CHR 39 # v @ [CHR 39]"

fun render :: "(string, string) hmap \<Rightarrow> segment list \<Rightarrow> string" where
  "render ps [] = []"
| "render ps (Lit c # ss) = c # render ps ss"
| "render ps (Ref n # ss) =
     sql_literal (case hm_get ps n of Some v \<Rightarrow> v | None \<Rightarrow> []) @ render ps ss"

definition substitute :: "string \<Rightarrow> string \<Rightarrow> (string, string) hmap \<Rightarrow> parse_error + string" where
  "substitute bucket query ps =
     and_then (check_refs bucket ps (template_refs query)) (\<lambda>_. Inr (render ps (segments query)))"

subsection \<open>The matcher against the pattern\<close>

lemma ref_char_brace [simp]: "\<not> ref_char (CHR ''}'')"
  by (simp add: ref_char_def ascii_lower_def ascii_upper_def ascii_digit_def less_eq_char_def)

lemma takeWhile_ref [simp]:
  "list_all ref_char name \<Longrightarrow> takeWhile ref_char (name @ CHR ''}'' # rest) = name"
  by (induction name) auto

lemma dropWhile_ref [simp]:
  "list_all ref_char name \<Longrightarrow> dropWhile ref_char (name @ CHR ''}'' # rest) = CHR ''}'' # rest"
  by (induction name) auto

lemma match_template_ref_iff:
  "match_template_ref s = Some (name, rest) \<longleftrightarrow>
     s = template_prefix @ name @ ''}'' @ rest \<and> name \<noteq> [] \<and> list_all ref_char name"
proof
  assume m: "match_template_ref s = Some (name, rest)"
  then have pre: "prefix template_prefix s"
    by (auto simp: match_template_ref_def split: if_splits)
  then obtain after where s: "s = template_prefix @ after" by (auto simp: prefix_def)
  have "after = takeWhile ref_char after @ dropWhile ref_char after" by simp
  moreover have "dropWhile ref_char after = CHR ''}'' # rest" "name = takeWhile ref_char after"
    "name \<noteq> []"
    using m by (auto simp: s match_template_ref_def Let_def split: if_splits list.splits)
  ultimately have "s = template_prefix @ name @ ''}'' @ rest" using s by simp
  moreover have "list_all ref_char name"
    using \<open>name = _\<close> by (auto simp: list_all_iff dest: set_takeWhileD)
  ultimately show "s = template_prefix @ name @ ''}'' @ rest \<and> name \<noteq> [] \<and> list_all ref_char name"
    using \<open>name \<noteq> []\<close> by simp
next
  assume "s = template_prefix @ name @ ''}'' @ rest \<and> name \<noteq> [] \<and> list_all ref_char name"
  then show "match_template_ref s = Some (name, rest)"
    by (simp add: match_template_ref_def Let_def)
qed

lemma segments_Nil [simp]: "segments [] = []"
  by (simp add: segments.simps match_template_ref_def template_prefix_def)

lemma segments_ref:
  "match_template_ref s = Some (name, rest) \<Longrightarrow> segments s = Ref name # segments rest"
  by (simp add: segments.simps [of s])

lemma segments_lit:
  "match_template_ref (c # cs) = None \<Longrightarrow> segments (c # cs) = Lit c # segments cs"
  by (simp add: segments.simps [of "c # cs"])

lemma segments_induct [case_names Nil Ref Lit]:
  assumes "P []"
    and "\<And>s name rest. match_template_ref s = Some (name, rest) \<Longrightarrow> P rest \<Longrightarrow> P s"
    and "\<And>c cs. match_template_ref (c # cs) = None \<Longrightarrow> P cs \<Longrightarrow> P (c # cs)"
  shows "P s"
proof (induction s rule: segments.induct)
  case (1 s)
  show ?case
  proof (cases "match_template_ref s")
    case (Some m)
    with 1(2) assms(2) show ?thesis by (cases m) auto
  next
    case None
    with 1(1) assms(1,3) show ?thesis by (cases s) auto
  qed
qed

text \<open>Cutting a text loses nothing: written back with its references, it is the text.\<close>

fun unsegment :: "segment list \<Rightarrow> string" where
  "unsegment [] = []"
| "unsegment (Lit c # ss) = c # unsegment ss"
| "unsegment (Ref n # ss) = template_prefix @ n @ ''}'' @ unsegment ss"

lemma unsegment_segments: "unsegment (segments s) = s"
proof (induction s rule: segments_induct)
  case (Ref s name rest)
  then show ?case by (simp add: segments_ref) (simp add: match_template_ref_iff)
qed (simp_all add: segments_lit)

subsection \<open>The first pass\<close>

definition ref_ok :: "(string, string) hmap \<Rightarrow> string \<Rightarrow> bool" where
  "ref_ok ps n \<longleftrightarrow> (\<exists>v. hm_get ps n = Some v \<and> validate_safe_value v)"

definition ref_error :: "string \<Rightarrow> (string, string) hmap \<Rightarrow> string \<Rightarrow> parse_error" where
  "ref_error bucket ps n =
     Validation bucket (if hm_get ps n = None then unresolved_message n else unsafe_message n)"

lemma check_refs_find:
  "check_refs bucket ps ns =
     (case find (\<lambda>n. \<not> ref_ok ps n) ns of None \<Rightarrow> Inr () | Some n \<Rightarrow> Inl (ref_error bucket ps n))"
  by (induction ns) (auto simp: ref_ok_def ref_error_def split: option.splits)

text \<open>\<^verbatim>\<open>substitute\<close> looks for the first reference of the query that is unresolved or whose value
  fails the allowlist. If there is one it returns that reference's validation error and
  renders nothing; otherwise it returns the whole rendering.\<close>

theorem substitute_total_correct:
  "substitute bucket q ps =
     (case find (\<lambda>n. \<not> ref_ok ps n) (template_refs q) of
        None \<Rightarrow> Inr (render ps (segments q))
      | Some n \<Rightarrow> Inl (ref_error bucket ps n))"
  by (simp add: substitute_def check_refs_find split: option.splits)

lemma substitute_Inr:
  "substitute bucket q ps = Inr out \<longleftrightarrow>
     list_all (ref_ok ps) (template_refs q) \<and> out = render ps (segments q)"
  by (auto simp: substitute_def check_refs_find list_all_iff find_None_iff split: option.splits)
     (auto simp: find_Some_iff dest: nth_mem)

lemma substitute_Inl:
  "substitute bucket q ps = Inl e \<Longrightarrow>
     \<exists>n \<in> set (template_refs q). \<not> ref_ok ps n \<and> e = ref_error bucket ps n"
  by (auto simp: substitute_def check_refs_find find_Some_iff split: option.splits)

subsection \<open>Values stay inside literals\<close>

text \<open>
  The text outside single-quoted literals, reading from left to right; the flag says
  whether the reader is inside a literal. \<open>refs_outside\<close> is the rule author's side: every
  reference of the template stands outside the author's own literals.
\<close>

fun outside_literals :: "bool \<Rightarrow> string \<Rightarrow> string" where
  "outside_literals inside [] = []"
| "outside_literals inside (c # cs) =
     (if c = CHR 39 then outside_literals (\<not> inside) cs
      else if inside then outside_literals inside cs
      else c # outside_literals inside cs)"

fun inside_after :: "bool \<Rightarrow> string \<Rightarrow> bool" where
  "inside_after inside [] = inside"
| "inside_after inside (c # cs) = inside_after (if c = CHR 39 then \<not> inside else inside) cs"

fun refs_outside :: "bool \<Rightarrow> segment list \<Rightarrow> bool" where
  "refs_outside inside [] = True"
| "refs_outside inside (Lit c # ss) = refs_outside (if c = CHR 39 then \<not> inside else inside) ss"
| "refs_outside inside (Ref n # ss) = (\<not> inside \<and> refs_outside inside ss)"

fun author_text :: "segment list \<Rightarrow> string" where
  "author_text [] = []"
| "author_text (Lit c # ss) = c # author_text ss"
| "author_text (Ref n # ss) = author_text ss"

lemma safe_char_no_quote: "safe_char c \<Longrightarrow> c \<noteq> CHR 39 \<and> c \<noteq> CHR 34"
  by (auto simp: safe_char_def ascii_lower_def ascii_upper_def ascii_digit_def less_eq_char_def)

lemma safe_value_no_quote: "validate_safe_value v \<Longrightarrow> CHR 39 \<notin> set v \<and> CHR 34 \<notin> set v"
  by (auto simp: validate_safe_value_def list_all_iff dest: safe_char_no_quote)

lemma outside_literal_skip:
  "CHR 39 \<notin> set v \<Longrightarrow> outside_literals True (v @ CHR 39 # s) = outside_literals False s"
  by (induction v) auto

lemma inside_after_append [simp]: "inside_after b (s @ t) = inside_after (inside_after b s) t"
  by (induction s arbitrary: b) auto

lemma inside_after_no_quote: "CHR 39 \<notin> set v \<Longrightarrow> inside_after b v = b"
  by (induction v) auto

lemma render_outside:
  "list_all (ref_ok ps) (refs_of ss) \<Longrightarrow> refs_outside b ss \<Longrightarrow>
     outside_literals b (render ps ss) = outside_literals b (author_text ss) \<and>
     inside_after b (render ps ss) = inside_after b (author_text ss)"
proof (induction b ss rule: refs_outside.induct)
  case (3 b n ss)
  then obtain v where v: "hm_get ps n = Some v" "CHR 39 \<notin> set v" and b: "\<not> b"
    by (auto simp: ref_ok_def dest: safe_value_no_quote)
  have "outside_literals b (render ps (Ref n # ss)) = outside_literals b (render ps ss)"
    using v b by (simp add: sql_literal_def outside_literal_skip)
  moreover have "inside_after b (render ps (Ref n # ss)) = inside_after b (render ps ss)"
    using v b by (simp add: sql_literal_def inside_after_no_quote)
  moreover have "outside_literals b (render ps ss) = outside_literals b (author_text ss) \<and>
      inside_after b (render ps ss) = inside_after b (author_text ss)"
    using 3 by auto
  ultimately show ?case by (simp del: render.simps)
qed auto

text \<open>C5: when every reference of a query template stands outside the author's own string
  literals, the query that \<^verbatim>\<open>substitute\<close> returns has, outside its string literals, exactly the
  author's text, and is inside a literal at its end only if the author's text is: no value
  of a JWT claim or database row reaches the SQL text other than as a literal.\<close>

theorem substitute_injection_free:
  assumes "substitute bucket q ps = Inr out" and "refs_outside False (segments q)"
  shows "outside_literals False out = outside_literals False (author_text (segments q)) \<and>
         inside_after False out = inside_after False (author_text (segments q))"
  using assms render_outside [of ps "segments q" False]
  by (simp add: substitute_Inr template_refs_def)

theorem substitute_injection_free_witness:
  "(\<exists>out. substitute ''b'' ''o = {bucket_parameters.u}'' [(''u'', ''abc-1'')] = Inr out \<and>
      outside_literals False out = ''o = '' \<and> \<not> inside_after False out)"
proof -
  have seg: "segments ''o = {bucket_parameters.u}'' =
      [Lit (CHR ''o''), Lit (CHR '' ''), Lit (CHR ''=''), Lit (CHR '' ''), Ref ''u'']"
    by code_simp
  have ok: "substitute ''b'' ''o = {bucket_parameters.u}'' [(''u'', ''abc-1'')] =
      Inr (''o = '' @ sql_literal ''abc-1'')"
    by code_simp
  have "refs_outside False (segments ''o = {bucket_parameters.u}'')"
    by (simp add: seg)
  from substitute_injection_free [OF ok this] ok show ?thesis
    by (simp add: seg)
qed

lemma refs_of_Lit: "refs_of (map Lit s) = []"
  by (induction s) auto

lemma render_no_refs: "refs_of ss = [] \<Longrightarrow> render ps ss = unsegment ss"
  by (induction ss rule: refs_of.induct) auto

text \<open>A query without references is returned unchanged, whatever the parameters.\<close>

theorem substitute_no_refs:
  assumes "template_refs q = []"
  shows "substitute bucket q ps = Inr q"
  using assms by (simp add: substitute_Inr template_refs_def render_no_refs unsegment_segments)

theorem substitute_no_refs_witness:
  "template_refs ''SELECT * FROM countries'' = [] \<and>
   substitute ''b1'' ''SELECT * FROM countries'' [] = Inr ''SELECT * FROM countries''"
proof -
  have "template_refs ''SELECT * FROM countries'' = []" by code_simp
  then show ?thesis using substitute_no_refs by blast
qed

end
