(* ===== verification/Rule_Validator.thy ===== *)
theory Rule_Validator
  imports Rule_Template
begin

section \<open>Semantic validation of a rule set (\<^verbatim>\<open>pes-rules: validator.rs\<close>)\<close>

text \<open>
  The four checks of \<^verbatim>\<open>validate\<close>, run rule by rule in the iteration order of the rule map and
  stopping at the first failure, and the predicate \<open>rule_valid\<close> that they decide. The
  search for \<^verbatim>\<open>$N\<close> placeholders is stated against its pattern by \<open>placeholders_iff\<close>.
\<close>

definition bucket_id_char :: "char \<Rightarrow> bool" where
  "bucket_id_char c \<longleftrightarrow> ascii_lower c \<or> ascii_digit c \<or> c = CHR ''_'' \<or> c = CHR ''-''"

fun is_bucket_id :: "string \<Rightarrow> bool" where
  "is_bucket_id [] = False"
| "is_bucket_id (c # cs) = (ascii_lower c \<and> list_all bucket_id_char cs)"

function placeholders :: "string \<Rightarrow> string list" where
  "placeholders [] = []"
| "placeholders (c # cs) =
     (if c = CHR ''$'' \<and> takeWhile ascii_digit cs \<noteq> []
      then takeWhile ascii_digit cs # placeholders (dropWhile ascii_digit cs)
      else placeholders cs)"
  by pat_completeness auto
termination
  by (relation "measure length") (auto simp: le_imp_less_Suc length_dropWhile_le)

definition quoted :: "string \<Rightarrow> string" where
  "quoted s = CHR 39 # s @ [CHR 39]"

definition validate_bucket_id :: "string \<Rightarrow> parse_error + unit" where
  "validate_bucket_id b =
     (if is_bucket_id b then Inr ()
      else Inl (Validation b (''bucket id '' @ quoted b @ '' must match [a-z][a-z0-9_-]*'')))"

fun check_parameters :: "string \<Rightarrow> sync_rule \<Rightarrow> string list \<Rightarrow> parse_error + unit" where
  "check_parameters b rule [] = Inr ()"
| "check_parameters b rule (p # ps) =
     (if \<not> hm_contains (sr_parameter_queries rule) p
      then Inl (Validation b
             (''parameter '' @ quoted p @ '' has no corresponding entry in parameter_queries''))
      else check_parameters b rule ps)"

definition validate_parameters_have_queries :: "string \<Rightarrow> sync_rule \<Rightarrow> parse_error + unit" where
  "validate_parameters_have_queries b rule = check_parameters b rule (sr_parameters rule)"

definition only_dollar_one :: "string \<Rightarrow> bool" where
  "only_dollar_one q \<longleftrightarrow> placeholders q \<noteq> [] \<and> list_all (\<lambda>n. n = ''1'') (placeholders q)"

fun check_placeholders :: "string \<Rightarrow> (string \<times> string) list \<Rightarrow> parse_error + unit" where
  "check_placeholders b [] = Inr ()"
| "check_placeholders b ((p, q) # pqs) =
     (if \<not> only_dollar_one q
      then Inl (Validation b (''parameter_queries.'' @ p @
             '' must contain exactly the placeholder $1 and no other $N placeholders''))
      else check_placeholders b pqs)"

definition validate_parameter_query_placeholders :: "string \<Rightarrow> sync_rule \<Rightarrow> parse_error + unit" where
  "validate_parameter_query_placeholders b rule = check_placeholders b (sr_parameter_queries rule)"

fun check_query_refs :: "string \<Rightarrow> sync_rule \<Rightarrow> string \<Rightarrow> string list \<Rightarrow> parse_error + unit" where
  "check_query_refs b rule qn [] = Inr ()"
| "check_query_refs b rule qn (r # refs) =
     (if r \<notin> set (sr_parameters rule)
      then Inl (Validation b (''data.'' @ qn @ '' references undeclared parameter '' @
             quoted (''bucket_parameters.'' @ r)))
      else check_query_refs b rule qn refs)"

fun check_data_queries :: "string \<Rightarrow> sync_rule \<Rightarrow> (string \<times> string) list \<Rightarrow> parse_error + unit" where
  "check_data_queries b rule [] = Inr ()"
| "check_data_queries b rule ((qn, q) # qs) =
     and_then (check_query_refs b rule qn (template_refs q)) (\<lambda>_. check_data_queries b rule qs)"

definition validate_data_query_references :: "string \<Rightarrow> sync_rule \<Rightarrow> parse_error + unit" where
  "validate_data_query_references b rule = check_data_queries b rule (sr_data_queries rule)"

definition validate_rule :: "string \<Rightarrow> sync_rule \<Rightarrow> parse_error + unit" where
  "validate_rule b rule =
     and_then (validate_bucket_id b) (\<lambda>_.
     and_then (validate_parameters_have_queries b rule) (\<lambda>_.
     and_then (validate_parameter_query_placeholders b rule) (\<lambda>_.
     validate_data_query_references b rule)))"

fun validate_rules :: "(string \<times> sync_rule) list \<Rightarrow> parse_error + unit" where
  "validate_rules [] = Inr ()"
| "validate_rules ((b, rule) # rest) = and_then (validate_rule b rule) (\<lambda>_. validate_rules rest)"

definition validate :: "sync_rule_set \<Rightarrow> parse_error + unit" where
  "validate rs = validate_rules (rs_rules rs)"

subsection \<open>Placeholders against the pattern\<close>

lemma digit_dollar [simp]: "\<not> ascii_digit (CHR ''$'')"
  by (simp add: ascii_digit_def less_eq_char_def)

lemma takeWhile_digits:
  "list_all ascii_digit n \<Longrightarrow> v = [] \<or> \<not> ascii_digit (hd v) \<Longrightarrow>
     takeWhile ascii_digit (n @ v) = n \<and> dropWhile ascii_digit (n @ v) = v"
  by (induction n) (auto simp: takeWhile_eq_Nil_iff dropWhile_eq_self_iff)

lemma takeWhile_stop:
  "\<not> P x \<Longrightarrow> takeWhile P (u @ x # w) = takeWhile P u \<and> dropWhile P (u @ x # w) = dropWhile P u @ x # w"
  by (induction u) auto

definition placeholder_at :: "string \<Rightarrow> string \<Rightarrow> string \<Rightarrow> string \<Rightarrow> bool" where
  "placeholder_at q u n v \<longleftrightarrow>
     q = u @ ''$'' @ n @ v \<and> n \<noteq> [] \<and> list_all ascii_digit n \<and> (v = [] \<or> \<not> ascii_digit (hd v))"

lemma placeholder_at_takeWhile:
  "takeWhile ascii_digit cs \<noteq> [] \<Longrightarrow>
     placeholder_at (CHR ''$'' # cs) [] (takeWhile ascii_digit cs) (dropWhile ascii_digit cs)"
  using hd_dropWhile [of ascii_digit cs]
  by (auto simp: placeholder_at_def list_all_iff dest: set_takeWhileD)

lemma placeholders_sound: "n \<in> set (placeholders q) \<Longrightarrow> \<exists>u v. placeholder_at q u n v"
proof (induction q rule: placeholders.induct)
  case 1
  then show ?case by simp
next
  case (2 c cs)
  have shift: "\<exists>u v. placeholder_at (w @ s) u n v" if "\<exists>u v. placeholder_at s u n v" for w s
  proof -
    from that obtain u v where "placeholder_at s u n v" by blast
    then have "placeholder_at (w @ s) (w @ u) n v" by (simp add: placeholder_at_def)
    then show ?thesis by blast
  qed
  show ?case
  proof (cases "c = CHR ''$'' \<and> takeWhile ascii_digit cs \<noteq> []")
    case True
    show ?thesis
    proof (cases "n = takeWhile ascii_digit cs")
      case True
      with \<open>c = _ \<and> _\<close> placeholder_at_takeWhile show ?thesis by blast
    next
      case False
      then have "n \<in> set (placeholders (dropWhile ascii_digit cs))"
        using 2(3) True by auto
      then have "\<exists>u v. placeholder_at (dropWhile ascii_digit cs) u n v"
        using 2(1) True by blast
      then show ?thesis
        using shift [of "dropWhile ascii_digit cs" "c # takeWhile ascii_digit cs"] by simp
    qed
  next
    case False
    then have "\<exists>u v. placeholder_at cs u n v" using 2 by auto
    then show ?thesis using shift [of cs "[c]"] by simp
  qed
qed

lemma placeholders_complete: "placeholder_at q u n v \<Longrightarrow> n \<in> set (placeholders q)"
proof (induction q arbitrary: u rule: placeholders.induct)
  case 1
  then show ?case by (simp add: placeholder_at_def)
next
  case (2 c cs)
  show ?case
  proof (cases u)
    case Nil
    with "2.prems" show ?thesis
      using takeWhile_digits [of n v] by (auto simp: placeholder_at_def)
  next
    case (Cons d u')
    then have cs: "placeholder_at cs u' n v" and c: "d = c"
      using "2.prems" by (auto simp: placeholder_at_def)
    show ?thesis
    proof (cases "c = CHR ''$'' \<and> takeWhile ascii_digit cs \<noteq> []")
      case False
      with 2 cs show ?thesis by auto
    next
      case True
      let ?t = "takeWhile ascii_digit u'"
      have "takeWhile ascii_digit cs = ?t \<and>
          dropWhile ascii_digit cs = dropWhile ascii_digit u' @ ''$'' @ n @ v"
        using cs takeWhile_stop [of ascii_digit "CHR ''$''" u' "n @ v"]
        by (simp add: placeholder_at_def)
      then have "placeholder_at (dropWhile ascii_digit cs) (dropWhile ascii_digit u') n v"
        using cs by (simp add: placeholder_at_def)
      then show ?thesis using "2.IH"(1) True by auto
    qed
  qed
qed

lemma placeholders_iff: "n \<in> set (placeholders q) \<longleftrightarrow> (\<exists>u v. placeholder_at q u n v)"
  using placeholders_sound placeholders_complete by blast

subsection \<open>What validation decides\<close>

definition rule_valid :: "string \<Rightarrow> sync_rule \<Rightarrow> bool" where
  "rule_valid b r \<longleftrightarrow>
     is_bucket_id b \<and>
     (\<forall>p \<in> set (sr_parameters r). hm_contains (sr_parameter_queries r) p) \<and>
     (\<forall>(p, q) \<in> set (sr_parameter_queries r). only_dollar_one q) \<and>
     (\<forall>(n, q) \<in> set (sr_data_queries r). set (template_refs q) \<subseteq> set (sr_parameters r))"

lemma check_parameters_Inr [simp]:
  "check_parameters b r ps = Inr () \<longleftrightarrow> (\<forall>p \<in> set ps. hm_contains (sr_parameter_queries r) p)"
  by (induction ps) auto

lemma check_placeholders_Inr [simp]:
  "check_placeholders b pqs = Inr () \<longleftrightarrow> (\<forall>(p, q) \<in> set pqs. only_dollar_one q)"
  by (induction b pqs rule: check_placeholders.induct) auto

lemma check_query_refs_Inr [simp]:
  "check_query_refs b r qn refs = Inr () \<longleftrightarrow> set refs \<subseteq> set (sr_parameters r)"
  by (induction refs) auto

lemma check_data_queries_Inr [simp]:
  "check_data_queries b r qs = Inr () \<longleftrightarrow>
     (\<forall>(n, q) \<in> set qs. set (template_refs q) \<subseteq> set (sr_parameters r))"
  by (induction b r qs rule: check_data_queries.induct) (auto simp: result_simps)

lemma check_parameters_error: "check_parameters b r ps = Inl e \<Longrightarrow> \<exists>m. e = Validation b m"
  by (induction ps) (auto split: if_splits)

lemma check_placeholders_error: "check_placeholders b pqs = Inl e \<Longrightarrow> \<exists>m. e = Validation b m"
  by (induction b pqs rule: check_placeholders.induct) (auto split: if_splits)

lemma check_query_refs_error: "check_query_refs b r qn refs = Inl e \<Longrightarrow> \<exists>m. e = Validation b m"
  by (induction refs) (auto split: if_splits)

lemma check_data_queries_error: "check_data_queries b r qs = Inl e \<Longrightarrow> \<exists>m. e = Validation b m"
  by (induction b r qs rule: check_data_queries.induct)
     (auto simp: result_simps dest: check_query_refs_error)

lemmas validator_defs =
  validate_bucket_id_def validate_parameters_have_queries_def
  validate_parameter_query_placeholders_def validate_data_query_references_def

lemma validate_rule_Inr: "validate_rule b r = Inr () \<longleftrightarrow> rule_valid b r"
  by (auto simp: validate_rule_def rule_valid_def validator_defs result_simps)

lemma validate_rule_error: "validate_rule b r = Inl e \<Longrightarrow> \<exists>m. e = Validation b m"
  by (auto simp: validate_rule_def validator_defs result_simps split: if_splits
      dest: check_parameters_error check_placeholders_error check_data_queries_error)

lemma validate_rules_cases:
  "case validate_rules rules of
     Inr _ \<Rightarrow> list_all (\<lambda>(b, r). rule_valid b r) rules
   | Inl e \<Rightarrow> \<exists>b r m. (b, r) \<in> set rules \<and> \<not> rule_valid b r \<and> e = Validation b m"
proof (induction rules rule: validate_rules.induct)
  case 1
  show ?case by simp
next
  case (2 b r rest)
  show ?case
  proof (cases "validate_rule b r")
    case (Inl e)
    then have "\<not> rule_valid b r" by (auto simp: validate_rule_Inr [symmetric])
    with Inl validate_rule_error show ?thesis by fastforce
  next
    case (Inr u)
    then have "rule_valid b r" by (simp add: validate_rule_Inr [symmetric])
    with Inr 2 show ?thesis by (auto split: sum.splits)
  qed
qed

lemma validate_Inr: "validate rs = Inr () \<longleftrightarrow> list_all (\<lambda>(b, r). rule_valid b r) (rs_rules rs)"
  using validate_rules_cases [of "rs_rules rs"]
  by (auto simp: validate_def list_all_iff split: sum.splits)

lemma validated_rule:
  "validate rs = Inr () \<Longrightarrow> (k, r) \<in> set (rs_rules rs) \<Longrightarrow> rule_valid k r"
  by (auto simp: validate_Inr list_all_iff)


subsection \<open>What a validated id looks like\<close>

lemma bucket_id_no_colon: "is_bucket_id b \<Longrightarrow> CHR '':'' \<notin> set b"
  by (cases b)
     (auto simp: list_all_iff bucket_id_char_def ascii_lower_def ascii_digit_def less_eq_char_def)

end
