(* ===== verification/Postgres.thy ===== *)
theory Postgres
  imports Core_Types
begin

section \<open>The database driver\<close>

text \<open>
  Postgres behind \<^verbatim>\<open>sqlx\<close> is not part of the program: it is the parameter \<open>sqlx\<close>, whose calls
  take the statement text and the bound values apart, as the driver does, and may fail.
  Each call may also change the database state, so that a theorem about two calls in a row
  holds whatever other sessions do in between. A row is opaque; the decoders are the
  \<^verbatim>\<open>try_get\<close> calls of the source. \<open>traced\<close> is the same driver with a record of the calls
  made, used to state which statements the program can send.
\<close>

datatype pg_value =
    PText string
  | PTextOpt "string option"
  | PBigint int
  | PJson json
  | PBytes bytes

type_synonym pg_call = "string \<times> pg_value list"

record ('pg, 'row) sqlx =
  fetch_optional :: "string \<Rightarrow> pg_value list \<Rightarrow> 'pg \<Rightarrow> (sqlx_error + 'row option) \<times> 'pg"
  fetch_all :: "string \<Rightarrow> pg_value list \<Rightarrow> 'pg \<Rightarrow> (sqlx_error + 'row list) \<times> 'pg"
  execute :: "string \<Rightarrow> pg_value list \<Rightarrow> 'pg \<Rightarrow> (sqlx_error + unit) \<times> 'pg"
  column_string :: "nat \<Rightarrow> 'row \<Rightarrow> sqlx_error + string"
  column_i64 :: "nat \<Rightarrow> 'row \<Rightarrow> sqlx_error + int"
  column_i32 :: "nat \<Rightarrow> 'row \<Rightarrow> sqlx_error + int"
  column_bytes :: "nat \<Rightarrow> 'row \<Rightarrow> sqlx_error + bytes"
  named_string :: "string \<Rightarrow> 'row \<Rightarrow> sqlx_error + string"
  named_json :: "string \<Rightarrow> 'row \<Rightarrow> sqlx_error + json"

definition traced_call ::
  "(string \<Rightarrow> pg_value list \<Rightarrow> 'pg \<Rightarrow> 'r \<times> 'pg) \<Rightarrow>
   string \<Rightarrow> pg_value list \<Rightarrow> 'pg \<times> pg_call list \<Rightarrow> 'r \<times> 'pg \<times> pg_call list" where
  "traced_call f sql binds st =
     (case f sql binds (fst st) of (r, pg') \<Rightarrow> (r, pg', snd st @ [(sql, binds)]))"

definition traced :: "('pg, 'row) sqlx \<Rightarrow> ('pg \<times> pg_call list, 'row) sqlx" where
  "traced S =
     \<lparr>fetch_optional = traced_call (fetch_optional S), fetch_all = traced_call (fetch_all S),
      execute = traced_call (execute S), column_string = column_string S,
      column_i64 = column_i64 S, column_i32 = column_i32 S, column_bytes = column_bytes S,
      named_string = named_string S, named_json = named_json S\<rparr>"

lemma traced_simps [simp]:
  "fetch_optional (traced S) = traced_call (fetch_optional S)"
  "fetch_all (traced S) = traced_call (fetch_all S)"
  "execute (traced S) = traced_call (execute S)"
  "column_string (traced S) = column_string S"
  "column_i64 (traced S) = column_i64 S"
  "column_i32 (traced S) = column_i32 S"
  "column_bytes (traced S) = column_bytes S"
  "named_string (traced S) = named_string S"
  "named_json (traced S) = named_json S"
  by (simp_all add: traced_def)

lemma traced_call_eq [simp]:
  "traced_call f sql binds st = (r, st') \<longleftrightarrow>
     (\<exists>pg'. f sql binds (fst st) = (r, pg') \<and> st' = (pg', snd st @ [(sql, binds)]))"
  by (auto simp: traced_call_def split: prod.splits)

subsection \<open>A scripted driver\<close>

text \<open>Answers fixed per call, for evaluating the model on concrete inputs.\<close>

type_synonym scripted_pg = "(pg_call \<times> json list) list"

definition mismatched :: sqlx_error where
  "mismatched = SqlxError ''mismatched types''"

definition scripted_rows :: "string \<Rightarrow> pg_value list \<Rightarrow> scripted_pg \<Rightarrow> json list" where
  "scripted_rows sql binds pg = (case map_of pg (sql, binds) of None \<Rightarrow> [] | Some rows \<Rightarrow> rows)"

definition scripted_sqlx :: "(scripted_pg, json) sqlx" where
  "scripted_sqlx =
     \<lparr>fetch_optional = (\<lambda>sql binds pg.
        (Inr (case scripted_rows sql binds pg of [] \<Rightarrow> None | row # rows \<Rightarrow> Some row), pg)),
      fetch_all = (\<lambda>sql binds pg. (Inr (scripted_rows sql binds pg), pg)),
      execute = (\<lambda>sql binds pg. (Inr (), ((sql, binds), []) # pg)),
      column_string = (\<lambda>_ row. case row of JString s \<Rightarrow> Inr s | _ \<Rightarrow> Inl mismatched),
      column_i64 = (\<lambda>_ row. case row of JNumber (IntNum i) \<Rightarrow> Inr i | _ \<Rightarrow> Inl mismatched),
      column_i32 = (\<lambda>_ row. case row of JNumber (IntNum i) \<Rightarrow> Inr i | _ \<Rightarrow> Inl mismatched),
      column_bytes = (\<lambda>_ row. case row of JString s \<Rightarrow> Inr (as_bytes s) | _ \<Rightarrow> Inl mismatched),
      named_string = (\<lambda>_ row. case row of JString s \<Rightarrow> Inr s | _ \<Rightarrow> Inl mismatched),
      named_json = (\<lambda>_ row. Inr row)\<rparr>"

end
