(* ===== verification/Op_Log_Key.thy ===== *)
theory Op_Log_Key
  imports Core_Types
begin

section \<open>Composite keys of the op table (\<^verbatim>\<open>pes-oplog: key.rs\<close>)\<close>

text \<open>
  A key is the 2-byte big-endian length of the bucket id, the id, and the 8-byte
  big-endian LSN. The length is cast to \<^verbatim>\<open>u16\<close> as the source does, so it wraps above
  \<open>MAX_BUCKET_ID_LEN\<close> (the \<^verbatim>\<open>debug_assert!\<close> of debug builds is the hypothesis
  \<open>bucket_id_fits\<close> of the lemmas). The lemmas show that a byte-range scan sees one bucket's
  keys only, in ascending LSN order.
\<close>

definition LEN_PREFIX_BYTES :: nat where
  "LEN_PREFIX_BYTES = 2"

definition LSN_BYTES :: nat where
  "LSN_BYTES = 8"

definition MAX_BUCKET_ID_LEN :: nat where
  "MAX_BUCKET_ID_LEN = 65535"

definition U64_MAX :: u64 where
  "U64_MAX = - 1"

lemma unat_U64_MAX: "unat U64_MAX = 2 ^ 64 - 1"
  by (simp add: U64_MAX_def unsigned_minus_1_eq_mask mask_eq_exp_minus_1)

lemma below_U64_MAX: "unat w < n \<Longrightarrow> n < 2 ^ 64 \<Longrightarrow> w < U64_MAX"
  by (simp add: word_less_nat_alt unat_U64_MAX)

lemma word_Suc_le: "l < U64_MAX \<Longrightarrow> l + 1 \<le> k \<longleftrightarrow> l < (k :: u64)"
proof -
  assume "l < U64_MAX"
  then have "unat l < unat U64_MAX" by (simp add: word_less_nat_alt)
  then have "unat (l + 1) = Suc (unat l)"
    by (intro unat_next) (simp_all add: unat_U64_MAX)
  then show ?thesis by (simp add: word_le_nat_alt word_less_nat_alt Suc_le_eq)
qed

definition make_key :: "string \<Rightarrow> u64 \<Rightarrow> bytes" where
  "make_key bucket lsn =
     (let id_bytes = as_bytes bucket in
      u16_to_be_bytes (word_of_nat (length id_bytes)) @ id_bytes @ u64_to_be_bytes lsn)"

definition make_range_start :: "string \<Rightarrow> u64 \<Rightarrow> bytes" where
  "make_range_start bucket from_lsn = make_key bucket from_lsn"

definition make_bucket_range_end :: "string \<Rightarrow> bytes" where
  "make_bucket_range_end bucket = make_key bucket U64_MAX"

definition lsn_from_key :: "bytes \<Rightarrow> u64 option" where
  "lsn_from_key key =
     (if length key < LSN_BYTES then None
      else Some (u64_from_be_bytes (drop (length key - LSN_BYTES) key)))"

definition bucket_id_fits :: "string \<Rightarrow> bool" where
  "bucket_id_fits b \<longleftrightarrow> length b \<le> MAX_BUCKET_ID_LEN"

subsection \<open>Reading a key back\<close>

lemma lsn_from_key_make_key [simp]: "lsn_from_key (make_key b l) = Some l"
  by (simp add: lsn_from_key_def make_key_def LSN_BYTES_def Let_def)

text \<open>The LSN read back from a composite key is the LSN the key was built with, for every
  bucket id.\<close>

theorem key_lsn_roundtrip: "lsn_from_key (make_key bucket lsn) = Some lsn"
  by simp

lemma length_u16_inject:
  assumes "bucket_id_fits b" "bucket_id_fits b'"
  shows "(word_of_nat (length b) :: u16) = word_of_nat (length b') \<longleftrightarrow> length b = length b'"
  using assms
  by (simp add: bucket_id_fits_def MAX_BUCKET_ID_LEN_def word_unat_eq_iff unat_of_nat)

lemma make_key_inject:
  assumes "bucket_id_fits b" "bucket_id_fits b'"
  shows "make_key b l = make_key b' l' \<longleftrightarrow> b = b' \<and> l = l'"
proof
  assume eq: "make_key b l = make_key b' l'"
  then have "length b = length b'"
    using length_u16_inject [OF assms] by (simp add: make_key_def Let_def)
  with eq show "b = b' \<and> l = l'"
    by (simp add: make_key_def Let_def)
qed simp

subsection \<open>The order of keys\<close>

lemma make_key_less_same [simp]: "make_key b l < make_key b l' \<longleftrightarrow> l < l'"
  by (simp add: make_key_def Let_def)

lemma between_same_prefix:
  assumes "length p = length q"
    and "p @ a \<le> q @ s" and "q @ s < (p @ c :: 'a :: linorder list)"
  shows "q = p"
proof (rule ccontr)
  assume "q \<noteq> p"
  then have "p < q"
    using assms(1,2) append_less_append_equal_length [of q p s a] by (auto simp: not_less [symmetric])
  moreover have "q < p"
    using assms(1,3) \<open>q \<noteq> p\<close> append_less_append_equal_length [of q p s c] by auto
  ultimately show False by simp
qed

lemma key_in_range_same_bucket:
  assumes fits: "bucket_id_fits b" "bucket_id_fits b'"
    and lo: "make_range_start b from_lsn \<le> make_key b' l"
    and hi: "make_key b' l < make_bucket_range_end b"
  shows "b' = b"
proof -
  let ?len = "\<lambda>b. u16_to_be_bytes (word_of_nat (length b))"
  have "?len b' = ?len b"
    using lo hi by (intro between_same_prefix [of "?len b" "?len b'"])
      (simp_all add: make_key_def make_range_start_def make_bucket_range_end_def Let_def)
  then have len: "length b' = length b"
    using length_u16_inject [OF fits(2,1)] by simp
  have "?len b' @ as_bytes b' = ?len b @ as_bytes b"
    using lo hi len
    by (intro between_same_prefix [of "?len b @ as_bytes b" "?len b' @ as_bytes b'"])
      (simp_all add: make_key_def make_range_start_def make_bucket_range_end_def Let_def)
  then show ?thesis by (simp add: len)
qed

lemma key_in_range_iff:
  assumes "bucket_id_fits b" "bucket_id_fits b'"
  shows "make_range_start b from_lsn \<le> make_key b' l \<and> make_key b' l < make_bucket_range_end b \<longleftrightarrow>
    b' = b \<and> from_lsn \<le> l \<and> l < U64_MAX"
proof (cases "b' = b")
  case True
  then show ?thesis
    by (simp add: make_range_start_def make_bucket_range_end_def not_less [symmetric])
next
  case False
  with key_in_range_same_bucket [OF assms] show ?thesis by blast
qed

text \<open>C6: a byte-range scan for one bucket isolates it: a stored key lies between the range start
  and the range end of bucket \<open>b\<close> exactly when it is a key of \<open>b\<close> with an LSN from the requested one
  up to, and excluding, \<^verbatim>\<open>u64::MAX\<close>. Keys of other buckets never fall into the range, whatever
  their ids and lengths (up to the 65535 bytes the length prefix can hold).\<close>

theorem range_scan_isolates_bucket:
  assumes "bucket_id_fits b" "bucket_id_fits b'"
  shows "make_range_start b from_lsn \<le> make_key b' l \<and> make_key b' l < make_bucket_range_end b \<longleftrightarrow>
    b' = b \<and> from_lsn \<le> l \<and> l < U64_MAX"
  using assms by (rule key_in_range_iff)

theorem range_scan_isolates_bucket_witness:
  "bucket_id_fits ''user_a'' \<and> bucket_id_fits ''user_ab'' \<and>
   \<not> (make_range_start ''user_a'' 0 \<le> make_key ''user_ab'' 7 \<and>
       make_key ''user_ab'' 7 < make_bucket_range_end ''user_a'')"
proof -
  have fits: "bucket_id_fits ''user_a''" "bucket_id_fits ''user_ab''"
    by (simp_all add: bucket_id_fits_def MAX_BUCKET_ID_LEN_def)
  then show ?thesis
    using range_scan_isolates_bucket [OF fits, of 0 7] by simp
qed

text \<open>Within a bucket the byte order of keys is the order of their LSNs.\<close>

theorem keys_sorted_by_lsn: "make_key bucket l < make_key bucket l' \<longleftrightarrow> l < l'"
  by (rule make_key_less_same)

end
