(* ===== verification/Bucket_Assigner.thy ===== *)
theory Bucket_Assigner
  imports Rule_Validator Postgres Op_Log_Key
begin

section \<open>Bucket assignment (\<^verbatim>\<open>pes-rules: assigner.rs\<close>)\<close>

text \<open>
  \<^verbatim>\<open>BucketAssigner\<close>: the rule set, the cache and its TTL are the state \<open>assigner\<close>; the pool is
  the driver parameter with its database state. Clocks are arguments: the system time the
  expiry check reads, and the monotonic instants of the cache lookup and of the insertion.
  The parameter queries run with the token's subject as their only bound value; the ids of
  the resolved buckets are proved to separate rules and parameter values.
\<close>

record cache_key =
  ck_sub :: string
  ck_rule_set_version :: string

record assigner =
  as_rule_set :: sync_rule_set
  as_cache :: "(cache_key, bucket_assignment list \<times> instant) hmap"
  as_cache_ttl :: duration

definition new_assigner :: "sync_rule_set \<Rightarrow> duration \<Rightarrow> parse_error + assigner" where
  "new_assigner rule_set cache_ttl =
     and_then (validate rule_set) (\<lambda>_.
     Inr \<lparr>as_rule_set = rule_set, as_cache = [], as_cache_ttl = cache_ttl\<rparr>)"

definition check_not_expired :: "nat option \<Rightarrow> token_claims \<Rightarrow> sync_error + unit" where
  "check_not_expired clock claims =
     (case clock of
        None \<Rightarrow> Inl (AuthError ''system clock error: second time provided was later than self'')
      | Some s \<Rightarrow>
          (let now = (word_of_nat s :: u64) in
           if tc_exp claims \<le> now
           then Inl (AuthError (''JWT expired: exp='' @ dec (unat (tc_exp claims)) @ '', now='' @ dec (unat now)))
           else Inr ()))"

definition cache_lookup :: "assigner \<Rightarrow> instant \<Rightarrow> cache_key \<Rightarrow> bucket_assignment list option" where
  "cache_lookup a now key =
     (case hm_get (as_cache a) key of
        None \<Rightarrow> None
      | Some (assignments, inserted_at) \<Rightarrow>
          if elapsed now inserted_at < as_cache_ttl a then Some assignments else None)"

definition sweep_expired_entries :: "assigner \<Rightarrow> instant \<Rightarrow> nat \<times> assigner" where
  "sweep_expired_entries a now =
     (let before = length (as_cache a);
          kept = filter (\<lambda>(_, _, inserted_at). elapsed now inserted_at < as_cache_ttl a) (as_cache a) in
      (before - length kept, a\<lparr>as_cache := kept\<rparr>))"

text \<open>The background sweeper, given the instants of its ticks; the first tick is skipped.\<close>

definition cache_sweeper :: "assigner \<Rightarrow> instant list \<Rightarrow> assigner" where
  "cache_sweeper a ticks = foldl (\<lambda>a now. snd (sweep_expired_entries a now)) a (tl ticks)"

subsection \<open>Resolving one rule\<close>

definition column_text :: "('pg, 'row) sqlx \<Rightarrow> 'row \<Rightarrow> sqlx_error + string" where
  "column_text S row =
     (case column_string S 0 row of
        Inr v \<Rightarrow> Inr v
      | Inl _ \<Rightarrow> (case column_i64 S 0 row of Inl e \<Rightarrow> Inl e | Inr i \<Rightarrow> Inr (dec_int i)))"

definition missing_query_message :: "string \<Rightarrow> string \<Rightarrow> string" where
  "missing_query_message rule param =
     ''rule '' @ quoted rule @ '' declares parameter '' @ quoted param @ '' with no parameter_queries entry''"

definition unsupported_column_message :: "string \<Rightarrow> string \<Rightarrow> sqlx_error \<Rightarrow> string" where
  "unsupported_column_message rule param e =
     ''rule '' @ quoted rule @ '' parameter '' @ quoted param @
     '' query returned an unsupported column type: '' @ sqlx_text e"

definition unsafe_value_message :: "string \<Rightarrow> string \<Rightarrow> string" where
  "unsafe_value_message rule param =
     ''rule '' @ quoted rule @ '' parameter '' @ quoted param @
     '' resolved to a value that failed the safe-value allowlist''"

fun resolve_parameters ::
  "('pg, 'row) sqlx \<Rightarrow> sync_rule \<Rightarrow> token_claims \<Rightarrow> string list \<Rightarrow>
   (string, string) hmap \<Rightarrow> (string, json) hmap \<Rightarrow> 'pg \<Rightarrow>
   (sync_error + ((string, string) hmap \<times> (string, json) hmap) option) \<times> 'pg" where
  "resolve_parameters S rule claims [] resolved rjson pg = (Inr (Some (resolved, rjson)), pg)"
| "resolve_parameters S rule claims (param # ps) resolved rjson pg =
     (case hm_get (sr_parameter_queries rule) param of
        None \<Rightarrow> (Inl (BucketAssignmentFailed (missing_query_message (sr_id rule) param)), pg)
      | Some query \<Rightarrow>
          (case fetch_optional S query [PText (tc_sub claims)] pg of
             (Inl e, pg') \<Rightarrow> (Inl (Database e), pg')
           | (Inr None, pg') \<Rightarrow> (Inr None, pg')
           | (Inr (Some row), pg') \<Rightarrow>
               (case column_text S row of
                  Inl e \<Rightarrow>
                    (Inl (BucketAssignmentFailed (unsupported_column_message (sr_id rule) param e)), pg')
                | Inr v \<Rightarrow>
                    if \<not> validate_safe_value v
                    then (Inl (BucketAssignmentFailed (unsafe_value_message (sr_id rule) param)), pg')
                    else resolve_parameters S rule claims ps
                           (hm_insert param v resolved) (hm_insert param (JString v) rjson) pg')))"

fun render_data_queries ::
  "string \<Rightarrow> (string, string) hmap \<Rightarrow> (string \<times> string) list \<Rightarrow> (string, string) hmap \<Rightarrow>
   sync_error + (string, string) hmap" where
  "render_data_queries rule resolved [] acc = Inr acc"
| "render_data_queries rule resolved ((name, template) # qs) acc =
     and_then (map_err (\<lambda>e. BucketAssignmentFailed (parse_error_display e)) (substitute rule template resolved))
       (\<lambda>rendered. render_data_queries rule resolved qs (hm_insert name rendered acc))"

definition parameter_key :: "json_text \<Rightarrow> (string, json) hmap \<Rightarrow> string" where
  "parameter_key J resolved =
     join_with '','' (map (\<lambda>(name, v). name @ ''='' @ value_text J v) (sort_key fst resolved))"

definition resolve_rule ::
  "json_text \<Rightarrow> ('pg, 'row) sqlx \<Rightarrow> token_claims \<Rightarrow> sync_rule \<Rightarrow> 'pg \<Rightarrow>
   (sync_error + bucket_assignment option) \<times> 'pg" where
  "resolve_rule J S claims rule pg =
     (case resolve_parameters S rule claims (sr_parameters rule) [] [] pg of
        (Inl e, pg') \<Rightarrow> (Inl e, pg')
      | (Inr None, pg') \<Rightarrow> (Inr None, pg')
      | (Inr (Some (resolved, rjson)), pg') \<Rightarrow>
          (case render_data_queries (sr_id rule) resolved (sr_data_queries rule) [] of
             Inl e \<Rightarrow> (Inl e, pg')
           | Inr data_queries \<Rightarrow>
               (Inr (Some \<lparr>ba_bucket_id = BucketId (sr_id rule @ '':'' @ parameter_key J rjson),
                           ba_rule_id = sr_id rule,
                           ba_parameters = rjson,
                           ba_data_queries = data_queries\<rparr>), pg')))"

fun resolve_rules ::
  "json_text \<Rightarrow> ('pg, 'row) sqlx \<Rightarrow> token_claims \<Rightarrow> sync_rule list \<Rightarrow> bucket_assignment list \<Rightarrow> 'pg \<Rightarrow>
   (sync_error + bucket_assignment list) \<times> 'pg" where
  "resolve_rules J S claims [] acc pg = (Inr acc, pg)"
| "resolve_rules J S claims (rule # rules) acc pg =
     (case resolve_rule J S claims rule pg of
        (Inl e, pg') \<Rightarrow> (Inl e, pg')
      | (Inr None, pg') \<Rightarrow> resolve_rules J S claims rules acc pg'
      | (Inr (Some asg), pg') \<Rightarrow> resolve_rules J S claims rules (acc @ [asg]) pg')"

text \<open>\<open>t_lookup\<close> and \<open>t_insert\<close> are the instants at which the cache is read and written.\<close>

definition assign ::
  "json_text \<Rightarrow> ('pg, 'row) sqlx \<Rightarrow> nat option \<Rightarrow> instant \<Rightarrow> instant \<Rightarrow> token_claims \<Rightarrow> assigner \<Rightarrow> 'pg \<Rightarrow>
   (sync_error + bucket_assignment list) \<times> assigner \<times> 'pg" where
  "assign J S clock t_lookup t_insert claims a pg =
     (case check_not_expired clock claims of
        Inl e \<Rightarrow> (Inl e, a, pg)
      | Inr _ \<Rightarrow>
          (let key = \<lparr>ck_sub = tc_sub claims, ck_rule_set_version = rs_version (as_rule_set a)\<rparr> in
           case cache_lookup a t_lookup key of
             Some cached \<Rightarrow> (Inr cached, a, pg)
           | None \<Rightarrow>
               (case resolve_rules J S claims (hm_values (rs_rules (as_rule_set a))) [] pg of
                  (Inl e, pg') \<Rightarrow> (Inl e, a, pg')
                | (Inr assignments, pg') \<Rightarrow>
                    (Inr assignments,
                     a\<lparr>as_cache := hm_insert key (assignments, t_insert) (as_cache a)\<rparr>, pg'))))"

subsection \<open>Routing by cached assignments\<close>

text \<open>Equality of JSON values: numbers by value, so the two floating zeros are equal.\<close>

definition f64_zero :: "u64 \<Rightarrow> bool" where
  "f64_zero w \<longleftrightarrow> take_bit 63 w = 0"

fun number_eq :: "json_number \<Rightarrow> json_number \<Rightarrow> bool" where
  "number_eq (IntNum i) (IntNum j) \<longleftrightarrow> i = j"
| "number_eq (FloatNum v) (FloatNum w) \<longleftrightarrow> v = w \<or> f64_zero v \<and> f64_zero w"
| "number_eq _ _ \<longleftrightarrow> False"

fun json_eq :: "json \<Rightarrow> json \<Rightarrow> bool" where
  "json_eq JNull JNull \<longleftrightarrow> True"
| "json_eq (JBool a) (JBool b) \<longleftrightarrow> a = b"
| "json_eq (JNumber m) (JNumber n) \<longleftrightarrow> number_eq m n"
| "json_eq (JString s) (JString t) \<longleftrightarrow> s = t"
| "json_eq (JArray xs) (JArray ys) \<longleftrightarrow> list_all2 json_eq xs ys"
| "json_eq (JObject xs) (JObject ys) \<longleftrightarrow> list_all2 (\<lambda>(k, x) (l, y). k = l \<and> json_eq x y) xs ys"
| "json_eq _ _ \<longleftrightarrow> False"

fun json_scalars_equal :: "json_text \<Rightarrow> json \<Rightarrow> json \<Rightarrow> bool" where
  "json_scalars_equal J a b \<longleftrightarrow>
     json_eq a b \<or>
     (case (a, b) of
        (JString s, JNumber n) \<Rightarrow> s = number_text J n
      | (JNumber n, JString s) \<Rightarrow> s = number_text J n
      | _ \<Rightarrow> False)"

definition row_matches_assignment :: "json_text \<Rightarrow> json \<Rightarrow> bucket_assignment \<Rightarrow> bool" where
  "row_matches_assignment J row asg =
     (case as_object row of
        None \<Rightarrow> False
      | Some members \<Rightarrow>
          list_ex (\<lambda>param. list_ex (\<lambda>column. json_scalars_equal J param column) (map snd members))
            (hm_values (ba_parameters asg)))"

definition find_affected_buckets ::
  "json_text \<Rightarrow> assigner \<Rightarrow> instant \<Rightarrow> string \<Rightarrow> json \<Rightarrow> bucket_id list" where
  "find_affected_buckets J a now entity_type row =
     concat (map (\<lambda>(_, assignments, inserted_at).
         if elapsed now inserted_at \<ge> as_cache_ttl a then []
         else map ba_bucket_id
           (filter (\<lambda>asg. hm_contains (ba_data_queries asg) entity_type \<and> row_matches_assignment J row asg)
              assignments))
       (as_cache a))"

subsection \<open>What resolution computes\<close>

abbreviation json_strings :: "(string, string) hmap \<Rightarrow> (string, json) hmap" where
  "json_strings m \<equiv> map (\<lambda>(k, v). (k, JString v)) m"

definition add_key :: "string list \<Rightarrow> string \<Rightarrow> string list" where
  "add_key ks p = (if p \<in> set ks then ks else ks @ [p])"

definition resolved_ok :: "(string, string) hmap \<Rightarrow> bool" where
  "resolved_ok m \<longleftrightarrow> hm_wf m \<and> list_all validate_safe_value (hm_values m)"

lemma hm_insert_json_strings: "hm_insert k (JString v) (json_strings m) = json_strings (hm_insert k v m)"
  unfolding hm_insert_def by (induction m) auto

lemma hm_keys_hm_insert: "hm_keys (hm_insert k v m) = add_key (hm_keys m) k"
  by (simp add: hm_insert_def update_keys add_key_def)

lemma hm_insert_values: "set (hm_values (hm_insert k v m)) \<subseteq> insert v (set (hm_values m))"
  unfolding hm_insert_def by (induction m) auto

lemma resolved_ok_insert:
  "resolved_ok m \<Longrightarrow> validate_safe_value v \<Longrightarrow> resolved_ok (hm_insert k v m)"
  using hm_insert_values [of k v m]
  by (auto simp: resolved_ok_def list_all_iff simp del: set_map dest: subsetD)

lemma resolve_parameters_Some:
  assumes "resolve_parameters S rule claims ps m (json_strings m) pg = (Inr (Some (m', j')), pg')"
    and "resolved_ok m"
  shows "j' = json_strings m' \<and> resolved_ok m' \<and> hm_keys m' = foldl add_key (hm_keys m) ps"
  using assms
proof (induction ps arbitrary: m pg)
  case Nil
  then show ?case by auto
next
  case (Cons p ps)
  then obtain v pg'' where
    "resolve_parameters S rule claims ps (hm_insert p v m) (json_strings (hm_insert p v m)) pg'' =
      (Inr (Some (m', j')), pg')" and "validate_safe_value v"
    by (auto simp: hm_insert_json_strings split: option.splits prod.splits sum.splits if_splits)
  from Cons.IH [OF this(1)] this(2) Cons.prems(2) show ?case
    by (simp add: resolved_ok_insert hm_keys_hm_insert)
qed

lemma set_foldl_add_key: "set (foldl add_key ks ps) = set ks \<union> set ps"
  by (induction ps arbitrary: ks) (auto simp: add_key_def)

lemma resolve_rule_Some:
  assumes "resolve_rule J S claims rule pg = (Inr (Some asg), pg')"
  obtains m where "resolved_ok m" and "hm_keys m = foldl add_key [] (sr_parameters rule)"
    and "ba_parameters asg = json_strings m" and "ba_rule_id asg = sr_id rule"
    and "ba_bucket_id asg = BucketId (sr_id rule @ '':'' @ parameter_key J (json_strings m))"
    and "render_data_queries (sr_id rule) m (sr_data_queries rule) [] = Inr (ba_data_queries asg)"
proof -
  from assms obtain m j pg'' dq where
    res: "resolve_parameters S rule claims (sr_parameters rule) [] [] pg = (Inr (Some (m, j)), pg'')"
    and dq: "render_data_queries (sr_id rule) m (sr_data_queries rule) [] = Inr dq"
    and asg: "asg = \<lparr>ba_bucket_id = BucketId (sr_id rule @ '':'' @ parameter_key J j),
      ba_rule_id = sr_id rule, ba_parameters = j, ba_data_queries = dq\<rparr>"
    by (auto simp: resolve_rule_def split: prod.splits sum.splits option.splits)
  have "resolved_ok []" by (simp add: resolved_ok_def)
  with resolve_parameters_Some [of S rule claims "sr_parameters rule" "[]" pg m j pg''] res
  have "j = json_strings m \<and> resolved_ok m \<and> hm_keys m = foldl add_key [] (sr_parameters rule)"
    by simp
  with that [of m] dq asg show thesis by simp
qed

subsection \<open>Bucket ids separate rules and parameter values\<close>

lemma safe_value_plain: "validate_safe_value v \<Longrightarrow> list_all json_plain_char v"
  by (auto simp: validate_safe_value_def list_all_iff safe_char_def ascii_lower_def ascii_upper_def
      ascii_digit_def json_plain_char_def less_eq_char_def)

lemma plain_no_quote: "list_all json_plain_char v \<Longrightarrow> CHR 34 \<notin> set v"
  by (auto simp: list_all_iff json_plain_char_def)

lemma map_fst_insort_key: "map fst (insort_key fst x m) = insort (fst x) (map fst m)"
  by (induction m) auto

lemma map_fst_sort_key: "map fst (sort_key fst m) = sort (map fst m)"
  by (induction m) (simp_all add: map_fst_insort_key)

context json_printer
begin

lemma value_text_safe: "validate_safe_value v \<Longrightarrow> value_text J (JString v) = dquote v"
  by (simp add: value_text_plain safe_value_plain)

lemma join_entries_inject:
  assumes "map fst m = map fst m'"
    and "list_all (\<lambda>(k, v). \<exists>s. v = JString s \<and> validate_safe_value s) m"
    and "list_all (\<lambda>(k, v). \<exists>s. v = JString s \<and> validate_safe_value s) m'"
    and "join_with '','' (map (\<lambda>(name, v). name @ ''='' @ value_text J v) m) =
         join_with '','' (map (\<lambda>(name, v). name @ ''='' @ value_text J v) m')"
  shows "m = m'"
  using assms
proof (induction m arbitrary: m')
  case Nil
  then show ?case by simp
next
  case (Cons e m)
  obtain k s where e: "e = (k, JString s)" and s: "validate_safe_value s"
    using Cons.prems(2) by (cases e) auto
  obtain s' n where m': "m' = (k, JString s') # n" and s': "validate_safe_value s'"
    using Cons.prems(1,3) e by (cases m') auto
  have q: "CHR 34 \<notin> set s" "CHR 34 \<notin> set s'"
    using s s' by (simp_all add: plain_no_quote safe_value_plain)
  let ?t = "\<lambda>m. join_with '','' (map (\<lambda>(name, v). name @ ''='' @ value_text J v) m)"
  have split: "?t ((k, JString v) # r) = k @ ''='' @ dquote v @ (if r = [] then [] else '','' @ ?t r)"
    if "validate_safe_value v" for v r
    using that by (cases r) (auto simp: value_text_safe)
  have len: "m = [] \<longleftrightarrow> n = []" using Cons.prems(1) m' by auto
  have "k @ ''='' @ dquote s @ (if m = [] then [] else '','' @ ?t m) =
      k @ ''='' @ dquote s' @ (if n = [] then [] else '','' @ ?t n)"
    using Cons.prems(4) unfolding e m' split [OF s] split [OF s'] .
  then have "s = s'" and "m \<noteq> [] \<Longrightarrow> ?t m = ?t n"
    using dquote_append_inject [OF q] len by auto
  moreover have "m = n"
  proof (cases "m = []")
    case False
    with calculation Cons.prems show ?thesis by (intro Cons.IH) (auto simp: e m')
  qed (use len in simp)
  ultimately show ?case by (simp add: e m')
qed

end

lemma list_eq_by_keys:
  assumes "hm_wf m" "hm_wf m'" "map fst m = map fst m'" "set m = set m'"
  shows "m = m'"
proof (rule nth_equalityI)
  show len: "length m = length m'" using assms(3) by (rule map_eq_imp_length_eq)
  fix i assume i: "i < length m"
  then have "m ! i \<in> set m'" using nth_mem [of i m] assms(4) by blast
  moreover have "m' ! i \<in> set m'" using i len by (simp only: nth_mem)
  moreover have "fst (m ! i) = fst (m' ! i)"
    using arg_cong [OF assms(3), of "\<lambda>xs. xs ! i"] i len by (simp only: nth_map)
  ultimately show "m ! i = m' ! i"
    using assms(2) by (metis hm_wf_def distinct_map inj_onD)
qed

lemma set_json_strings_inject: "set (json_strings m) = set (json_strings m') \<longleftrightarrow> set m = set m'"
proof -
  have "inj (\<lambda>(k :: string, v). (k, JString v))" by (auto intro: injI)
  then show ?thesis by (simp add: inj_image_eq_iff)
qed

context json_printer
begin

lemma parameter_key_inject:
  assumes ok: "resolved_ok m" "resolved_ok m'" and keys: "hm_keys m = hm_keys m'"
    and eq: "parameter_key J (json_strings m) = parameter_key J (json_strings m')"
  shows "m = m'"
proof -
  have fst: "fst \<circ> (\<lambda>(k :: string, v). (k, JString v)) = fst" by auto
  have strings: "list_all (\<lambda>(k, v). \<exists>s. v = JString s \<and> validate_safe_value s) (sort_key fst (json_strings m))"
    if "resolved_ok m" for m
    using that by (auto simp: resolved_ok_def list_all_iff)
  have "sort_key fst (json_strings m) = sort_key fst (json_strings m')"
    using keys eq
    by (intro join_entries_inject strings ok) (simp_all add: map_fst_sort_key fst parameter_key_def)
  then have "set (json_strings m) = set (json_strings m')"
    by (metis set_sort)
  then have "set m = set m'" by (simp only: set_json_strings_inject)
  then show ?thesis
    using ok keys by (intro list_eq_by_keys) (simp_all add: resolved_ok_def)
qed

lemma bucket_id_determines_assignment:
  assumes valid: "validate rs = Inr ()" and wf: "rule_set_wf rs"
    and rules: "rule \<in> set (hm_values (rs_rules rs))" "rule' \<in> set (hm_values (rs_rules rs))"
    and res: "resolve_rule J S claims rule pg = (Inr (Some asg), pg1)"
      "resolve_rule J S' claims' rule' pg' = (Inr (Some asg'), pg2)"
    and eq: "ba_bucket_id asg = ba_bucket_id asg'"
  shows "asg = asg'"
proof -
  obtain m where m: "resolved_ok m" "hm_keys m = foldl add_key [] (sr_parameters rule)"
    "ba_parameters asg = json_strings m" "ba_rule_id asg = sr_id rule"
    "ba_bucket_id asg = BucketId (sr_id rule @ '':'' @ parameter_key J (json_strings m))"
    "render_data_queries (sr_id rule) m (sr_data_queries rule) [] = Inr (ba_data_queries asg)"
    using resolve_rule_Some [OF res(1)] .
  obtain m' where m': "resolved_ok m'" "hm_keys m' = foldl add_key [] (sr_parameters rule')"
    "ba_parameters asg' = json_strings m'" "ba_rule_id asg' = sr_id rule'"
    "ba_bucket_id asg' = BucketId (sr_id rule' @ '':'' @ parameter_key J (json_strings m'))"
    "render_data_queries (sr_id rule') m' (sr_data_queries rule') [] = Inr (ba_data_queries asg')"
    using resolve_rule_Some [OF res(2)] .
  have no_colon: "CHR '':'' \<notin> set (sr_id r)" if r: "r \<in> set (hm_values (rs_rules rs))" for r
  proof -
    from r obtain k where "(k, r) \<in> set (rs_rules rs)" by auto
    then show ?thesis
      using validated_rule [OF valid] rule_set_wf_rule [OF wf] bucket_id_no_colon
      by (auto simp: rule_valid_def)
  qed
  have "sr_id rule = sr_id rule' \<and> parameter_key J (json_strings m) = parameter_key J (json_strings m')"
    using eq split_at_separator [OF no_colon [OF rules(1)] no_colon [OF rules(2)]]
    by (simp add: m(5) m'(5))
  then have "rule = rule'" and key: "parameter_key J (json_strings m) = parameter_key J (json_strings m')"
    using rule_set_wf_unique [OF wf rules] by auto
  moreover have "m = m'"
    using m(1,2) m'(1,2) key \<open>rule = rule'\<close> by (intro parameter_key_inject) simp_all
  ultimately show ?thesis
    using m(3-6) m'(3-6) by simp
qed

end

text \<open>A compact printer for which the laws hold.\<close>

definition ref_number_text :: "json_number \<Rightarrow> string" where
  "ref_number_text n = (case n of IntNum i \<Rightarrow> dec_int i | FloatNum w \<Rightarrow> ''0x'' @ upper_hex (unat w))"

definition ref_escape :: "string \<Rightarrow> string" where
  "ref_escape s = concat (map (\<lambda>c. if c = CHR 34 \<or> c = CHR 92 then [CHR 92, c] else [c]) s)"

fun ref_value_text :: "json \<Rightarrow> string" where
  "ref_value_text JNull = ''null''"
| "ref_value_text (JBool b) = (if b then ''true'' else ''false'')"
| "ref_value_text (JNumber n) = ref_number_text n"
| "ref_value_text (JString s) = dquote (ref_escape s)"
| "ref_value_text (JArray xs) = ''['' @ join_with '','' (map ref_value_text xs) @ '']''"
| "ref_value_text (JObject ms) =
     ''{'' @ join_with '','' (map (\<lambda>(k, v). dquote (ref_escape k) @ '':'' @ ref_value_text v) ms) @ ''}''"

definition ref_json_text :: json_text where
  "ref_json_text = \<lparr>number_text = ref_number_text, value_text = ref_value_text\<rparr>"

lemma ref_escape_plain: "list_all json_plain_char s \<Longrightarrow> ref_escape s = s"
  by (induction s) (auto simp: ref_escape_def json_plain_char_def)

interpretation ref_json: json_printer ref_json_text
  by unfold_locales
    (simp_all add: ref_json_text_def ref_number_text_def ref_escape_plain)

subsection \<open>What resolution asks and how it can fail\<close>

lemma resolve_parameters_calls:
  "resolve_parameters (traced S) rule claims ps m j st = (r, st') \<Longrightarrow>
    \<exists>calls. snd st' = snd st @ calls \<and>
      list_all (\<lambda>(q, binds). binds = [PText (tc_sub claims)] \<and>
        q \<in> set (hm_values (sr_parameter_queries rule))) calls"
proof (induction ps arbitrary: m j st)
  case Nil
  then show ?case by auto
next
  case (Cons p ps)
  show ?case
  proof (cases "hm_get (sr_parameter_queries rule) p")
    case None
    with Cons.prems show ?thesis by auto
  next
    case (Some q)
    then have q: "q \<in> set (hm_values (sr_parameter_queries rule))"
      by (simp add: hm_get_value)
    obtain res pg' where call: "fetch_optional S q [PText (tc_sub claims)] (fst st) = (res, pg')"
      by (metis surj_pair)
    let ?st = "(pg', snd st @ [(q, [PText (tc_sub claims)])])"
    have "snd st' = snd ?st \<or> (\<exists>m j. resolve_parameters (traced S) rule claims ps m j ?st = (r, st'))"
      using Cons.prems Some call
      by (auto simp: traced_call_def split: sum.splits option.splits if_splits)
    then obtain calls where "snd st' = snd ?st @ calls"
      and "list_all (\<lambda>(q, binds). binds = [PText (tc_sub claims)] \<and>
        q \<in> set (hm_values (sr_parameter_queries rule))) calls"
      using Cons.IH [of _ _ ?st] by (metis append_Nil2 list.pred_inject(1))
    with q show ?thesis
      by (intro exI [of _ "(q, [PText (tc_sub claims)]) # calls"]) simp
  qed
qed

lemma resolve_rule_calls:
  assumes "resolve_rule J (traced S) claims rule st = (r, st')"
  shows "\<exists>calls. snd st' = snd st @ calls \<and>
    list_all (\<lambda>(q, binds). binds = [PText (tc_sub claims)] \<and>
      q \<in> set (hm_values (sr_parameter_queries rule))) calls"
proof -
  obtain r' where "resolve_parameters (traced S) rule claims (sr_parameters rule) [] [] st = (r', st')"
    using assms by (auto simp: resolve_rule_def split: prod.splits sum.splits option.splits)
  then show ?thesis by (rule resolve_parameters_calls)
qed

lemma resolve_rules_calls:
  "resolve_rules J (traced S) claims rules acc st = (r, st') \<Longrightarrow>
    \<exists>calls. snd st' = snd st @ calls \<and>
      list_all (\<lambda>(q, binds). binds = [PText (tc_sub claims)] \<and>
        list_ex (\<lambda>rule. q \<in> set (hm_values (sr_parameter_queries rule))) rules) calls"
proof (induction rules arbitrary: acc st)
  case Nil
  then show ?case by auto
next
  case (Cons rule rules)
  obtain r1 st1 where one: "resolve_rule J (traced S) claims rule st = (r1, st1)"
    by (metis surj_pair)
  obtain calls where c: "snd st1 = snd st @ calls"
    "list_all (\<lambda>(q, binds). binds = [PText (tc_sub claims)] \<and>
      q \<in> set (hm_values (sr_parameter_queries rule))) calls"
    using resolve_rule_calls [OF one] by blast
  have "st' = st1 \<or> (\<exists>acc. resolve_rules J (traced S) claims rules acc st1 = (r, st'))"
    using Cons.prems one by (auto split: sum.splits option.splits)
  then show ?case
  proof
    assume "st' = st1"
    with c show ?thesis by (auto simp: list_all_iff)
  next
    assume "\<exists>acc. resolve_rules J (traced S) claims rules acc st1 = (r, st')"
    then obtain calls' where "snd st' = snd st1 @ calls'"
      "list_all (\<lambda>(q, binds). binds = [PText (tc_sub claims)] \<and>
        list_ex (\<lambda>rule. q \<in> set (hm_values (sr_parameter_queries rule))) rules) calls'"
      using Cons.IH by blast
    with c show ?thesis by (intro exI [of _ "calls @ calls'"]) (auto simp: list_all_iff)
  qed
qed

lemma resolve_parameters_error:
  assumes "resolve_parameters S rule claims ps m j pg = (Inl e, pg')"
    and "\<forall>p \<in> set ps. hm_contains (sr_parameter_queries rule) p"
  shows "(\<exists>d. e = Database d) \<or>
    (\<exists>p \<in> set ps. (\<exists>d. e = BucketAssignmentFailed (unsupported_column_message (sr_id rule) p d)) \<or>
      e = BucketAssignmentFailed (unsafe_value_message (sr_id rule) p))"
  using assms
proof (induction ps arbitrary: m j pg)
  case Nil
  then show ?case by simp
next
  case (Cons p ps)
  then obtain q where "hm_get (sr_parameter_queries rule) p = Some q"
    by (auto simp: hm_contains_def)
  with Cons.prems Cons.IH show ?case
    by (auto split: prod.splits sum.splits option.splits if_splits)
qed

lemma render_data_queries_ok:
  assumes "\<forall>(n, q) \<in> set qs. list_all (ref_ok m) (template_refs q)"
  shows "render_data_queries r m qs acc =
    Inr (foldl (\<lambda>acc (n, q). hm_insert n (render m (segments q)) acc) acc qs)"
  using assms
proof (induction r m qs acc rule: render_data_queries.induct)
  case (2 r m n q qs acc)
  then have "substitute r q m = Inr (render m (segments q))"
    by (simp add: substitute_Inr)
  with 2 show ?case by simp
qed simp

lemma hm_get_foldl_insert:
  assumes "hm_wf qs"
  shows "hm_get (foldl (\<lambda>acc (n, q). hm_insert n (f q) acc) acc qs) n =
    (case hm_get qs n of None \<Rightarrow> hm_get acc n | Some q \<Rightarrow> Some (f q))"
  using assms
proof (induction qs arbitrary: acc)
  case (Cons e qs)
  obtain k q where e: "e = (k, q)" by (cases e)
  have "hm_get qs k = None" using Cons.prems by (auto simp: e hm_wf_def map_of_eq_None_iff)
  moreover have "hm_wf qs" using Cons.prems by (simp add: hm_wf_def)
  ultimately show ?case using Cons.IH by (simp add: e split: option.split)
qed simp

lemma resolved_refs_ok:
  assumes "resolved_ok m" "hm_keys m = foldl add_key [] ps" "set refs \<subseteq> set ps"
  shows "list_all (ref_ok m) refs"
proof -
  have "ref_ok m n" if "n \<in> set refs" for n
  proof -
    have "n \<in> fst ` set m"
      using assms(2,3) that set_foldl_add_key [of "[]" ps] by (metis UnCI set_map subsetD)
    then obtain v where "hm_get m n = Some v" by (auto simp: map_of_eq_None_iff dest!: weak_map_of_SomeI)
    moreover from this have "validate_safe_value v"
      using assms(1) hm_get_value [of m n v] by (auto simp: resolved_ok_def list_all_iff)
    ultimately show ?thesis by (simp add: ref_ok_def)
  qed
  then show ?thesis by (simp add: list_all_iff)
qed

definition only_data_errors :: "sync_rule \<Rightarrow> sync_error \<Rightarrow> bool" where
  "only_data_errors rule e \<longleftrightarrow>
     (\<exists>d. e = Database d) \<or>
     (\<exists>p \<in> set (sr_parameters rule).
        (\<exists>d. e = BucketAssignmentFailed (unsupported_column_message (sr_id rule) p d)) \<or>
        e = BucketAssignmentFailed (unsafe_value_message (sr_id rule) p))"

lemma resolve_rule_valid:
  assumes valid: "rule_valid k rule" and wf: "hm_wf (sr_data_queries rule)"
  shows "case resolve_rule J S claims rule pg of
      (Inl e, pg') \<Rightarrow> only_data_errors rule e
    | (Inr None, pg') \<Rightarrow> True
    | (Inr (Some asg), pg') \<Rightarrow>
        (\<exists>m. resolved_ok m \<and> fst ` set m = set (sr_parameters rule) \<and>
           ba_parameters asg = json_strings m \<and> ba_rule_id asg = sr_id rule \<and>
           (\<forall>n. hm_get (ba_data_queries asg) n =
              map_option (\<lambda>q. render m (segments q)) (hm_get (sr_data_queries rule) n)))"
proof (cases "resolve_rule J S claims rule pg")
  case (Pair res pg')
  have have_queries: "\<forall>p \<in> set (sr_parameters rule). hm_contains (sr_parameter_queries rule) p"
    and refs: "\<forall>(n, q) \<in> set (sr_data_queries rule). set (template_refs q) \<subseteq> set (sr_parameters rule)"
    using valid by (auto simp: rule_valid_def)
  have rendered: "render_data_queries (sr_id rule) m (sr_data_queries rule) [] =
      Inr (foldl (\<lambda>acc (n, q). hm_insert n (render m (segments q)) acc) [] (sr_data_queries rule))"
    if "resolved_ok m" "hm_keys m = foldl add_key [] (sr_parameters rule)" for m
    using refs resolved_refs_ok [OF that] by (intro render_data_queries_ok) auto
  show ?thesis
  proof (cases res)
    case (Inl e)
    obtain res' pg'' where par:
      "resolve_parameters S rule claims (sr_parameters rule) [] [] pg = (res', pg'')"
      by (metis surj_pair)
    have err: "res' = Inl e"
    proof (cases res')
      case (Inr o')
      have "resolved_ok []" by (simp add: resolved_ok_def)
      with Inr par Pair Inl rendered resolve_parameters_Some [of S rule claims "sr_parameters rule" "[]" pg]
      show ?thesis by (auto simp: resolve_rule_def split: option.splits)
    qed (use par Pair Inl in \<open>auto simp: resolve_rule_def\<close>)
    have "only_data_errors rule e"
      unfolding only_data_errors_def
      by (rule resolve_parameters_error [OF par [unfolded err] have_queries])
    with Pair Inl show ?thesis by simp
  next
    case (Inr o')
    show ?thesis
    proof (cases o')
      case (Some asg)
      with Pair Inr have "resolve_rule J S claims rule pg = (Inr (Some asg), pg')" by simp
      then obtain m where m: "resolved_ok m" "hm_keys m = foldl add_key [] (sr_parameters rule)"
        "ba_parameters asg = json_strings m" "ba_rule_id asg = sr_id rule"
        "render_data_queries (sr_id rule) m (sr_data_queries rule) [] = Inr (ba_data_queries asg)"
        by (rule resolve_rule_Some)
      have "fst ` set m = set (sr_parameters rule)"
        using arg_cong [OF m(2), of set] by (simp add: set_foldl_add_key)
      moreover have "hm_get (ba_data_queries asg) n =
          map_option (\<lambda>q. render m (segments q)) (hm_get (sr_data_queries rule) n)" for n
        using rendered [OF m(1,2)] m(5) hm_get_foldl_insert [OF wf, of "\<lambda>q. render m (segments q)" "[]" n]
        by (auto split: option.splits)
      ultimately show ?thesis using Pair Inr Some m by auto
    qed (use Pair Inr in simp)
  qed
qed

subsection \<open>A sample rule set\<close>

definition sample_rule :: sync_rule where
  "sample_rule =
     \<lparr>sr_id = ''mine'', sr_description = None, sr_parameters = [''uid''],
      sr_parameter_queries = [(''uid'', ''SELECT id FROM users WHERE sub = $1'')],
      sr_data_queries = [(''todos'', ''SELECT * FROM todos WHERE owner = {bucket_parameters.uid}'')]\<rparr>"

definition sample_rules :: sync_rule_set where
  "sample_rules = \<lparr>rs_version = ''1'', rs_rules = [(''mine'', sample_rule)]\<rparr>"

definition sample_claims :: "string \<Rightarrow> token_claims" where
  "sample_claims s = \<lparr>tc_sub = s, tc_tenant_id = None, tc_exp = 2000, tc_custom = []\<rparr>"

definition sample_pg :: scripted_pg where
  "sample_pg =
     [((''SELECT id FROM users WHERE sub = $1'', [PText ''alice'']), [JString ''u1'']),
      ((''SELECT id FROM users WHERE sub = $1'', [PText ''bob'']), [JNumber (IntNum 42)])]"

definition sample_assignment :: "string \<Rightarrow> bucket_assignment" where
  "sample_assignment v =
     \<lparr>ba_bucket_id = BucketId (''mine:uid='' @ dquote v), ba_rule_id = ''mine'',
      ba_parameters = [(''uid'', JString v)],
      ba_data_queries = [(''todos'', ''SELECT * FROM todos WHERE owner = '' @ quoted v)]\<rparr>"

definition sample_assigner :: assigner where
  "sample_assigner = \<lparr>as_rule_set = sample_rules, as_cache = [], as_cache_ttl = from_secs 3600\<rparr>"

lemma sample_rules_valid: "validate sample_rules = Inr ()"
  by code_simp

lemma sample_rules_wf: "rule_set_wf sample_rules" "hm_wf (sr_data_queries sample_rule)"
  by (simp_all add: rule_set_wf_def sample_rules_def sample_rule_def hm_wf_def)

lemma sample_resolve:
  "resolve_rule ref_json_text scripted_sqlx (sample_claims ''alice'') sample_rule sample_pg =
   (Inr (Some (sample_assignment ''u1'')), sample_pg)"
  "resolve_rule ref_json_text scripted_sqlx (sample_claims ''bob'') sample_rule sample_pg =
   (Inr (Some (sample_assignment ''42'')), sample_pg)"
  by code_simp+

end
