(* ===== verification/Assigner_Properties.thy ===== *)
theory Assigner_Properties
  imports Bucket_Assigner
begin

section \<open>Properties of bucket assignment and routing\<close>

text \<open>
  The security invariants the assigner's documentation lists (no call before the expiry
  check, the subject only ever bound, only allowlisted values rendered), the separation of
  buckets, and what the cache and the routing heuristic do and do not guarantee.
\<close>

text \<open>C1: buckets isolate. Two assignments resolved from a validated rule set, for whatever users,
  rules and database states, that carry the same bucket id are the same assignment: same
  rule, same parameter values, same rendered data queries. So two users who share an op-log
  partition are authorised for exactly the same queries.\<close>

theorem bucket_id_isolation:
  assumes "json_printer J" and "validate rs = Inr ()" and "rule_set_wf rs"
    and "rule \<in> set (hm_values (rs_rules rs))" and "rule' \<in> set (hm_values (rs_rules rs))"
    and "resolve_rule J S claims rule pg = (Inr (Some asg), pg1)"
    and "resolve_rule J S' claims' rule' pg' = (Inr (Some asg'), pg2)"
  shows "ba_bucket_id asg = ba_bucket_id asg' \<longleftrightarrow> asg = asg'"
  using json_printer.bucket_id_determines_assignment [OF assms] by blast

theorem bucket_id_isolation_witness:
  "ba_bucket_id (sample_assignment ''u1'') = ba_bucket_id (sample_assignment ''42'') \<longleftrightarrow>
   sample_assignment ''u1'' = sample_assignment ''42''"
proof -
  have rule: "sample_rule \<in> set (hm_values (rs_rules sample_rules))"
    by (simp add: sample_rules_def)
  show ?thesis
    by (rule bucket_id_isolation [OF ref_json.json_printer_axioms sample_rules_valid
          sample_rules_wf(1) rule rule sample_resolve])
qed

text \<open>An expired token, or a clock that cannot be read, is rejected with an authentication error
  before any database call and without touching the cache, even when the subject's
  assignments are cached.\<close>

theorem expired_rejected_first:
  assumes "case clock of None \<Rightarrow> True | Some s \<Rightarrow> tc_exp claims \<le> word_of_nat s"
  shows "\<exists>m. assign J (traced S) clock t0 t1 claims a (pg, []) = (Inl (AuthError m), a, (pg, []))"
  using assms by (auto simp: assign_def check_not_expired_def Let_def split: option.splits)

theorem expired_rejected_first_witness:
  "\<exists>m. assign ref_json_text (traced scripted_sqlx) (Some 2000) 0 0 (sample_claims ''alice'')
     sample_assigner (sample_pg, []) = (Inl (AuthError m), sample_assigner, (sample_pg, []))"
  by (rule expired_rejected_first) (simp add: sample_claims_def)

text \<open>Whatever the claims contain, every statement the assigner sends is the unmodified text of a
  parameter query of the rule set, with the token's subject as its only bound value; no part
  of the claims enters a statement's text.\<close>

theorem assign_only_binds_subject:
  "case assign J (traced S) clock t0 t1 claims a (pg, []) of (r, a', (pg', calls)) \<Rightarrow>
     list_all (\<lambda>(sql, binds). binds = [PText (tc_sub claims)] \<and>
       list_ex (\<lambda>rule. sql \<in> set (hm_values (sr_parameter_queries rule)))
         (hm_values (rs_rules (as_rule_set a)))) calls"
proof -
  obtain r pg' calls where run:
    "resolve_rules J (traced S) claims (hm_values (rs_rules (as_rule_set a))) [] (pg, []) = (r, pg', calls)"
    by (metis surj_pair)
  from resolve_rules_calls [OF run] show ?thesis
    by (auto simp: assign_def Let_def run split: sum.splits option.splits prod.splits)
qed

text \<open>For a validated rule, resolution fails only for reasons in the data: the driver's error, a
  column that is neither text nor integer, or a value outside the allowlist. Otherwise the
  user has no such bucket, or gets an assignment with exactly the declared parameters, every
  value allowlisted, and each data query rendered from the rule's own template.\<close>

theorem validated_resolution:
  assumes "validate rs = Inr ()" and "(k, rule) \<in> set (rs_rules rs)"
    and "hm_wf (sr_data_queries rule)"
  shows "case resolve_rule J S claims rule pg of
      (Inl e, pg') \<Rightarrow> only_data_errors rule e
    | (Inr None, pg') \<Rightarrow> True
    | (Inr (Some asg), pg') \<Rightarrow>
        (\<exists>m. resolved_ok m \<and> fst ` set m = set (sr_parameters rule) \<and>
           ba_parameters asg = json_strings m \<and> ba_rule_id asg = sr_id rule \<and>
           (\<forall>n. hm_get (ba_data_queries asg) n =
              map_option (\<lambda>q. render m (segments q)) (hm_get (sr_data_queries rule) n)))"
  by (rule resolve_rule_valid [OF validated_rule [OF assms(1,2)] assms(3)])

theorem validated_resolution_witness:
  "\<exists>m. resolved_ok m \<and> fst ` set m = {''uid''} \<and>
     ba_parameters (sample_assignment ''u1'') = json_strings m"
proof -
  have rule: "(''mine'', sample_rule) \<in> set (rs_rules sample_rules)"
    by (simp add: sample_rules_def)
  from validated_resolution [OF sample_rules_valid rule sample_rules_wf(2),
      of ref_json_text scripted_sqlx "sample_claims ''alice''" sample_pg]
  show ?thesis unfolding sample_resolve prod.case sum.case option.case
    by (auto simp: sample_rule_def)
qed

subsection \<open>The cache\<close>

lemma resolve_parameters_sub:
  "tc_sub c = tc_sub c' \<Longrightarrow>
    resolve_parameters S rule c ps m j pg = resolve_parameters S rule c' ps m j pg"
  by (induction ps arbitrary: m j pg) (auto split: option.splits prod.splits sum.splits)

lemma resolve_rules_sub:
  "tc_sub c = tc_sub c' \<Longrightarrow> resolve_rules J S c rules acc pg = resolve_rules J S c' rules acc pg"
  by (induction rules arbitrary: acc pg)
     (auto simp: resolve_rule_def resolve_parameters_sub [of c c'] split: option.splits prod.splits sum.splits)

text \<open>Every cached list was computed by resolving the rules for that key's subject.\<close>

definition cache_inv :: "json_text \<Rightarrow> ('pg, 'row) sqlx \<Rightarrow> assigner \<Rightarrow> bool" where
  "cache_inv J S a \<longleftrightarrow>
     hm_wf (as_cache a) \<and>
     (\<forall>key asgs t. hm_get (as_cache a) key = Some (asgs, t) \<longrightarrow>
        (\<exists>claims pg pg'. tc_sub claims = ck_sub key \<and>
           resolve_rules J S claims (hm_values (rs_rules (as_rule_set a))) [] pg = (Inr asgs, pg')))"

lemma cache_inv_new: "new_assigner rs ttl = Inr a \<Longrightarrow> cache_inv J S a"
  by (auto simp: new_assigner_def result_simps cache_inv_def)

lemma cache_inv_sweep: "cache_inv J S a \<Longrightarrow> cache_inv J S (snd (sweep_expired_entries a now))"
  unfolding cache_inv_def sweep_expired_entries_def Let_def
  by (auto simp: hm_get_filter split: option.splits if_splits)

lemma cache_inv_insert:
  assumes "cache_inv J S a" and "tc_sub claims = ck_sub key"
    and "resolve_rules J S claims (hm_values (rs_rules (as_rule_set a))) [] pg = (Inr asgs, pg')"
  shows "cache_inv J S (a\<lparr>as_cache := hm_insert key (asgs, t) (as_cache a)\<rparr>)"
  using assms unfolding cache_inv_def by (auto split: if_splits)

lemma assign_cache_inv:
  assumes "cache_inv J S a"
  shows "case assign J S clock t0 t1 claims a pg of (r, a', pg') \<Rightarrow>
    cache_inv J S a' \<and> cache_inv J S (snd (sweep_expired_entries a' t2)) \<and>
    (case r of Inl e \<Rightarrow> True
     | Inr asgs \<Rightarrow> \<exists>db db'. resolve_rules J S claims (hm_values (rs_rules (as_rule_set a))) [] db = (Inr asgs, db'))"
proof -
  let ?key = "\<lparr>ck_sub = tc_sub claims, ck_rule_set_version = rs_version (as_rule_set a)\<rparr>"
  let ?rules = "hm_values (rs_rules (as_rule_set a))"
  obtain r a' pg' where run: "assign J S clock t0 t1 claims a pg = (r, a', pg')"
    by (metis surj_pair)
  then consider (same) e where "r = Inl e" "a' = a"
    | (hit) asgs t where "r = Inr asgs" "a' = a" "hm_get (as_cache a) ?key = Some (asgs, t)"
    | (miss) asgs where "r = Inr asgs" "a' = a\<lparr>as_cache := hm_insert ?key (asgs, t1) (as_cache a)\<rparr>"
        "resolve_rules J S claims ?rules [] pg = (Inr asgs, pg')"
    by (auto simp: assign_def Let_def cache_lookup_def split: sum.splits option.splits prod.splits if_splits)
  then have "cache_inv J S a' \<and> (case r of Inl e \<Rightarrow> True
     | Inr asgs \<Rightarrow> \<exists>db db'. resolve_rules J S claims ?rules [] db = (Inr asgs, db'))"
  proof cases
    case same
    with assms show ?thesis by simp
  next
    case hit
    with assms obtain c db db' where "tc_sub c = tc_sub claims"
      "resolve_rules J S c ?rules [] db = (Inr asgs, db')"
      unfolding cache_inv_def by fastforce
    then have "resolve_rules J S claims ?rules [] db = (Inr asgs, db')"
      by (simp only: resolve_rules_sub [of claims c])
    with hit assms show ?thesis by auto
  next
    case miss
    with assms show ?thesis by (auto intro!: cache_inv_insert)
  qed
  then show ?thesis by (simp add: run cache_inv_sweep)
qed



text \<open>A successful \<^verbatim>\<open>assign\<close> is remembered: until the cache TTL has passed since it was stored, the
  same subject gets the same assignments with no database call, whatever the other claims,
  as long as the token is not expired; once the TTL has passed it is resolved again.\<close>

theorem assign_cached_until_ttl:
  assumes "assign J S clock t0 t1 claims a pg = (Inr asgs, a', pg')"
    and "cache_lookup a t0 \<lparr>ck_sub = tc_sub claims, ck_rule_set_version = rs_version (as_rule_set a)\<rparr> = None"
    and "tc_sub claims' = tc_sub claims" and "check_not_expired clock' claims' = Inr ()"
  shows "assign J S' clock' t2 t3 claims' a' db =
    (if t2 - t1 < as_cache_ttl a then (Inr asgs, a', db)
     else (case resolve_rules J S' claims' (hm_values (rs_rules (as_rule_set a))) [] db of
             (Inl e, db') \<Rightarrow> (Inl e, a', db')
           | (Inr asgs', db') \<Rightarrow>
               (Inr asgs', a'\<lparr>as_cache := hm_insert
                  \<lparr>ck_sub = tc_sub claims, ck_rule_set_version = rs_version (as_rule_set a)\<rparr>
                  (asgs', t3) (as_cache a')\<rparr>, db')))"
proof -
  have "a' = a\<lparr>as_cache := hm_insert
      \<lparr>ck_sub = tc_sub claims, ck_rule_set_version = rs_version (as_rule_set a)\<rparr> (asgs, t1) (as_cache a)\<rparr>"
    using assms(1,2) by (auto simp: assign_def Let_def split: sum.splits prod.splits)
  then show ?thesis
    using assms(3,4) by (auto simp: assign_def Let_def cache_lookup_def elapsed_def split: sum.splits prod.splits)
qed

lemma sample_assign:
  "assign ref_json_text scripted_sqlx (Some 1000) 5 7 (sample_claims ''alice'') sample_assigner sample_pg =
   (Inr [sample_assignment ''u1''],
    sample_assigner\<lparr>as_cache := [(\<lparr>ck_sub = ''alice'', ck_rule_set_version = ''1''\<rparr>,
      ([sample_assignment ''u1''], 7))]\<rparr>, sample_pg)"
proof -
  have run: "resolve_rules ref_json_text scripted_sqlx (sample_claims ''alice'')
      (hm_values (rs_rules (as_rule_set sample_assigner))) [] sample_pg =
      (Inr [sample_assignment ''u1''], sample_pg)"
    by (simp add: sample_assigner_def sample_rules_def sample_resolve)
  have "check_not_expired (Some 1000) (sample_claims ''alice'') = Inr ()"
    by (simp add: check_not_expired_def sample_claims_def)
  with run show ?thesis
    by (simp add: assign_def cache_lookup_def sample_assigner_def sample_claims_def sample_rules_def hm_insert_def)
qed

theorem assign_cached_until_ttl_witness:
  "assign ref_json_text scripted_sqlx (Some 1500) 1000 1001 (sample_claims ''alice'')
     (sample_assigner\<lparr>as_cache := [(\<lparr>ck_sub = ''alice'', ck_rule_set_version = ''1''\<rparr>,
       ([sample_assignment ''u1''], 7))]\<rparr>) [] =
   (Inr [sample_assignment ''u1''],
    sample_assigner\<lparr>as_cache := [(\<lparr>ck_sub = ''alice'', ck_rule_set_version = ''1''\<rparr>,
      ([sample_assignment ''u1''], 7))]\<rparr>, [])"
proof -
  have "cache_lookup sample_assigner 5 key = None" for key
    by (simp add: cache_lookup_def sample_assigner_def)
  moreover have "check_not_expired (Some 1500) (sample_claims ''alice'') = Inr ()"
    by (simp add: check_not_expired_def sample_claims_def)
  ultimately show ?thesis
    by (subst assign_cached_until_ttl [OF sample_assign])
       (simp_all add: sample_assigner_def from_secs_def nanos_per_sec_def)
qed

text \<open>Sweeping is invisible. It drops exactly the entries older than the TTL and returns their
  number, and at every later instant lookups and routing give what they gave without it.\<close>

theorem sweep_transparent:
  assumes "hm_wf (as_cache a)" and "now \<le> later"
  shows "cache_lookup (snd (sweep_expired_entries a now)) later key = cache_lookup a later key \<and>
    find_affected_buckets J (snd (sweep_expired_entries a now)) later ty row =
      find_affected_buckets J a later ty row \<and>
    fst (sweep_expired_entries a now) =
      length (filter (\<lambda>(_, _, t). as_cache_ttl a \<le> elapsed now t) (as_cache a))"
proof -
  have stale: "elapsed later t \<ge> as_cache_ttl a" if "\<not> elapsed now t < as_cache_ttl a" for t
    using that assms(2) by (simp add: elapsed_def)
  let ?fresh = "\<lambda>(_ :: cache_key, _ :: bucket_assignment list, t). elapsed now t < as_cache_ttl a"
  have "cache_lookup (snd (sweep_expired_entries a now)) later key = cache_lookup a later key"
    using assms(1)
    by (auto simp: cache_lookup_def sweep_expired_entries_def Let_def hm_get_filter
        split: option.splits dest!: stale)
  moreover have "concat (map (\<lambda>(k, asgs, t). if elapsed later t \<ge> as_cache_ttl a then [] else f asgs) (filter ?fresh m)) =
      concat (map (\<lambda>(k, asgs, t). if elapsed later t \<ge> as_cache_ttl a then [] else f asgs) m)"
    for f :: "bucket_assignment list \<Rightarrow> bucket_id list" and m
    using stale by (induction m) auto
  moreover have "length m - length (filter ?fresh m) =
      length (filter (\<lambda>(_, _, t). as_cache_ttl a \<le> elapsed now t) m)" for m
    using sum_length_filter_compl [of ?fresh m] by (simp add: case_prod_unfold not_less)
  ultimately show ?thesis
    by (simp add: find_affected_buckets_def sweep_expired_entries_def Let_def)
qed

definition sample_cached :: assigner where
  "sample_cached = sample_assigner\<lparr>as_cache :=
     [(\<lparr>ck_sub = ''alice'', ck_rule_set_version = ''1''\<rparr>, ([sample_assignment ''u1''], from_secs 1)),
      (\<lparr>ck_sub = ''carol'', ck_rule_set_version = ''1''\<rparr>, ([sample_assignment ''u1''], from_secs 9000))]\<rparr>"

theorem sweep_transparent_witness:
  "find_affected_buckets ref_json_text (snd (sweep_expired_entries sample_cached (from_secs 9001)))
     (from_secs 9002) ''todos'' (JObject [(''owner'', JString ''u1'')]) =
   find_affected_buckets ref_json_text sample_cached (from_secs 9002) ''todos''
     (JObject [(''owner'', JString ''u1'')])"
proof -
  have "hm_wf (as_cache sample_cached)" "from_secs 9001 \<le> from_secs 9002"
    by (simp_all add: sample_cached_def hm_wf_def from_secs_def)
  from sweep_transparent [OF this] show ?thesis by blast
qed

subsection \<open>Routing\<close>

lemma json_eq_string [simp]: "json_eq (JString s) b \<longleftrightarrow> b = JString s"
  by (cases b) auto

lemma json_scalars_equal_string:
  "json_scalars_equal J (JString s) b \<longleftrightarrow> b = JString s \<or> (\<exists>n. b = JNumber n \<and> s = number_text J n)"
  by (cases b) auto


text \<open>A bucket that several cached users share is listed once per user, and a bucket without
  parameters is never listed.\<close>

theorem shared_bucket_routed_twice:
  "find_affected_buckets ref_json_text sample_cached (from_secs 100) ''todos''
     (JObject [(''owner'', JString ''u1'')]) =
   [BucketId (''mine:uid='' @ dquote ''u1''), BucketId (''mine:uid='' @ dquote ''u1'')]"
  by (simp add: find_affected_buckets_def sample_cached_def sample_assigner_def sample_assignment_def
      row_matches_assignment_def hm_contains_def elapsed_def from_secs_def nanos_per_sec_def)

theorem zero_parameter_bucket_never_routed:
  assumes "\<And>key asgs t asg. (key, asgs, t) \<in> set (as_cache a) \<Longrightarrow> asg \<in> set asgs \<Longrightarrow>
      ba_bucket_id asg = b \<Longrightarrow> ba_parameters asg = []"
  shows "b \<notin> set (find_affected_buckets J a now entity_type row)"
proof
  assume "b \<in> set (find_affected_buckets J a now entity_type row)"
  then obtain key asgs t asg where "(key, asgs, t) \<in> set (as_cache a)" "asg \<in> set asgs"
    "ba_bucket_id asg = b" "row_matches_assignment J row asg"
    by (auto simp: find_affected_buckets_def split: if_splits)
  with assms [of key asgs t asg] show False
    by (auto simp: row_matches_assignment_def split: option.splits)
qed

end
