(* ===== verification/Op_Log.thy ===== *)
theory Op_Log
  imports Op_Log_Key
begin

section \<open>The per-bucket op log (\<^verbatim>\<open>pes-oplog: error.rs, store.rs\<close>)\<close>

text \<open>
  \<^verbatim>\<open>BucketOpLog\<close> over the embedded database \<^verbatim>\<open>redb\<close> and the MessagePack codec \<^verbatim>\<open>rmp_serde\<close>. Both
  are libraries: they are the fields of the parameter \<open>log_env\<close>, every operation of which may
  fail with the library's error text. A write transaction is a value of its own that
  reaches the database only through \<open>commit\<close>; dropping it is an abort. The locale
  \<open>redb_store\<close> states the documented laws of \<^verbatim>\<open>redb\<close> tables (a map sorted by key bytes) and
  of the codec (decoding inverts encoding) that the proofs use.

  \<open>log_at\<close> is the abstract content of a log, an op per bucket and LSN; the lemmas give
  each operation's effect on it: append overwrites one position and folds the checksum,
  drain lists a bucket's positions in LSN order, compaction removes exactly the old ones.
\<close>

datatype op_log_error =
    DatabaseOpen string
  | Transaction string
  | Table string
  | Storage string
  | Commit string
  | Codec string
  | Task string

fun op_log_error_display :: "op_log_error \<Rightarrow> string" where
  "op_log_error_display (DatabaseOpen e) = ''failed to open redb database: '' @ e"
| "op_log_error_display (Transaction e) = ''redb transaction error: '' @ e"
| "op_log_error_display (Table e) = ''redb table error: '' @ e"
| "op_log_error_display (Storage e) = ''redb storage error: '' @ e"
| "op_log_error_display (Commit e) = ''redb commit error: '' @ e"
| "op_log_error_display (Codec e) = ''MessagePack (de)serialization error: '' @ e"
| "op_log_error_display (Task e) = ''background task error: '' @ e"

definition sync_error_of_op_log :: "op_log_error \<Rightarrow> sync_error" where
  "sync_error_of_op_log e = ProtocolError (op_log_error_display e)"

record stored_op =
  so_op :: bucket_op
  so_appended_at_unix_secs :: u64

subsection \<open>The libraries\<close>

record ('db, 'wt, 'rt) log_env =
  db_begin_write :: "'db \<Rightarrow> string + 'wt"
  wt_open_ops :: "'wt \<Rightarrow> string + 'wt"
  wt_open_sums :: "'wt \<Rightarrow> string + 'wt"
  wt_insert_op :: "bytes \<Rightarrow> bytes \<Rightarrow> 'wt \<Rightarrow> string + 'wt"
  wt_remove_op :: "bytes \<Rightarrow> 'wt \<Rightarrow> string + 'wt"
  wt_iter_ops :: "'wt \<Rightarrow> string + (string + bytes \<times> bytes) list"
  wt_get_sum :: "bytes \<Rightarrow> 'wt \<Rightarrow> string + u64 option"
  wt_insert_sum :: "bytes \<Rightarrow> u64 \<Rightarrow> 'wt \<Rightarrow> string + 'wt"
  wt_commit :: "'wt \<Rightarrow> string + 'db"
  db_begin_read :: "'db \<Rightarrow> string + 'rt"
  rt_open_ops :: "'rt \<Rightarrow> string + 'rt"
  rt_open_sums :: "'rt \<Rightarrow> string + 'rt"
  rt_range_ops :: "bytes \<Rightarrow> bytes \<Rightarrow> 'rt \<Rightarrow> string + (string + bytes \<times> bytes) list"
  rt_get_sum :: "bytes \<Rightarrow> 'rt \<Rightarrow> string + u64 option"
  env_join :: "'db \<Rightarrow> string option"
  env_encode :: "stored_op \<Rightarrow> string + bytes"
  env_decode :: "bytes \<Rightarrow> string + stored_op"

record 'db bucket_op_log =
  ol_db :: 'db
  ol_compaction_ttl :: duration

text \<open>The system clock in seconds since the epoch; \<open>None\<close> for a clock set before it.\<close>

type_synonym system_time = "nat option"

definition unix_now_secs :: "system_time \<Rightarrow> u64" where
  "unix_now_secs now = (case now of None \<Rightarrow> 0 | Some s \<Rightarrow> word_of_nat s)"

definition DEFAULT_COMPACTION_TTL :: duration where
  "DEFAULT_COMPACTION_TTL = from_secs (7 * 24 * 60 * 60)"

subsection \<open>The running checksum\<close>

definition FNV_PRIME :: u64 where
  "FNV_PRIME = 0x100000001b3"

definition fold_checksum :: "u64 \<Rightarrow> bytes \<Rightarrow> u64" where
  "fold_checksum prev payload =
     foldl (\<lambda>hash byte. (hash XOR ucast byte) * FNV_PRIME) (prev XOR 0xcbf29ce484222325) payload"

text \<open>The prime is odd, so multiplying by it loses nothing: each step of the fold is injective
  in the hash and in the byte.\<close>

lemma FNV_PRIME_cancel: "a * FNV_PRIME = b * FNV_PRIME \<longleftrightarrow> a = b"
proof
  assume "a * FNV_PRIME = b * FNV_PRIME"
  then have "a * (FNV_PRIME * 0xce965057aff6957b) = b * (FNV_PRIME * 0xce965057aff6957b)"
    by (simp only: mult.assoc [symmetric])
  moreover have "FNV_PRIME * 0xce965057aff6957b = 1" by (simp add: FNV_PRIME_def)
  ultimately show "a = b" by simp
qed simp

lemma xor_cancel: "(x XOR z = y XOR z) \<longleftrightarrow> x = (y :: 'a :: len word)"
  by (metis xor.assoc xor_self_eq xor.right_neutral)

lemma foldl_fnv_inject:
  "foldl (\<lambda>hash byte. (hash XOR ucast byte) * FNV_PRIME) a p =
   foldl (\<lambda>hash byte. (hash XOR ucast byte) * FNV_PRIME) b (p :: bytes) \<longleftrightarrow> a = b"
  by (induction p arbitrary: a b) (auto simp: FNV_PRIME_cancel xor_cancel)

lemma fold_checksum_inject_prev: "fold_checksum a p = fold_checksum b p \<longleftrightarrow> a = b"
  by (simp add: fold_checksum_def foldl_fnv_inject xor_cancel)

lemma ucast_byte_inject: "(ucast x :: u64) = ucast y \<longleftrightarrow> x = (y :: u8)"
proof -
  have "unat (ucast z :: u64) = unat z" for z :: u8
  proof -
    have "unat z < 2 ^ 64" using unsigned_less [of z, where 'a = nat] by simp
    then show ?thesis by (simp add: unsigned_ucast_eq take_bit_nat_eq_self)
  qed
  then show ?thesis by (metis word_unat_eq_iff)
qed

lemma fold_checksum_inject_byte:
  "fold_checksum a (p @ x # q) = fold_checksum a (p @ y # q) \<longleftrightarrow> x = y"
proof -
  have "h XOR ucast x = h XOR ucast y \<longleftrightarrow> x = y" for h :: u64
    by (metis xor_cancel xor.commute ucast_byte_inject)
  then show ?thesis
    by (simp add: fold_checksum_def foldl_fnv_inject FNV_PRIME_cancel)
qed

subsection \<open>Operations\<close>

text \<open>Awaiting a blocking task: \<open>env_join\<close> is the join error of a task that panicked or was
  cancelled, whose transaction, if it had one, is dropped.\<close>

definition spawn_blocking ::
  "('db, 'wt, 'rt) log_env \<Rightarrow> 'db \<Rightarrow> op_log_error + 'a \<Rightarrow> op_log_error + 'a" where
  "spawn_blocking E db task = (case env_join E db of Some e \<Rightarrow> Inl (Task e) | None \<Rightarrow> task)"

lemma spawn_blocking_Inr [result_simps]:
  "spawn_blocking E db task = Inr x \<longleftrightarrow> env_join E db = None \<and> task = Inr x"
  by (simp add: spawn_blocking_def split: option.split)

definition from_database ::
  "('db, 'wt, 'rt) log_env \<Rightarrow> 'db \<Rightarrow> duration \<Rightarrow> op_log_error + 'db bucket_op_log" where
  "from_database E db ttl =
     and_then (map_err Transaction (db_begin_write E db)) (\<lambda>wtx.
     and_then (map_err Table (wt_open_ops E wtx)) (\<lambda>wtx.
     and_then (map_err Table (wt_open_sums E wtx)) (\<lambda>wtx.
     and_then (map_err Commit (wt_commit E wtx)) (\<lambda>db'.
     Inr \<lparr>ol_db = db', ol_compaction_ttl = ttl\<rparr>))))"

text \<open>\<^verbatim>\<open>open\<close> and \<^verbatim>\<open>in_memory\<close> differ in how the database itself comes into being, which is \<^verbatim>\<open>redb\<close>'s.\<close>

definition open_log ::
  "('db, 'wt, 'rt) log_env \<Rightarrow> (string \<Rightarrow> string + 'db) \<Rightarrow> string \<Rightarrow> duration \<Rightarrow>
   op_log_error + 'db bucket_op_log" where
  "open_log E database_create path ttl =
     and_then (map_err DatabaseOpen (database_create path)) (\<lambda>db. from_database E db ttl)"

definition in_memory ::
  "('db, 'wt, 'rt) log_env \<Rightarrow> (string + 'db) \<Rightarrow> duration \<Rightarrow> op_log_error + 'db bucket_op_log" where
  "in_memory E create_with_backend ttl =
     and_then (map_err DatabaseOpen create_with_backend) (\<lambda>db. from_database E db ttl)"

text \<open>The blocking closure of \<^verbatim>\<open>append\<close>: one write transaction over both tables.\<close>

definition append_txn ::
  "('db, 'wt, 'rt) log_env \<Rightarrow> string \<Rightarrow> u64 \<Rightarrow> bytes \<Rightarrow> 'db \<Rightarrow> op_log_error + 'db" where
  "append_txn E bucket lsn payload db =
     (let key = make_key bucket lsn in
      and_then (map_err Transaction (db_begin_write E db)) (\<lambda>wtx.
      and_then (map_err Table (wt_open_ops E wtx)) (\<lambda>wtx.
      and_then (map_err Storage (wt_insert_op E key payload wtx)) (\<lambda>wtx.
      and_then (map_err Table (wt_open_sums E wtx)) (\<lambda>wtx.
      and_then (map_err Storage (wt_get_sum E (as_bytes bucket) wtx)) (\<lambda>found.
      (let prev = (case found of None \<Rightarrow> 0 | Some v \<Rightarrow> v);
           nxt = fold_checksum prev payload in
       and_then (map_err Storage (wt_insert_sum E (as_bytes bucket) nxt wtx)) (\<lambda>wtx.
       map_err Commit (wt_commit E wtx)))))))))"

definition append_op ::
  "('db, 'wt, 'rt) log_env \<Rightarrow> system_time \<Rightarrow> bucket_id \<Rightarrow> pg_lsn \<Rightarrow> bucket_op \<Rightarrow> 'db \<Rightarrow>
   (sync_error + pg_lsn) \<times> 'db" where
  "append_op E now bucket lsn op db =
     (let stored = \<lparr>so_op = op, so_appended_at_unix_secs = unix_now_secs now\<rparr> in
      case env_encode E stored of
        Inl e \<Rightarrow> (Inl (sync_error_of_op_log (Codec e)), db)
      | Inr payload \<Rightarrow>
          (case spawn_blocking E db (append_txn E (bucket_name bucket) (lsn_u64 lsn) payload db) of
             Inl e \<Rightarrow> (Inl (sync_error_of_op_log e), db)
           | Inr db' \<Rightarrow> (Inr lsn, db')))"

fun drain_loop ::
  "('db, 'wt, 'rt) log_env \<Rightarrow> (string + bytes \<times> bytes) list \<Rightarrow> op_log_error + bucket_op list" where
  "drain_loop E [] = Inr []"
| "drain_loop E (Inl e # rest) = Inl (Storage e)"
| "drain_loop E (Inr (k, v) # rest) =
     (if lsn_from_key k = None then drain_loop E rest
      else and_then (map_err Codec (env_decode E v)) (\<lambda>stored.
           and_then (drain_loop E rest) (\<lambda>out. Inr (so_op stored # out))))"

definition drain_since ::
  "('db, 'wt, 'rt) log_env \<Rightarrow> bucket_id \<Rightarrow> pg_lsn \<Rightarrow> 'db \<Rightarrow> sync_error + bucket_op list" where
  "drain_since E bucket from_lsn db =
     (let range_start = make_range_start (bucket_name bucket) (lsn_u64 from_lsn);
          range_end = make_bucket_range_end (bucket_name bucket) in
      map_err sync_error_of_op_log (spawn_blocking E db
        (and_then (map_err Transaction (db_begin_read E db)) (\<lambda>rtx.
         and_then (map_err Table (rt_open_ops E rtx)) (\<lambda>rtx.
         and_then (map_err Storage (rt_range_ops E range_start range_end rtx)) (\<lambda>entries.
         drain_loop E entries))))))"

definition checksum ::
  "('db, 'wt, 'rt) log_env \<Rightarrow> bucket_id \<Rightarrow> 'db \<Rightarrow> sync_error + bucket_checksum" where
  "checksum E bucket db =
     map_err sync_error_of_op_log (spawn_blocking E db
       (and_then (map_err Transaction (db_begin_read E db)) (\<lambda>rtx.
        and_then (map_err Table (rt_open_sums E rtx)) (\<lambda>rtx.
        and_then (map_err Storage (rt_get_sum E (as_bytes (bucket_name bucket)) rtx)) (\<lambda>found.
        Inr (BucketChecksum (case found of None \<Rightarrow> 0 | Some v \<Rightarrow> v)))))))"

fun compact_scan ::
  "('db, 'wt, 'rt) log_env \<Rightarrow> u64 \<Rightarrow> (string + bytes \<times> bytes) list \<Rightarrow> op_log_error + bytes list" where
  "compact_scan E cutoff [] = Inr []"
| "compact_scan E cutoff (Inl e # rest) = Inl (Storage e)"
| "compact_scan E cutoff (Inr (k, v) # rest) =
     and_then (map_err Codec (env_decode E v)) (\<lambda>stored.
     and_then (compact_scan E cutoff rest) (\<lambda>ks.
     Inr (if so_appended_at_unix_secs stored < cutoff then k # ks else ks)))"

fun compact_remove ::
  "('db, 'wt, 'rt) log_env \<Rightarrow> bytes list \<Rightarrow> 'wt \<Rightarrow> nat \<Rightarrow> op_log_error + 'wt \<times> nat" where
  "compact_remove E [] wtx removed = Inr (wtx, removed)"
| "compact_remove E (k # ks) wtx removed =
     and_then (map_err Storage (wt_remove_op E k wtx)) (\<lambda>wtx. compact_remove E ks wtx (removed + 1))"

definition compact_cutoff :: "system_time \<Rightarrow> duration \<Rightarrow> u64" where
  "compact_cutoff now ttl = saturating_sub (unix_now_secs now) (word_of_nat (as_secs ttl))"

definition compact_txn ::
  "('db, 'wt, 'rt) log_env \<Rightarrow> u64 \<Rightarrow> 'db \<Rightarrow> op_log_error + 'db \<times> nat" where
  "compact_txn E cutoff db =
     and_then (map_err Transaction (db_begin_write E db)) (\<lambda>wtx.
     and_then (map_err Table (wt_open_ops E wtx)) (\<lambda>wtx.
     and_then (map_err Storage (wt_iter_ops E wtx)) (\<lambda>entries.
     and_then (compact_scan E cutoff entries) (\<lambda>keys_to_remove.
     and_then (compact_remove E keys_to_remove wtx 0) (\<lambda>(wtx, removed).
     and_then (map_err Commit (wt_commit E wtx)) (\<lambda>db'.
     Inr (db', removed)))))))"

definition compact_log ::
  "('db, 'wt, 'rt) log_env \<Rightarrow> system_time \<Rightarrow> 'db bucket_op_log \<Rightarrow>
   (sync_error + nat) \<times> 'db bucket_op_log" where
  "compact_log E now log =
     (case spawn_blocking E (ol_db log)
             (compact_txn E (compact_cutoff now (ol_compaction_ttl log)) (ol_db log)) of
        Inl e \<Rightarrow> (Inl (sync_error_of_op_log e), log)
      | Inr (db', removed) \<Rightarrow> (Inr removed, log\<lparr>ol_db := db'\<rparr>))"

subsection \<open>The documented laws of the libraries\<close>

text \<open>
  \<open>redb_view\<close> reads the committed content of a database and the content a transaction sees.
  \<open>enumerates kvs m\<close>: the list holds the entries of \<open>m\<close> in ascending key order. Every law is
  about a call that succeeded; none says that a call succeeds.
\<close>

record ('db, 'wt, 'rt) redb_view =
  vw_ops :: "'db \<Rightarrow> bytes \<rightharpoonup> bytes"
  vw_sums :: "'db \<Rightarrow> bytes \<rightharpoonup> u64"
  vw_wops :: "'wt \<Rightarrow> bytes \<rightharpoonup> bytes"
  vw_wsums :: "'wt \<Rightarrow> bytes \<rightharpoonup> u64"
  vw_rops :: "'rt \<Rightarrow> bytes \<rightharpoonup> bytes"
  vw_rsums :: "'rt \<Rightarrow> bytes \<rightharpoonup> u64"

definition enumerates :: "(bytes \<times> 'v) list \<Rightarrow> (bytes \<rightharpoonup> 'v) \<Rightarrow> bool" where
  "enumerates kvs m \<longleftrightarrow> sorted_wrt (<) (map fst kvs) \<and> map_of kvs = m"

locale redb_store =
  fixes E :: "('db, 'wt, 'rt) log_env" and V :: "('db, 'wt, 'rt) redb_view"
  assumes begin_write_law: "db_begin_write E db = Inr wtx \<Longrightarrow>
      vw_wops V wtx = vw_ops V db \<and> vw_wsums V wtx = vw_sums V db"
    and open_ops_law: "wt_open_ops E wtx = Inr wtx' \<Longrightarrow>
      vw_wops V wtx' = vw_wops V wtx \<and> vw_wsums V wtx' = vw_wsums V wtx"
    and open_sums_law: "wt_open_sums E wtx = Inr wtx' \<Longrightarrow>
      vw_wops V wtx' = vw_wops V wtx \<and> vw_wsums V wtx' = vw_wsums V wtx"
    and insert_op_law: "wt_insert_op E k v wtx = Inr wtx' \<Longrightarrow>
      vw_wops V wtx' = (vw_wops V wtx)(k \<mapsto> v) \<and> vw_wsums V wtx' = vw_wsums V wtx"
    and remove_op_law: "wt_remove_op E k wtx = Inr wtx' \<Longrightarrow>
      vw_wops V wtx' = (vw_wops V wtx)(k := None) \<and> vw_wsums V wtx' = vw_wsums V wtx"
    and iter_law: "wt_iter_ops E wtx = Inr (map Inr kvs) \<Longrightarrow> enumerates kvs (vw_wops V wtx)"
    and get_wsum_law: "wt_get_sum E b wtx = Inr found \<Longrightarrow> found = vw_wsums V wtx b"
    and insert_sum_law: "wt_insert_sum E b c wtx = Inr wtx' \<Longrightarrow>
      vw_wops V wtx' = vw_wops V wtx \<and> vw_wsums V wtx' = (vw_wsums V wtx)(b \<mapsto> c)"
    and commit_law: "wt_commit E wtx = Inr db' \<Longrightarrow>
      vw_ops V db' = vw_wops V wtx \<and> vw_sums V db' = vw_wsums V wtx"
    and begin_read_law: "db_begin_read E db = Inr rtx \<Longrightarrow>
      vw_rops V rtx = vw_ops V db \<and> vw_rsums V rtx = vw_sums V db"
    and ropen_ops_law: "rt_open_ops E rtx = Inr rtx' \<Longrightarrow>
      vw_rops V rtx' = vw_rops V rtx \<and> vw_rsums V rtx' = vw_rsums V rtx"
    and ropen_sums_law: "rt_open_sums E rtx = Inr rtx' \<Longrightarrow>
      vw_rops V rtx' = vw_rops V rtx \<and> vw_rsums V rtx' = vw_rsums V rtx"
    and range_law: "rt_range_ops E lo hi rtx = Inr (map Inr kvs) \<Longrightarrow>
      enumerates kvs (vw_rops V rtx |` {k. lo \<le> k \<and> k < hi})"
    and get_rsum_law: "rt_get_sum E b rtx = Inr found \<Longrightarrow> found = vw_rsums V rtx b"
    and codec_law: "env_encode E s = Inr p \<Longrightarrow> env_decode E p = Inr s"

subsection \<open>The abstract content of a log\<close>

definition log_at ::
  "('db, 'wt, 'rt) log_env \<Rightarrow> ('db, 'wt, 'rt) redb_view \<Rightarrow> 'db \<Rightarrow> string \<Rightarrow> u64 \<rightharpoonup> stored_op" where
  "log_at E V db b l =
     (case vw_ops V db (make_key b l) of
        None \<Rightarrow> None
      | Some v \<Rightarrow> (case env_decode E v of Inl e \<Rightarrow> None | Inr s \<Rightarrow> Some s))"

definition log_sum :: "('db, 'wt, 'rt) redb_view \<Rightarrow> 'db \<Rightarrow> string \<Rightarrow> u64" where
  "log_sum V db b = (case vw_sums V db (as_bytes b) of None \<Rightarrow> 0 | Some c \<Rightarrow> c)"

definition log_inv :: "('db, 'wt, 'rt) log_env \<Rightarrow> ('db, 'wt, 'rt) redb_view \<Rightarrow> 'db \<Rightarrow> bool" where
  "log_inv E V db \<longleftrightarrow> (\<forall>k v. vw_ops V db k = Some v \<longrightarrow>
     (\<exists>b l s. bucket_id_fits b \<and> k = make_key b l \<and> env_decode E v = Inr s))"

text \<open>The reference result of a drain: the positions from \<open>from_lsn\<close> on, below the largest LSN,
  in ascending order.\<close>

definition drain_spec :: "(u64 \<rightharpoonup> stored_op) \<Rightarrow> u64 \<Rightarrow> bucket_op list" where
  "drain_spec m from_lsn =
     map (\<lambda>l. so_op (the (m l))) (sorted_list_of_set {l \<in> dom m. from_lsn \<le> l \<and> l < U64_MAX})"

lemma log_invD:
  "log_inv E V db \<Longrightarrow> vw_ops V db k = Some v \<Longrightarrow>
    \<exists>b l s. bucket_id_fits b \<and> k = make_key b l \<and> env_decode E v = Inr s"
  by (simp add: log_inv_def)

lemma log_at_cong: "vw_ops V db' = vw_ops V db \<Longrightarrow> log_at E V db' = log_at E V db"
  by (simp add: log_at_def fun_eq_iff)

lemma sorted_list_of_set_strict:
  "sorted_wrt (<) xs \<Longrightarrow> set xs = A \<Longrightarrow> sorted_list_of_set A = (xs :: 'a :: linorder list)"
  using sorted_list_of_set.idem_if_sorted_distinct [of xs] by (auto simp: strict_sorted_iff)

lemma enumerates_set: "enumerates kvs m \<Longrightarrow> (k, v) \<in> set kvs \<longleftrightarrow> m k = Some v"
  by (auto simp: enumerates_def strict_sorted_iff)

lemma drain_loop_Inr:
  "drain_loop E es = Inr out \<Longrightarrow> \<exists>kvs. es = map Inr kvs"
proof (induction E es arbitrary: out rule: drain_loop.induct)
  case (3 E k v rest)
  then obtain kvs where "rest = map Inr kvs"
    by (auto simp: result_simps split: if_splits)
  then show ?case by (intro exI [of _ "(k, v) # kvs"]) simp
qed auto

lemma drain_loop_keys:
  assumes "\<And>k v. (k, v) \<in> set kvs \<Longrightarrow> \<exists>b l s. k = make_key b l \<and> env_decode E v = Inr s"
  shows "drain_loop E (map Inr kvs) = Inr (map (\<lambda>(k, v). so_op (projr (env_decode E v))) kvs)"
  using assms by (induction kvs) fastforce+

lemma compact_scan_Inr:
  "compact_scan E cutoff es = Inr ks \<Longrightarrow> \<exists>kvs. es = map Inr kvs \<and>
     (\<forall>(k, v) \<in> set kvs. \<exists>s. env_decode E v = Inr s) \<and>
     ks = map fst (filter (\<lambda>(k, v). so_appended_at_unix_secs (projr (env_decode E v)) < cutoff) kvs)"
proof (induction E cutoff es arbitrary: ks rule: compact_scan.induct)
  case (3 E cutoff k v rest)
  then obtain s ks' where s: "env_decode E v = Inr s" and rest: "compact_scan E cutoff rest = Inr ks'"
    and ks: "ks = (if so_appended_at_unix_secs s < cutoff then k # ks' else ks')"
    by (auto simp: result_simps)
  from "3.IH" [OF rest] obtain kvs where "rest = map Inr kvs"
    "\<forall>(k, v) \<in> set kvs. \<exists>s. env_decode E v = Inr s"
    "ks' = map fst (filter (\<lambda>(k, v). so_appended_at_unix_secs (projr (env_decode E v)) < cutoff) kvs)"
    by auto
  with s ks show ?case by (intro exI [of _ "(k, v) # kvs"]) simp
qed auto

context redb_store
begin

lemma append_txn_effect:
  assumes "append_txn E b l p db = Inr db'"
  shows "vw_ops V db' = (vw_ops V db)(make_key b l \<mapsto> p)"
    and "vw_sums V db' = (vw_sums V db)(as_bytes b \<mapsto> fold_checksum (log_sum V db b) p)"
proof -
  from assms obtain t0 t1 t2 t3 found t4 where steps:
    "db_begin_write E db = Inr t0" "wt_open_ops E t0 = Inr t1"
    "wt_insert_op E (make_key b l) p t1 = Inr t2" "wt_open_sums E t2 = Inr t3"
    "wt_get_sum E (as_bytes b) t3 = Inr found"
    "wt_insert_sum E (as_bytes b) (fold_checksum (case found of None \<Rightarrow> 0 | Some v \<Rightarrow> v) p) t3 = Inr t4"
    "wt_commit E t4 = Inr db'"
    by (auto simp: append_txn_def Let_def result_simps)
  note laws = begin_write_law [OF steps(1)] open_ops_law [OF steps(2)] insert_op_law [OF steps(3)]
    open_sums_law [OF steps(4)] get_wsum_law [OF steps(5)] insert_sum_law [OF steps(6)]
    commit_law [OF steps(7)]
  from laws show "vw_ops V db' = (vw_ops V db)(make_key b l \<mapsto> p)"
    by simp
  from laws show "vw_sums V db' = (vw_sums V db)(as_bytes b \<mapsto> fold_checksum (log_sum V db b) p)"
    by (simp add: log_sum_def)
qed

lemma append_Inr:
  assumes "append_op E now b lsn op db = (Inr r, db')"
  obtains p where "r = lsn"
    and "env_encode E \<lparr>so_op = op, so_appended_at_unix_secs = unix_now_secs now\<rparr> = Inr p"
    and "append_txn E (bucket_name b) (lsn_u64 lsn) p db = Inr db'"
  using assms that by (auto simp: append_op_def Let_def result_simps split: sum.splits)

lemma append_fails_unchanged: "append_op E now b lsn op db = (Inl e, db') \<Longrightarrow> db' = db"
  by (auto simp: append_op_def Let_def split: sum.splits)

lemma append_log_at:
  assumes app: "append_op E now b lsn op db = (Inr r, db')"
    and fits: "bucket_id_fits (bucket_name b)" "bucket_id_fits b'"
  shows "log_at E V db' b' l =
    (if b' = bucket_name b \<and> l = lsn_u64 lsn
     then Some \<lparr>so_op = op, so_appended_at_unix_secs = unix_now_secs now\<rparr> else log_at E V db b' l)"
  using app
proof (rule append_Inr)
  fix p
  assume enc: "env_encode E \<lparr>so_op = op, so_appended_at_unix_secs = unix_now_secs now\<rparr> = Inr p"
    and txn: "append_txn E (bucket_name b) (lsn_u64 lsn) p db = Inr db'"
  show ?thesis
    using append_txn_effect(1) [OF txn] codec_law [OF enc] make_key_inject [OF fits(2,1)]
    by (simp add: log_at_def)
qed

lemma append_log_sum:
  assumes app: "append_op E now b lsn op db = (Inr r, db')"
  shows "\<exists>p. env_encode E \<lparr>so_op = op, so_appended_at_unix_secs = unix_now_secs now\<rparr> = Inr p \<and>
    log_sum V db' = (log_sum V db)(bucket_name b := fold_checksum (log_sum V db (bucket_name b)) p)"
  using app
proof (rule append_Inr)
  fix p
  assume enc: "env_encode E \<lparr>so_op = op, so_appended_at_unix_secs = unix_now_secs now\<rparr> = Inr p"
    and txn: "append_txn E (bucket_name b) (lsn_u64 lsn) p db = Inr db'"
  show ?thesis
    using enc append_txn_effect(2) [OF txn] by (auto simp: log_sum_def fun_eq_iff)
qed

lemma append_inv:
  assumes inv: "log_inv E V db" and fits: "bucket_id_fits (bucket_name b)"
  shows "log_inv E V (snd (append_op E now b lsn op db))"
proof (cases "append_op E now b lsn op db")
  case (Pair res db')
  show ?thesis
  proof (cases res)
    case (Inl e)
    with Pair inv show ?thesis by (auto dest: append_fails_unchanged)
  next
    case (Inr r)
    with Pair have app: "append_op E now b lsn op db = (Inr r, db')" by simp
    then obtain p where
        "env_encode E \<lparr>so_op = op, so_appended_at_unix_secs = unix_now_secs now\<rparr> = Inr p"
      and "append_txn E (bucket_name b) (lsn_u64 lsn) p db = Inr db'"
      by (rule append_Inr)
    with inv fits show ?thesis
      by (auto simp: app log_inv_def append_txn_effect codec_law)
  qed
qed

text \<open>A range scan of a bucket returns the bucket's positions, ascending.\<close>

lemma range_entry:
  assumes inv: "log_inv E V db" and fits: "bucket_id_fits b"
    and en: "enumerates kvs
      (vw_ops V db |` {k. make_range_start b f \<le> k \<and> k < make_bucket_range_end b})"
    and kv: "(k, v) \<in> set kvs"
  shows "\<exists>l s. k = make_key b l \<and> f \<le> l \<and> l < U64_MAX \<and>
    env_decode E v = Inr s \<and> log_at E V db b l = Some s"
proof -
  from kv have k: "vw_ops V db k = Some v"
    and rng: "make_range_start b f \<le> k \<and> k < make_bucket_range_end b"
    by (simp_all add: enumerates_set [OF en] restrict_map_def split: if_splits)
  from log_invD [OF inv k] obtain b' l s where
    b': "bucket_id_fits b'" "k = make_key b' l" "env_decode E v = Inr s" by blast
  with rng have "b' = b" "f \<le> l" "l < U64_MAX"
    using key_in_range_iff [OF fits b'(1), of f l] by simp_all
  with b' k show ?thesis by (auto simp: log_at_def)
qed

lemma range_positions:
  assumes inv: "log_inv E V db" and fits: "bucket_id_fits b"
    and en: "enumerates kvs
      (vw_ops V db |` {k. make_range_start b f \<le> k \<and> k < make_bucket_range_end b})"
  defines "lsn \<equiv> \<lambda>(k :: bytes, v :: bytes). the (lsn_from_key k)"
  shows "map lsn kvs = sorted_list_of_set {l \<in> dom (log_at E V db b). f \<le> l \<and> l < U64_MAX}"
proof -
  note entry = range_entry [OF inv fits en]
  have "sorted_wrt (\<lambda>x y. fst x < fst y) kvs"
    using en by (simp add: enumerates_def sorted_wrt_map)
  moreover have "lsn x < lsn y" if "x \<in> set kvs" "y \<in> set kvs" "fst x < fst y" for x y
    using entry [of "fst x" "snd x"] entry [of "fst y" "snd y"] that
    by (auto simp: lsn_def case_prod_unfold)
  ultimately have "sorted_wrt (\<lambda>x y. lsn x < lsn y) kvs"
    by (rule sorted_wrt_mono_rel [rotated])
  then have sorted: "sorted_wrt (<) (map lsn kvs)"
    by (simp add: sorted_wrt_map)
  have "l \<in> lsn ` set kvs" if "f \<le> l" "l < U64_MAX" "log_at E V db b l = Some s" for l s
  proof -
    from that(3) obtain v where "vw_ops V db (make_key b l) = Some v"
      by (auto simp: log_at_def split: option.splits)
    with that have "(make_key b l, v) \<in> set kvs"
      using key_in_range_iff [OF fits fits, of f l] by (simp add: enumerates_set [OF en])
    then show ?thesis by (rule rev_image_eqI) (simp add: lsn_def)
  qed
  moreover have "l \<in> {l \<in> dom (log_at E V db b). f \<le> l \<and> l < U64_MAX}" if "l \<in> lsn ` set kvs" for l
    using that entry by (fastforce simp: lsn_def)
  ultimately have "set (map lsn kvs) = {l \<in> dom (log_at E V db b). f \<le> l \<and> l < U64_MAX}"
    unfolding set_map by (blast dest: domD)
  from sorted_list_of_set_strict [OF sorted this] show ?thesis by simp
qed

lemma drain_since_spec:
  assumes inv: "log_inv E V db" and fits: "bucket_id_fits (bucket_name b)"
    and drain: "drain_since E b from_lsn db = Inr out"
  shows "out = drain_spec (log_at E V db (bucket_name b)) (lsn_u64 from_lsn)"
proof -
  let ?b = "bucket_name b" and ?f = "lsn_u64 from_lsn"
  let ?lo = "make_range_start ?b ?f" and ?hi = "make_bucket_range_end ?b"
  from drain obtain t0 t1 es where steps:
    "db_begin_read E db = Inr t0" "rt_open_ops E t0 = Inr t1"
    "rt_range_ops E ?lo ?hi t1 = Inr es" "drain_loop E es = Inr out"
    by (auto simp: drain_since_def Let_def result_simps)
  from drain_loop_Inr [OF steps(4)] obtain kvs where es: "es = map Inr kvs" by auto
  have en: "enumerates kvs (vw_ops V db |` {k. ?lo \<le> k \<and> k < ?hi})"
    using range_law [OF steps(3) [unfolded es]] begin_read_law [OF steps(1)]
      ropen_ops_law [OF steps(2)]
    by simp
  note entry = range_entry [OF inv fits en]
  have "drain_loop E (map Inr kvs) = Inr (map (\<lambda>(k, v). so_op (projr (env_decode E v))) kvs)"
    by (rule drain_loop_keys) (meson entry)
  then have "out = map (\<lambda>(k, v). so_op (projr (env_decode E v))) kvs"
    using steps(4) by (simp add: es)
  also have "\<dots> = map (\<lambda>l. so_op (the (log_at E V db ?b l))) (map (\<lambda>(k, v). the (lsn_from_key k)) kvs)"
    using entry by fastforce
  finally show ?thesis
    by (simp only: drain_spec_def range_positions [OF inv fits en])
qed

lemma checksum_spec:
  "checksum E b db = Inr c \<Longrightarrow> c = BucketChecksum (log_sum V db (bucket_name b))"
  by (auto simp: checksum_def result_simps log_sum_def
      dest!: begin_read_law ropen_sums_law get_rsum_law)

lemma compact_remove_effect:
  "compact_remove E ks t n = Inr (t', n') \<Longrightarrow>
    vw_wops V t' = vw_wops V t |` (- set ks) \<and> vw_wsums V t' = vw_wsums V t \<and> n' = n + length ks"
proof (induction ks arbitrary: t n)
  case Nil
  then show ?case by auto
next
  case (Cons k ks)
  then obtain u where u: "wt_remove_op E k t = Inr u" "compact_remove E ks u (n + 1) = Inr (t', n')"
    by (auto simp: result_simps)
  from remove_op_law [OF u(1)] Cons.IH [OF u(2)] show ?case
    by (auto simp: restrict_map_def fun_eq_iff)
qed

lemma compact_effect:
  assumes txn: "compact_txn E cutoff db = Inr (db', n)"
  defines "old \<equiv> {k. \<exists>v s. vw_ops V db k = Some v \<and> env_decode E v = Inr s \<and>
      so_appended_at_unix_secs s < cutoff}"
  shows "vw_ops V db' = vw_ops V db |` (- old)" and "vw_sums V db' = vw_sums V db"
    and "n = card old"
proof -
  from txn obtain t0 t1 es ks t2 where steps:
    "db_begin_write E db = Inr t0" "wt_open_ops E t0 = Inr t1" "wt_iter_ops E t1 = Inr es"
    "compact_scan E cutoff es = Inr ks" "compact_remove E ks t1 0 = Inr (t2, n)"
    "wt_commit E t2 = Inr db'"
    by (auto simp: compact_txn_def result_simps)
  from compact_scan_Inr [OF steps(4)] obtain kvs where es: "es = map Inr kvs"
    and dec: "\<forall>(k, v) \<in> set kvs. \<exists>s. env_decode E v = Inr s"
    and ks: "ks = map fst (filter (\<lambda>(k, v). so_appended_at_unix_secs (projr (env_decode E v)) < cutoff) kvs)"
    by auto
  have en: "enumerates kvs (vw_ops V db)"
    using iter_law [OF steps(3) [unfolded es]] begin_write_law [OF steps(1)]
      open_ops_law [OF steps(2)] by simp
  have "set ks = old"
    using dec by (fastforce simp: ks old_def image_iff enumerates_set [OF en, symmetric])
  moreover have "distinct ks"
    using en by (auto simp: ks enumerates_def strict_sorted_iff distinct_map intro: inj_on_subset)
  ultimately show "vw_ops V db' = vw_ops V db |` (- old)" "vw_sums V db' = vw_sums V db" "n = card old"
    using compact_remove_effect [OF steps(5)] begin_write_law [OF steps(1)]
      open_ops_law [OF steps(2)] commit_law [OF steps(6)]
    by (simp_all add: distinct_card [symmetric])
qed

lemma compact_log_at:
  assumes txn: "compact_txn E cutoff db = Inr (db', n)"
  shows "log_at E V db' b l =
    (case log_at E V db b l of
       None \<Rightarrow> None
     | Some s \<Rightarrow> if so_appended_at_unix_secs s < cutoff then None else Some s)"
  by (auto simp: log_at_def compact_effect(1) [OF txn] restrict_map_def
      split: option.splits sum.splits)

lemma compact_inv:
  assumes "log_inv E V db" and txn: "compact_txn E cutoff db = Inr (db', n)"
  shows "log_inv E V db'"
  using assms(1) by (auto simp: log_inv_def compact_effect(1) [OF txn] restrict_map_def split: if_splits)

end

subsection \<open>The contract of the log for its clients\<close>

text \<open>
  What the router and the gateway rely on, free of keys, transactions and codecs. Inside the
  contract: an appended op is seen by every later drain that reaches its LSN, an append
  leaves the other buckets' drains alone, and when every op carries the LSN it is stored
  at, a drain is strictly ascending and a drain from the next LSN is what follows.
\<close>

definition log_labelled :: "(string \<Rightarrow> u64 \<rightharpoonup> stored_op) \<Rightarrow> bool" where
  "log_labelled at \<longleftrightarrow>
     (\<forall>b l s. bucket_id_fits b \<longrightarrow> at b l = Some s \<longrightarrow>
        bo_lsn (so_op s) = PgLsn l \<and> bo_bucket_id (so_op s) = BucketId b)"

lemma set_drain_spec:
  "set (drain_spec m f) = {so_op s | l s. m l = Some s \<and> f \<le> l \<and> l < U64_MAX}"
  by (force simp: drain_spec_def)

lemma drain_spec_lsns:
  assumes "\<And>l s. m l = Some s \<Longrightarrow> bo_lsn (so_op s) = PgLsn l"
  shows "map (lsn_u64 \<circ> bo_lsn) (drain_spec m f) =
    sorted_list_of_set {l \<in> dom m. f \<le> l \<and> l < U64_MAX}"
proof -
  have "map (\<lambda>l. lsn_u64 (bo_lsn (so_op (the (m l))))) (sorted_list_of_set {l \<in> dom m. f \<le> l \<and> l < U64_MAX}) =
      map id (sorted_list_of_set {l \<in> dom m. f \<le> l \<and> l < U64_MAX})"
    by (rule map_cong) (auto simp: assms)
  then show ?thesis by (simp add: drain_spec_def comp_def)
qed

lemma drain_spec_filter: "f \<le> g \<Longrightarrow> drain_spec m g =
    map (\<lambda>l. so_op (the (m l)))
      (filter (\<lambda>l. g \<le> l) (sorted_list_of_set {l \<in> dom m. f \<le> l \<and> l < U64_MAX}))"
proof -
  assume "f \<le> g"
  let ?xs = "filter (\<lambda>l. g \<le> l) (sorted_list_of_set {l \<in> dom m. f \<le> l \<and> l < U64_MAX})"
  have "sorted_list_of_set {l \<in> dom m. g \<le> l \<and> l < U64_MAX} = ?xs"
    by (rule sorted_list_of_set_strict) (use \<open>f \<le> g\<close> in \<open>auto simp: sorted_wrt_filter\<close>)
  then show ?thesis by (simp add: drain_spec_def)
qed

locale op_log =
  fixes append :: "system_time \<Rightarrow> bucket_id \<Rightarrow> pg_lsn \<Rightarrow> bucket_op \<Rightarrow> 'db \<Rightarrow> (sync_error + pg_lsn) \<times> 'db"
    and drain :: "bucket_id \<Rightarrow> pg_lsn \<Rightarrow> 'db \<Rightarrow> sync_error + bucket_op list"
    and inv :: "'db \<Rightarrow> bool"
    and at :: "'db \<Rightarrow> string \<Rightarrow> u64 \<rightharpoonup> stored_op"
  assumes contract_inv: "inv db \<Longrightarrow> bucket_id_fits (bucket_name b) \<Longrightarrow> inv (snd (append now b lsn op db))"
    and contract_append: "append now b lsn op db = (Inr r, db') \<Longrightarrow>
      bucket_id_fits (bucket_name b) \<Longrightarrow> bucket_id_fits b' \<Longrightarrow>
      r = lsn \<and> at db' b' l = (if b' = bucket_name b \<and> l = lsn_u64 lsn
        then Some \<lparr>so_op = op, so_appended_at_unix_secs = unix_now_secs now\<rparr> else at db b' l)"
    and contract_error: "append now b lsn op db = (Inl e, db') \<Longrightarrow> db' = db"
    and contract_drain: "inv db \<Longrightarrow> bucket_id_fits (bucket_name b) \<Longrightarrow>
      drain b from_lsn db = Inr out \<Longrightarrow> out = drain_spec (at db (bucket_name b)) (lsn_u64 from_lsn)"
begin

lemma appended_is_drained:
  assumes "append now b lsn op db = (Inr r, db')" and "drain b from_lsn db' = Inr out"
    and "inv db" "bucket_id_fits (bucket_name b)" "from_lsn \<le> lsn" "lsn < PgLsn U64_MAX"
  shows "op \<in> set out"
proof -
  have "inv db'"
    using contract_inv [OF assms(3,4), of now lsn op] by (simp add: assms(1))
  from contract_drain [OF this assms(4,2)] show ?thesis
    using contract_append [OF assms(1,4,4), of "lsn_u64 lsn"] assms(5,6)
    by (force simp: set_drain_spec less_eq_pg_lsn_def less_pg_lsn_def)
qed

lemma append_keeps_other_buckets:
  assumes "append now b lsn op db = (res, db')" and "bucket_id_fits (bucket_name b)"
    and "bucket_id_fits b'" "b' \<noteq> bucket_name b"
  shows "at db' b' = at db b'"
proof (cases res)
  case (Inl e)
  with assms(1) show ?thesis by (auto dest: contract_error)
next
  case (Inr r)
  with assms(1) have app: "append now b lsn op db = (Inr r, db')" by simp
  show ?thesis
    using contract_append [OF app assms(2,3)] assms(4) by (simp add: fun_eq_iff)
qed

lemma drain_ascending:
  assumes "inv db" "bucket_id_fits (bucket_name b)" "drain b from_lsn db = Inr out"
    and "log_labelled (at db)"
  shows "sorted_wrt (<) (map bo_lsn out)"
    and "\<And>x. x \<in> set out \<Longrightarrow> from_lsn \<le> bo_lsn x \<and> bo_bucket_id x = b"
proof -
  have out: "out = drain_spec (at db (bucket_name b)) (lsn_u64 from_lsn)"
    by (rule contract_drain [OF assms(1-3)])
  have lab: "at db (bucket_name b) l = Some s \<Longrightarrow> bo_lsn (so_op s) = PgLsn l \<and> bo_bucket_id (so_op s) = b"
    for l s using assms(2,4) by (cases b) (simp add: log_labelled_def)
  have "sorted_wrt (<) (map (lsn_u64 \<circ> bo_lsn) out)"
    unfolding out by (subst drain_spec_lsns) (use lab in auto)
  then show "sorted_wrt (<) (map bo_lsn out)"
    by (simp add: sorted_wrt_map less_pg_lsn_def)
  show "from_lsn \<le> bo_lsn x \<and> bo_bucket_id x = b" if "x \<in> set out" for x
    using that lab by (auto simp: out set_drain_spec less_eq_pg_lsn_def)
qed

end

sublocale redb_store \<subseteq> contract: op_log "append_op E" "drain_since E" "log_inv E V" "log_at E V"
proof
  show "log_inv E V (snd (append_op E now b lsn op db))"
    if "log_inv E V db" "bucket_id_fits (bucket_name b)" for db b now lsn op
    using that by (rule append_inv)
  show "r = lsn \<and> log_at E V db' b' l = (if b' = bucket_name b \<and> l = lsn_u64 lsn
      then Some \<lparr>so_op = op, so_appended_at_unix_secs = unix_now_secs now\<rparr> else log_at E V db b' l)"
    if "append_op E now b lsn op db = (Inr r, db')" "bucket_id_fits (bucket_name b)" "bucket_id_fits b'"
    for now b lsn op db r db' b' l
    using append_log_at [OF that, of l] append_Inr [OF that(1)] by metis
  show "db' = db" if "append_op E now b lsn op db = (Inl e, db')" for now b lsn op db e db'
    using that by (rule append_fails_unchanged)
  show "out = drain_spec (log_at E V db (bucket_name b)) (lsn_u64 from_lsn)"
    if "log_inv E V db" "bucket_id_fits (bucket_name b)" "drain_since E b from_lsn db = Inr out"
    for db b from_lsn out
    using that by (rule drain_since_spec)
qed

subsection \<open>A store without faults\<close>

text \<open>When no library call fails, appending succeeds for every op the codec encodes, and
  draining and reading the checksum always return.\<close>

locale redb_healthy = redb_store +
  assumes join_ok: "env_join E db = None"
    and begin_write_ok: "\<exists>t. db_begin_write E db = Inr t"
    and open_ops_ok: "\<exists>t. wt_open_ops E wtx = Inr t"
    and open_sums_ok: "\<exists>t. wt_open_sums E wtx = Inr t"
    and insert_op_ok: "\<exists>t. wt_insert_op E k v wtx = Inr t"
    and get_wsum_ok: "\<exists>c. wt_get_sum E b wtx = Inr c"
    and insert_sum_ok: "\<exists>t. wt_insert_sum E b c wtx = Inr t"
    and commit_ok: "\<exists>db. wt_commit E wtx = Inr db"
    and begin_read_ok: "\<exists>t. db_begin_read E db = Inr t"
    and ropen_ops_ok: "\<exists>t. rt_open_ops E rtx = Inr t"
    and ropen_sums_ok: "\<exists>t. rt_open_sums E rtx = Inr t"
    and range_ok: "\<exists>kvs. rt_range_ops E lo hi rtx = Inr (map Inr kvs)"
    and get_rsum_ok: "\<exists>c. rt_get_sum E b rtx = Inr c"
begin

lemma append_total:
  assumes "env_encode E \<lparr>so_op = op, so_appended_at_unix_secs = unix_now_secs now\<rparr> = Inr p"
  shows "\<exists>db'. append_op E now b lsn op db = (Inr lsn, db')"
proof -
  obtain t0 where t0: "db_begin_write E db = Inr t0" using begin_write_ok by blast
  obtain t1 where t1: "wt_open_ops E t0 = Inr t1" using open_ops_ok by blast
  obtain t2 where t2: "wt_insert_op E (make_key (bucket_name b) (lsn_u64 lsn)) p t1 = Inr t2"
    using insert_op_ok by blast
  obtain t3 where t3: "wt_open_sums E t2 = Inr t3" using open_sums_ok by blast
  obtain c where c: "wt_get_sum E (as_bytes (bucket_name b)) t3 = Inr c" using get_wsum_ok by blast
  obtain t4 where t4: "wt_insert_sum E (as_bytes (bucket_name b))
      (fold_checksum (case c of None \<Rightarrow> 0 | Some v \<Rightarrow> v) p) t3 = Inr t4"
    using insert_sum_ok by blast
  obtain db' where "wt_commit E t4 = Inr db'" using commit_ok by blast
  then show ?thesis
    by (simp add: append_op_def append_txn_def spawn_blocking_def join_ok assms t0 t1 t2 t3 c t4)
qed

lemma drain_total:
  assumes inv: "log_inv E V db" and fits: "bucket_id_fits (bucket_name b)"
  shows "drain_since E b from_lsn db =
    Inr (drain_spec (log_at E V db (bucket_name b)) (lsn_u64 from_lsn))"
proof -
  let ?lo = "make_range_start (bucket_name b) (lsn_u64 from_lsn)"
    and ?hi = "make_bucket_range_end (bucket_name b)"
  obtain t0 where t0: "db_begin_read E db = Inr t0" using begin_read_ok by blast
  obtain t1 where t1: "rt_open_ops E t0 = Inr t1" using ropen_ops_ok by blast
  obtain kvs where r: "rt_range_ops E ?lo ?hi t1 = Inr (map Inr kvs)" using range_ok by blast
  have en: "enumerates kvs (vw_ops V db |` {k. ?lo \<le> k \<and> k < ?hi})"
    using range_law [OF r] begin_read_law [OF t0] ropen_ops_law [OF t1] by simp
  have "\<exists>out. drain_loop E (map Inr kvs) = Inr out"
    using drain_loop_keys [of kvs E] range_entry [OF inv fits en] by meson
  then obtain out where "drain_since E b from_lsn db = Inr out"
    by (auto simp: drain_since_def spawn_blocking_def join_ok t0 t1 r)
  with drain_since_spec [OF inv fits this] show ?thesis by simp
qed

lemma checksum_total: "checksum E b db = Inr (BucketChecksum (log_sum V db (bucket_name b)))"
proof -
  obtain t0 where t0: "db_begin_read E db = Inr t0" using begin_read_ok by blast
  obtain t1 where t1: "rt_open_sums E t0 = Inr t1" using ropen_sums_ok by blast
  obtain c where "rt_get_sum E (as_bytes (bucket_name b)) t1 = Inr c" using get_rsum_ok by blast
  then obtain c' where "checksum E b db = Inr c'"
    by (simp add: checksum_def spawn_blocking_def join_ok t0 t1)
  with checksum_spec show ?thesis by simp
qed

end

end
