(* ===== verification/Op_Log_Reference.thy ===== *)
theory Op_Log_Reference
  imports Op_Log
begin

section \<open>A reference store and the properties of the op log\<close>

text \<open>
  \<open>mem_env\<close> is an executable store that satisfies every law of \<open>redb_healthy\<close>: tables are
  association lists, a transaction is a copy, and the codec writes length-free delimited
  fields for the ops it supports. It interprets the locales, so that their laws are known
  to hold together, and it runs the witnesses. The properties of the log itself are stated
  here for every store that obeys the laws.
\<close>

subsection \<open>Codec\<close>

fun put_bytes :: "bytes \<Rightarrow> bytes" where
  "put_bytes [] = [0]"
| "put_bytes (b # bs) = 1 # b # put_bytes bs"

fun take_bytes :: "bytes \<Rightarrow> (bytes \<times> bytes) option" where
  "take_bytes [] = None"
| "take_bytes [t] = (if t = 0 then Some ([], []) else None)"
| "take_bytes (t # b # rest) =
     (if t = 0 then Some ([], b # rest)
      else map_option (\<lambda>(bs, rest'). (b # bs, rest')) (take_bytes rest))"

lemma take_put_bytes [simp]: "take_bytes (put_bytes bs @ rest) = Some (bs, rest)"
proof (induction bs)
  case Nil
  show ?case by (cases rest) auto
qed auto

definition string_of_bytes :: "bytes \<Rightarrow> string" where
  "string_of_bytes bs = map (\<lambda>b. char_of (unat b)) bs"

lemma char_byte_roundtrip: "char_of (unat (word_of_nat (of_char c) :: u8)) = c"
  using of_char_lt [of c] by (simp add: unat_of_nat)

lemma string_of_as_bytes [simp]: "string_of_bytes (as_bytes s) = s"
  by (simp add: string_of_bytes_def as_bytes_def comp_def char_byte_roundtrip)

definition put_u64 :: "u64 \<Rightarrow> bytes" where
  "put_u64 w = put_bytes (u64_to_be_bytes w)"

definition put_string :: "string \<Rightarrow> bytes" where
  "put_string s = put_bytes (as_bytes s)"

definition take_u64 :: "bytes \<Rightarrow> string + u64 \<times> bytes" where
  "take_u64 bs = map_sum id (apfst u64_from_be_bytes) (ok_or ''truncated'' (take_bytes bs))"

definition take_string :: "bytes \<Rightarrow> string + string \<times> bytes" where
  "take_string bs = map_sum id (apfst string_of_bytes) (ok_or ''truncated'' (take_bytes bs))"

lemma take_put_u64 [simp]: "take_u64 (put_u64 w @ rest) = Inr (w, rest)"
  by (simp add: take_u64_def put_u64_def)

lemma take_put_string [simp]: "take_string (put_string s @ rest) = Inr (s, rest)"
  by (simp add: take_string_def put_string_def)

lemma take_put_string_end [simp]: "take_string (put_string s) = Inr (s, [])"
  using take_put_string [of s "[]"] by simp

fun put_kind :: "bucket_op_kind \<Rightarrow> string + bytes" where
  "put_kind Delete = Inr [0]"
| "put_kind (CrdtPatch bs) = Inr (1 # bs)"
| "put_kind (Upsert JNull) = Inr [2]"
| "put_kind (Upsert (JString s)) = Inr (3 # put_string s)"
| "put_kind (Upsert _) = Inl ''unsupported payload''"

fun take_kind :: "bytes \<Rightarrow> string + bucket_op_kind" where
  "take_kind [] = Inl ''truncated''"
| "take_kind (t # bs) =
     (if t = 0 then Inr Delete
      else if t = 1 then Inr (CrdtPatch bs)
      else if t = 2 then Inr (Upsert JNull)
      else and_then (take_string bs) (\<lambda>(s, rest). Inr (Upsert (JString s))))"

lemma take_put_kind: "put_kind k = Inr bs \<Longrightarrow> take_kind bs = Inr k"
  by (induction k rule: put_kind.induct) auto

definition mem_encode :: "stored_op \<Rightarrow> string + bytes" where
  "mem_encode s =
     and_then (put_kind (bo_op (so_op s))) (\<lambda>k.
     Inr (put_u64 (so_appended_at_unix_secs s) @ put_u64 (lsn_u64 (bo_lsn (so_op s))) @
          put_string (bucket_name (bo_bucket_id (so_op s))) @
          put_string (bo_entity_type (so_op s)) @ put_string (bo_entity_id (so_op s)) @ k))"

definition mem_decode :: "bytes \<Rightarrow> string + stored_op" where
  "mem_decode bs =
     and_then (take_u64 bs) (\<lambda>(at, bs).
     and_then (take_u64 bs) (\<lambda>(lsn, bs).
     and_then (take_string bs) (\<lambda>(b, bs).
     and_then (take_string bs) (\<lambda>(ty, bs).
     and_then (take_string bs) (\<lambda>(i, bs).
     and_then (take_kind bs) (\<lambda>k.
     Inr \<lparr>so_op = \<lparr>bo_lsn = PgLsn lsn, bo_bucket_id = BucketId b, bo_entity_type = ty,
                    bo_entity_id = i, bo_op = k\<rparr>, so_appended_at_unix_secs = at\<rparr>))))))"

lemma mem_decode_encode: "mem_encode s = Inr p \<Longrightarrow> mem_decode p = Inr s"
  by (auto simp: mem_encode_def mem_decode_def result_simps take_put_kind)

subsection \<open>Tables\<close>

record mem_db =
  mem_ops :: "(bytes \<times> bytes) list"
  mem_sums :: "(bytes \<times> u64) list"

definition table_list :: "(bytes \<times> 'v) list \<Rightarrow> (bytes \<times> 'v) list" where
  "table_list t = map (\<lambda>k. (k, the (map_of t k))) (sort (remdups (map fst t)))"

lemma enumerates_table_list: "enumerates (table_list t) (map_of t)"
proof -
  have "map_of (table_list t) = (Some \<circ> (\<lambda>k. the (map_of t k))) |` (fst ` set t)"
    unfolding table_list_def by (subst map_of_map_restrict) simp
  also have "\<dots> = map_of t"
  proof
    show "((Some \<circ> (\<lambda>k. the (map_of t k))) |` (fst ` set t)) k = map_of t k" for k
      using map_of_eq_None_iff [of t k] by (cases "map_of t k") (auto simp: restrict_map_def)
  qed
  finally show ?thesis
    by (simp add: enumerates_def table_list_def comp_def strict_sorted_iff)
qed

definition table_range :: "bytes \<Rightarrow> bytes \<Rightarrow> (bytes \<times> 'v) list \<Rightarrow> (bytes \<times> 'v) list" where
  "table_range lo hi t = filter (\<lambda>(k, v). lo \<le> k \<and> k < hi) t"

lemma enumerates_table_range:
  "enumerates (table_list (table_range lo hi t)) (map_of t |` {k. lo \<le> k \<and> k < hi})"
proof -
  have "table_range lo hi t = AList.restrict {k. lo \<le> k \<and> k < hi} t"
    by (simp add: table_range_def AList.restrict_eq)
  then show ?thesis
    using enumerates_table_list [of "table_range lo hi t"] by (simp add: restr_conv')
qed

definition mem_env :: "(mem_db, mem_db, mem_db) log_env" where
  "mem_env =
     \<lparr>db_begin_write = Inr, wt_open_ops = Inr, wt_open_sums = Inr,
      wt_insert_op = (\<lambda>k v t. Inr (t\<lparr>mem_ops := AList.update k v (mem_ops t)\<rparr>)),
      wt_remove_op = (\<lambda>k t. Inr (t\<lparr>mem_ops := AList.delete k (mem_ops t)\<rparr>)),
      wt_iter_ops = (\<lambda>t. Inr (map Inr (table_list (mem_ops t)))),
      wt_get_sum = (\<lambda>b t. Inr (map_of (mem_sums t) b)),
      wt_insert_sum = (\<lambda>b c t. Inr (t\<lparr>mem_sums := AList.update b c (mem_sums t)\<rparr>)),
      wt_commit = Inr, db_begin_read = Inr, rt_open_ops = Inr, rt_open_sums = Inr,
      rt_range_ops = (\<lambda>lo hi t.
        Inr (map Inr (table_list (table_range lo hi (mem_ops t))))),
      rt_get_sum = (\<lambda>b t. Inr (map_of (mem_sums t) b)),
      env_join = (\<lambda>db. None), env_encode = mem_encode, env_decode = mem_decode\<rparr>"

definition mem_view :: "(mem_db, mem_db, mem_db) redb_view" where
  "mem_view =
     \<lparr>vw_ops = map_of \<circ> mem_ops, vw_sums = map_of \<circ> mem_sums, vw_wops = map_of \<circ> mem_ops,
      vw_wsums = map_of \<circ> mem_sums, vw_rops = map_of \<circ> mem_ops, vw_rsums = map_of \<circ> mem_sums\<rparr>"

interpretation mem: redb_healthy mem_env mem_view
  by unfold_locales
    (auto simp: mem_env_def mem_view_def mem_decode_encode update_conv' delete_conv'
      enumerates_table_list enumerates_table_range)

definition mem_empty :: mem_db where
  "mem_empty = \<lparr>mem_ops = [], mem_sums = []\<rparr>"

lemma log_inv_mem_empty: "log_inv mem_env mem_view mem_empty"
  by (simp add: log_inv_def mem_view_def mem_empty_def)

lemma env_encode_mem: "env_encode mem_env = mem_encode"
  by (simp add: mem_env_def)

lemma mem_redb_store: "redb_store mem_env mem_view"
  by (rule mem.redb_store_axioms)

lemma mem_redb_healthy: "redb_healthy mem_env mem_view"
  by (rule mem.redb_healthy_axioms)

definition sample_op :: "string \<Rightarrow> u64 \<Rightarrow> string \<Rightarrow> bucket_op" where
  "sample_op b l i = \<lparr>bo_lsn = PgLsn l, bo_bucket_id = BucketId b, bo_entity_type = ''todos'',
     bo_entity_id = i, bo_op = Delete\<rparr>"

definition sample_db :: mem_db where
  "sample_db = snd (append_op mem_env (Some 100) (BucketId ''u:1'') (PgLsn 5) (sample_op ''u:1'' 5 ''a'') mem_empty)"

lemma sample_db_append:
  "append_op mem_env (Some 100) (BucketId ''u:1'') (PgLsn 5) (sample_op ''u:1'' 5 ''a'') mem_empty =
   (Inr (PgLsn 5), sample_db)"
proof -
  obtain p where
    "env_encode mem_env \<lparr>so_op = sample_op ''u:1'' 5 ''a'', so_appended_at_unix_secs = unix_now_secs (Some 100)\<rparr> = Inr p"
    by (simp add: env_encode_mem mem_encode_def sample_op_def)
  from mem.append_total [OF this, of "BucketId ''u:1''" "PgLsn 5" mem_empty]
  show ?thesis by (auto simp: sample_db_def)
qed

lemma sample_bucket_fits [simp]: "bucket_id_fits ''u:1''" "bucket_id_fits ''u:2''"
  by (simp_all add: bucket_id_fits_def MAX_BUCKET_ID_LEN_def)

lemma sample_db_inv: "log_inv mem_env mem_view sample_db"
  unfolding sample_db_def by (rule mem.append_inv [OF log_inv_mem_empty]) simp

subsection \<open>Properties\<close>

text \<open>C7: \<^verbatim>\<open>append\<close> is atomic and changes exactly one position. On success it returns the LSN it was
  given, the log holds the op (with the append time) at that bucket and LSN and is unchanged
  elsewhere, and only that bucket's checksum moved, by one fold of the stored payload; on any
  error of the store, the codec or the blocking task the database is unchanged.\<close>

theorem append_atomic:
  assumes "redb_store E V" and "bucket_id_fits (bucket_name b)"
  shows "case append_op E now b lsn op db of
      (Inl e, db') \<Rightarrow> db' = db
    | (Inr r, db') \<Rightarrow> r = lsn \<and>
        (\<forall>b' l. bucket_id_fits b' \<longrightarrow> log_at E V db' b' l =
          (if b' = bucket_name b \<and> l = lsn_u64 lsn
           then Some \<lparr>so_op = op, so_appended_at_unix_secs = unix_now_secs now\<rparr>
           else log_at E V db b' l)) \<and>
        (\<exists>p. env_encode E \<lparr>so_op = op, so_appended_at_unix_secs = unix_now_secs now\<rparr> = Inr p \<and>
          log_sum V db' = (log_sum V db)(bucket_name b := fold_checksum (log_sum V db (bucket_name b)) p))"
proof (cases "append_op E now b lsn op db")
  case (Pair res db')
  show ?thesis
  proof (cases res)
    case (Inl e)
    with Pair show ?thesis by (auto dest: redb_store.append_fails_unchanged [OF assms(1)])
  next
    case (Inr r)
    with Pair have app: "append_op E now b lsn op db = (Inr r, db')" by simp
    note at = redb_store.append_log_at [OF assms(1) app assms(2)]
    have "r = lsn" using redb_store.append_Inr [OF assms(1) app] by blast
    then show ?thesis
      unfolding app prod.case sum.case
      by (intro conjI allI impI at redb_store.append_log_sum [OF assms(1) app])
  qed
qed

theorem append_atomic_witness:
  "case append_op mem_env (Some 100) (BucketId ''u:1'') (PgLsn 5) (sample_op ''u:1'' 5 ''a'') mem_empty of
      (Inl e, db') \<Rightarrow> False
    | (Inr r, db') \<Rightarrow> log_at mem_env mem_view db' ''u:1'' 5 =
        Some \<lparr>so_op = sample_op ''u:1'' 5 ''a'', so_appended_at_unix_secs = unix_now_secs (Some 100)\<rparr>"
  using append_atomic [OF mem_redb_store, where b = "BucketId ''u:1''" and now = "Some 100"
      and lsn = "PgLsn 5" and op = "sample_op ''u:1'' 5 ''a''" and db = mem_empty]
  unfolding sample_db_append prod.case sum.case bucket_id.sel pg_lsn.sel
  by (metis sample_bucket_fits(1))

text \<open>C10: \<^verbatim>\<open>drain_since\<close> returns exactly the ops the log holds for that bucket at LSNs from
  \<^verbatim>\<open>from_lsn\<close> (inclusive) up to, excluding, the largest LSN, in strictly ascending LSN order:
  whenever it returns a list it is that list, and when no library call fails it returns.\<close>

theorem drain_since_correct:
  assumes "redb_store E V" and "log_inv E V db" and "bucket_id_fits (bucket_name b)"
  shows "(\<forall>out. drain_since E b from_lsn db = Inr out \<longrightarrow>
        out = drain_spec (log_at E V db (bucket_name b)) (lsn_u64 from_lsn)) \<and>
    (redb_healthy E V \<longrightarrow> drain_since E b from_lsn db =
        Inr (drain_spec (log_at E V db (bucket_name b)) (lsn_u64 from_lsn)))"
proof (intro conjI allI impI)
  fix out
  assume "drain_since E b from_lsn db = Inr out"
  then show "out = drain_spec (log_at E V db (bucket_name b)) (lsn_u64 from_lsn)"
    by (rule redb_store.drain_since_spec [OF assms])
next
  assume "redb_healthy E V"
  then show "drain_since E b from_lsn db =
      Inr (drain_spec (log_at E V db (bucket_name b)) (lsn_u64 from_lsn))"
    by (rule redb_healthy.drain_total [OF _ assms(2,3)])
qed

theorem drain_since_correct_witness:
  "drain_since mem_env (BucketId ''u:1'') (PgLsn 3) sample_db =
   Inr (drain_spec (log_at mem_env mem_view sample_db ''u:1'') 3)"
proof -
  have "bucket_id_fits (bucket_name (BucketId ''u:1''))" by simp
  from drain_since_correct [OF mem_redb_store sample_db_inv this, THEN conjunct2, THEN mp,
      OF mem_redb_healthy, of "PgLsn 3"]
  show ?thesis by (simp only: bucket_id.sel pg_lsn.sel)
qed


lemma sample_db_at:
  "log_at mem_env mem_view sample_db ''u:1'' 5 =
   Some \<lparr>so_op = sample_op ''u:1'' 5 ''a'', so_appended_at_unix_secs = unix_now_secs (Some 100)\<rparr>"
proof -
  have "bucket_id_fits (bucket_name (BucketId ''u:1''))" by simp
  from mem.append_log_at [OF sample_db_append this, of "''u:1''" 5] show ?thesis
    by (simp only: bucket_id.sel pg_lsn.sel sample_bucket_fits) simp
qed

text \<open>Delivering an op again (same bucket, LSN and content, at whatever time) leaves every later
  drain of every bucket as it was: at-least-once delivery does not duplicate ops.\<close>

theorem redelivery_idempotent:
  assumes "redb_store E V" and "log_inv E V db" and "bucket_id_fits (bucket_name b)"
    and "append_op E now b lsn op db = (Inr r, db1)"
    and "append_op E later b lsn op db1 = (Inr r', db2)"
    and "bucket_id_fits (bucket_name b')"
    and "drain_since E b' from_lsn db1 = Inr out1"
    and "drain_since E b' from_lsn db2 = Inr out2"
  shows "out2 = out1"
proof -
  note inv = redb_store.append_inv [OF assms(1)]
  have inv1: "log_inv E V db1" using inv [OF assms(2,3), of now lsn op] assms(4) by simp
  have inv2: "log_inv E V db2" using inv [OF inv1 assms(3), of later lsn op] assms(5) by simp
  let ?m1 = "log_at E V db1 (bucket_name b')" and ?m2 = "log_at E V db2 (bucket_name b')"
  have m1: "?m1 l = (if bucket_name b' = bucket_name b \<and> l = lsn_u64 lsn
      then Some \<lparr>so_op = op, so_appended_at_unix_secs = unix_now_secs now\<rparr>
      else log_at E V db (bucket_name b') l)" for l
    by (rule redb_store.append_log_at [OF assms(1,4,3,6)])
  have m2: "?m2 l = (if bucket_name b' = bucket_name b \<and> l = lsn_u64 lsn
      then Some \<lparr>so_op = op, so_appended_at_unix_secs = unix_now_secs later\<rparr> else ?m1 l)" for l
    by (rule redb_store.append_log_at [OF assms(1,5,3,6)])
  have "dom ?m2 = dom ?m1" by (auto simp: m1 m2 dom_def)
  moreover have "so_op (the (?m2 l)) = so_op (the (?m1 l))" for l by (simp add: m1 m2)
  ultimately have "drain_spec ?m2 (lsn_u64 from_lsn) = drain_spec ?m1 (lsn_u64 from_lsn)"
    by (simp add: drain_spec_def)
  then show ?thesis
    using redb_store.drain_since_spec [OF assms(1) inv1 assms(6,7)]
      redb_store.drain_since_spec [OF assms(1) inv2 assms(6,8)] by simp
qed

definition sample_db2 :: mem_db where
  "sample_db2 = snd (append_op mem_env (Some 107) (BucketId ''u:1'') (PgLsn 5) (sample_op ''u:1'' 5 ''a'') sample_db)"

lemma sample_db2_append:
  "append_op mem_env (Some 107) (BucketId ''u:1'') (PgLsn 5) (sample_op ''u:1'' 5 ''a'') sample_db =
   (Inr (PgLsn 5), sample_db2)"
proof -
  obtain p where
    "env_encode mem_env \<lparr>so_op = sample_op ''u:1'' 5 ''a'', so_appended_at_unix_secs = unix_now_secs (Some 107)\<rparr> = Inr p"
    by (simp add: env_encode_mem mem_encode_def sample_op_def)
  from mem.append_total [OF this, of "BucketId ''u:1''" "PgLsn 5" sample_db]
  show ?thesis by (auto simp: sample_db2_def)
qed

lemma mem_empty_at [simp]: "log_at mem_env mem_view mem_empty b l = None"
  by (simp add: log_at_def mem_view_def mem_empty_def)

lemma sample_drain_at:
  assumes "append_op mem_env now (BucketId ''u:1'') (PgLsn 5) op db = (Inr r, db')"
    and "log_inv mem_env mem_view db" and "\<And>l. l \<noteq> 5 \<Longrightarrow> log_at mem_env mem_view db ''u:1'' l = None"
  shows "log_at mem_env mem_view db' ''u:1'' = [5 \<mapsto> \<lparr>so_op = op, so_appended_at_unix_secs = unix_now_secs now\<rparr>]"
    and "drain_since mem_env (BucketId ''u:1'') (PgLsn 3) db' = Inr [op]"
proof -
  have fits: "bucket_id_fits (bucket_name (BucketId ''u:1''))" by simp
  show at: "log_at mem_env mem_view db' ''u:1'' = [5 \<mapsto> \<lparr>so_op = op, so_appended_at_unix_secs = unix_now_secs now\<rparr>]"
    using mem.append_log_at [OF assms(1) fits, of "''u:1''"] assms(3) by (auto simp: fun_eq_iff)
  have "log_inv mem_env mem_view db'"
    using mem.append_inv [OF assms(2) fits, of now "PgLsn 5" op] assms(1) by simp
  moreover have "{l. l = 5 \<and> 3 \<le> l \<and> l < U64_MAX} = {5}" by (auto simp: U64_MAX_def)
  ultimately show "drain_since mem_env (BucketId ''u:1'') (PgLsn 3) db' = Inr [op]"
    by (subst mem.drain_total [OF _ fits]) (simp_all add: at drain_spec_def)
qed

lemmas sample_drains =
  sample_drain_at(2) [OF sample_db_append log_inv_mem_empty mem_empty_at]
  sample_drain_at(2) [OF sample_db2_append sample_db_inv,
    unfolded sample_drain_at(1) [OF sample_db_append log_inv_mem_empty mem_empty_at], simplified]

theorem redelivery_idempotent_witness:
  "\<exists>out1 out2. drain_since mem_env (BucketId ''u:1'') (PgLsn 3) sample_db = Inr out1 \<and>
    drain_since mem_env (BucketId ''u:1'') (PgLsn 3) sample_db2 = Inr out2 \<and>
    out2 = out1 \<and> out1 = [sample_op ''u:1'' 5 ''a'']"
proof -
  have fits: "bucket_id_fits (bucket_name (BucketId ''u:1''))" by simp
  from redelivery_idempotent [OF mem_redb_store log_inv_mem_empty fits sample_db_append
      sample_db2_append fits sample_drains]
  show ?thesis using sample_drains by blast
qed


subsection \<open>The checksum as a digest of the history\<close>

text \<open>A history of successful appends, and the payloads it stored for one bucket.\<close>

type_synonym log_entry = "system_time \<times> bucket_id \<times> pg_lsn \<times> bucket_op"

fun append_all :: "('db, 'wt, 'rt) log_env \<Rightarrow> log_entry list \<Rightarrow> 'db \<Rightarrow> sync_error + 'db" where
  "append_all E [] db = Inr db"
| "append_all E ((now, b, lsn, op) # es) db =
     (case append_op E now b lsn op db of
        (Inl e, db') \<Rightarrow> Inl e
      | (Inr r, db') \<Rightarrow> append_all E es db')"

fun bucket_payloads :: "('db, 'wt, 'rt) log_env \<Rightarrow> bucket_id \<Rightarrow> log_entry list \<Rightarrow> bytes list" where
  "bucket_payloads E b [] = []"
| "bucket_payloads E b ((now, b', lsn, op) # es) =
     (case env_encode E \<lparr>so_op = op, so_appended_at_unix_secs = unix_now_secs now\<rparr> of
        Inl e \<Rightarrow> []
      | Inr p \<Rightarrow> if b' = b then [p] else []) @ bucket_payloads E b es"

lemma append_all_sum:
  assumes "redb_store E V"
  shows "append_all E es db = Inr db' \<Longrightarrow>
    log_sum V db' (bucket_name b) = foldl fold_checksum (log_sum V db (bucket_name b)) (bucket_payloads E b es)"
proof (induction es arbitrary: db)
  case Nil
  then show ?case by simp
next
  case (Cons e es)
  obtain now b' lsn op where e: "e = (now, b', lsn, op)" by (cases e)
  from Cons.prems obtain r db1 where app: "append_op E now b' lsn op db = (Inr r, db1)"
    and rest: "append_all E es db1 = Inr db'"
    by (auto simp: e split: prod.splits sum.splits)
  from redb_store.append_log_sum [OF assms app] Cons.IH [OF rest] show ?case
    by (auto simp: e fun_upd_def bucket_id.expand)
qed

text \<open>The checksum the log reports for a bucket is the fold, over the payloads appended to that
  bucket in the order of the appends, of the FNV step, starting from what it was (0 for a
  new bucket); appends to other buckets in between do not enter it.\<close>

theorem checksum_is_history_fold:
  assumes "redb_store E V" and "append_all E es db = Inr db'" and "checksum E b db' = Inr c"
  shows "c = BucketChecksum (foldl fold_checksum (log_sum V db (bucket_name b)) (bucket_payloads E b es))"
  using redb_store.checksum_spec [OF assms(1,3)] append_all_sum [OF assms(1,2)] by simp

theorem checksum_is_history_fold_witness:
  "checksum mem_env (BucketId ''u:1'') sample_db =
   Inr (BucketChecksum (foldl fold_checksum 0 (bucket_payloads mem_env (BucketId ''u:1'')
     [(Some 100, BucketId ''u:1'', PgLsn 5, sample_op ''u:1'' 5 ''a'')])))"
proof -
  let ?es = "[(Some 100, BucketId ''u:1'', PgLsn 5, sample_op ''u:1'' 5 ''a'')]"
  have all: "append_all mem_env ?es mem_empty = Inr sample_db"
    by (simp add: sample_db_append)
  have zero: "log_sum mem_view mem_empty b = 0" for b
    by (simp add: log_sum_def mem_view_def mem_empty_def)
  from checksum_is_history_fold [OF mem_redb_store all mem.checksum_total]
  show ?thesis by (simp only: mem.checksum_total zero)
qed

text \<open>\<^verbatim>\<open>fold_checksum\<close> never masks a divergence: on the same payload two different running
  checksums stay different, and from the same checksum two payloads that differ in exactly
  one byte give different checksums.\<close>

theorem fold_checksum_detects:
  "(fold_checksum a p = fold_checksum b p \<longleftrightarrow> a = b) \<and>
   (fold_checksum a (p @ x # q) = fold_checksum a (p @ y # q) \<longleftrightarrow> x = y)"
  by (simp add: fold_checksum_inject_prev fold_checksum_inject_byte)

end
