(* ===== verification/Router.thy ===== *)
theory Router
  imports Assigner_Properties Op_Log_Reference "HOL-Library.Multiset"
begin

section \<open>From the write-ahead log to the op logs\<close>

text \<open>
  \<^verbatim>\<open>pes-server: broker.rs\<close> and \<^verbatim>\<open>pes-router: router.rs, metrics.rs, error.rs\<close>. The event types of the
  \<^verbatim>\<open>frf\<close> crates are known here by the fields the router reads; decoding a payload into a change
  is a parameter. The in-process broker stamps offsets and queues envelopes; the router
  appends one op per affected bucket. The appends of one event run as concurrent tasks, each
  of them one transaction: \<open>sched\<close> is the order in which they happen to commit.
\<close>

subsection \<open>Events\<close>

datatype change_op = ChangeInsert | ChangeUpdate | ChangeUpsert | ChangeDelete | ChangeOther

record entity_change =
  ec_entity_type :: string
  ec_entity_id :: string
  ec_op :: change_op
  ec_data :: json

record event_envelope =
  ev_payload :: json
  ev_offset :: u64

datatype port_error = Transport string

subsection \<open>The in-process broker\<close>

definition CHANNEL_BUFFER :: nat where
  "CHANNEL_BUFFER = 1024"

text \<open>\<open>ib_receiver\<close>: the receiver is still in the broker, has been handed to the one subscriber,
  or was dropped by it.\<close>

datatype receiver_state = Kept | Taken | Dropped

record in_process_broker =
  ib_queue :: "event_envelope list"
  ib_receiver :: receiver_state
  ib_next_offset :: u64

definition new_broker :: in_process_broker where
  "new_broker = \<lparr>ib_queue = [], ib_receiver = Kept, ib_next_offset = 0\<rparr>"

text \<open>\<^verbatim>\<open>publish\<close> stamps the envelope under the offset lock and then sends it, waiting while the
  channel is full; the two halves are separate steps of a publisher.\<close>

definition publish_stamp :: "event_envelope \<Rightarrow> in_process_broker \<Rightarrow> event_envelope \<times> in_process_broker" where
  "publish_stamp e b =
     (e\<lparr>ev_offset := ib_next_offset b\<rparr>, b\<lparr>ib_next_offset := ib_next_offset b + 1\<rparr>)"

definition publish_send ::
  "string \<Rightarrow> event_envelope \<Rightarrow> in_process_broker \<Rightarrow> ((port_error + u64) \<times> in_process_broker) option" where
  "publish_send send_error_text e b =
     (if ib_receiver b = Dropped then Some (Inl (Transport send_error_text), b)
      else if length (ib_queue b) < CHANNEL_BUFFER
      then Some (Inr (ev_offset e), b\<lparr>ib_queue := ib_queue b @ [e]\<rparr>)
      else None)"

definition subscribe :: "in_process_broker \<Rightarrow> (port_error + unit) \<times> in_process_broker" where
  "subscribe b =
     (if ib_receiver b = Kept then (Inr (), b\<lparr>ib_receiver := Taken\<rparr>)
      else (Inl (Transport ''InProcessBroker::subscribe called more than once''), b))"

definition receive :: "in_process_broker \<Rightarrow> (event_envelope \<times> in_process_broker) option" where
  "receive b =
     (case ib_queue b of
        [] \<Rightarrow> None
      | e # es \<Rightarrow> if ib_receiver b = Taken then Some (e, b\<lparr>ib_queue := es\<rparr>) else None)"

definition broker_seek :: "in_process_broker \<Rightarrow> (port_error + unit) \<times> in_process_broker" where
  "broker_seek b = (Inr (), b)"

definition broker_ack :: "in_process_broker \<Rightarrow> (port_error + unit) \<times> in_process_broker" where
  "broker_ack b = (Inr (), b)"

definition ensure_channel :: "in_process_broker \<Rightarrow> (port_error + unit) \<times> in_process_broker" where
  "ensure_channel b = (Inr (), b)"

text \<open>A running broker: the stamped envelopes whose publishers have not sent them yet, and the
  envelopes the router has received, oldest first. Two ghost fields record how many envelopes
  were stamped and whether two publishers were ever between stamping and sending at once.\<close>

record broker_run =
  bw_broker :: in_process_broker
  bw_pending :: "event_envelope list"
  bw_received :: "event_envelope list"
  bw_stamped :: nat
  bw_overlap :: bool

definition broker_start :: broker_run where
  "broker_start =
     \<lparr>bw_broker = new_broker, bw_pending = [], bw_received = [], bw_stamped = 0, bw_overlap = False\<rparr>"

inductive broker_step :: "broker_run \<Rightarrow> broker_run \<Rightarrow> bool" where
  stamp: "publish_stamp e (bw_broker w) = (e', b') \<Longrightarrow>
    broker_step w (w\<lparr>bw_broker := b', bw_pending := bw_pending w @ [e'],
      bw_stamped := bw_stamped w + 1, bw_overlap := (bw_overlap w \<or> bw_pending w \<noteq> [])\<rparr>)"
| send: "bw_pending w = ps @ e # qs \<Longrightarrow> publish_send msg e (bw_broker w) = Some (r, b') \<Longrightarrow>
    broker_step w (w\<lparr>bw_broker := b', bw_pending := ps @ qs\<rparr>)"
| subscribing: "subscribe (bw_broker w) = (r, b') \<Longrightarrow> broker_step w (w\<lparr>bw_broker := b'\<rparr>)"
| receiving: "receive (bw_broker w) = Some (e, b') \<Longrightarrow>
    broker_step w (w\<lparr>bw_broker := b', bw_received := bw_received w @ [e]\<rparr>)"
| dropping: "ib_receiver (bw_broker w) = Taken \<Longrightarrow>
    broker_step w (w\<lparr>bw_broker := (bw_broker w)\<lparr>ib_receiver := Dropped\<rparr>\<rparr>)"

subsection \<open>Metrics\<close>

record router_metrics =
  rm_received :: nat
  rm_routed :: "(string, nat) hmap"
  rm_latencies :: "duration list"
  rm_queue_depth :: "(string, nat) hmap"

definition new_metrics :: router_metrics where
  "new_metrics = \<lparr>rm_received = 0, rm_routed = [], rm_latencies = [], rm_queue_depth = []\<rparr>"

definition counter :: "(string, nat) hmap \<Rightarrow> string \<Rightarrow> nat" where
  "counter m l = (case hm_get m l of None \<Rightarrow> 0 | Some n \<Rightarrow> n)"

definition record_event_received :: "router_metrics \<Rightarrow> router_metrics" where
  "record_event_received m = m\<lparr>rm_received := rm_received m + 1\<rparr>"

definition record_op_routed :: "string \<Rightarrow> router_metrics \<Rightarrow> router_metrics" where
  "record_op_routed b m = m\<lparr>rm_routed := hm_insert b (counter (rm_routed m) b + 1) (rm_routed m)\<rparr>"

definition record_routing_latency :: "duration \<Rightarrow> router_metrics \<Rightarrow> router_metrics" where
  "record_routing_latency d m = m\<lparr>rm_latencies := rm_latencies m @ [d]\<rparr>"

definition set_oplog_queue_depth :: "string \<Rightarrow> nat \<Rightarrow> router_metrics \<Rightarrow> router_metrics" where
  "set_oplog_queue_depth l d m = m\<lparr>rm_queue_depth := hm_insert l d (rm_queue_depth m)\<rparr>"

subsection \<open>The router\<close>

datatype router_error = Broker string | DecodeEvent string | OpLog sync_error

fun router_error_display :: "router_error \<Rightarrow> string" where
  "router_error_display (Broker e) = ''broker subscription error: '' @ e"
| "router_error_display (DecodeEvent e) = ''event decode error: '' @ e"
| "router_error_display (OpLog e) = ''oplog append error: '' @ sync_error_display e"

definition BACKPRESSURE_CAPACITY :: nat where
  "BACKPRESSURE_CAPACITY = 1000"

definition rx_capacity_gauge :: "nat \<Rightarrow> nat" where
  "rx_capacity_gauge free_permits = BACKPRESSURE_CAPACITY - free_permits"

fun classify_op :: "entity_change \<Rightarrow> bucket_op_kind" where
  "classify_op c =
     (case ec_op c of
        ChangeDelete \<Rightarrow> Delete
      | ChangeInsert \<Rightarrow> Upsert (ec_data c)
      | ChangeUpdate \<Rightarrow> Upsert (ec_data c)
      | ChangeUpsert \<Rightarrow> Upsert (ec_data c)
      | ChangeOther \<Rightarrow> Upsert (ec_data c))"

definition routed_op :: "entity_change \<Rightarrow> u64 \<Rightarrow> bucket_id \<Rightarrow> bucket_op" where
  "routed_op c offset b =
     \<lparr>bo_lsn = PgLsn offset, bo_bucket_id = b, bo_entity_type = ec_entity_type c,
      bo_entity_id = ec_entity_id c, bo_op = classify_op c\<rparr>"

text \<open>The per-bucket append tasks, in the order they commit; the result lists the buckets whose
  append succeeded.\<close>

fun append_tasks ::
  "('db, 'wt, 'rt) log_env \<Rightarrow> (bucket_id \<Rightarrow> system_time) \<Rightarrow> entity_change \<Rightarrow> u64 \<Rightarrow> bucket_id list \<Rightarrow> 'db \<Rightarrow>
   bucket_id list \<times> 'db" where
  "append_tasks E now c offset [] db = ([], db)"
| "append_tasks E now c offset (b # bs) db =
     (case append_op E (now b) b (PgLsn offset) (routed_op c offset b) db of
        (Inl e, db') \<Rightarrow> append_tasks E now c offset bs db'
      | (Inr _, db') \<Rightarrow> (case append_tasks E now c offset bs db' of (oks, db'') \<Rightarrow> (b # oks, db'')))"

record ('db, 'wt, 'rt) router_env =
  re_json :: json_text
  re_log :: "('db, 'wt, 'rt) log_env"
  re_decode_change :: "json \<Rightarrow> string + entity_change"
  re_port_text :: "port_error \<Rightarrow> string"
  re_sched :: "bucket_id list \<Rightarrow> bucket_id list"
  re_system_time :: "event_envelope \<Rightarrow> bucket_id \<Rightarrow> system_time"
  re_started :: "event_envelope \<Rightarrow> instant"
  re_finished :: "event_envelope \<Rightarrow> instant"
  re_free_permits :: "event_envelope \<Rightarrow> nat"

definition route_one_event ::
  "('db, 'wt, 'rt) router_env \<Rightarrow> assigner \<Rightarrow> event_envelope \<Rightarrow> 'db \<times> router_metrics \<Rightarrow> 'db \<times> router_metrics" where
  "route_one_event R a env st =
     (case re_decode_change R (ev_payload env) of
        Inl e \<Rightarrow> st
      | Inr change \<Rightarrow>
          (let affected = find_affected_buckets (re_json R) a (re_started R env) (ec_entity_type change) (ec_data change) in
           if affected = [] then st
           else
             (case append_tasks (re_log R) (re_system_time R env) change (ev_offset env)
                     (re_sched R affected) (fst st) of
                (oks, db') \<Rightarrow>
                  (db', record_routing_latency (elapsed (re_finished R env) (re_started R env))
                          (foldl (\<lambda>m b. record_op_routed (bucket_name b) m) (snd st) oks)))))"

text \<open>\<^verbatim>\<open>run\<close> on what the subscription yields; \<open>view\<close> is the shared assigner as it stands when an
  event is routed. The bounded channel to the writer task is first in,
  first out, and the writer empties it also after the receiving loop has stopped, so every
  envelope received before an error is routed, in order.\<close>

fun router_loop ::
  "('db, 'wt, 'rt) router_env \<Rightarrow> string \<Rightarrow> (event_envelope \<Rightarrow> assigner) \<Rightarrow> (port_error + event_envelope) list \<Rightarrow> 'db \<times> router_metrics \<Rightarrow>
   (router_error + unit) \<times> 'db \<times> router_metrics" where
  "router_loop R channel view [] st = (Inr (), st)"
| "router_loop R channel view (Inl e # rest) st = (Inl (Broker (re_port_text R e)), st)"
| "router_loop R channel view (Inr env # rest) st =
     router_loop R channel view rest
       (route_one_event R (view env) env
          (fst st, set_oplog_queue_depth channel (rx_capacity_gauge (re_free_permits R env))
                     (record_event_received (snd st))))"

definition router_run ::
  "('db, 'wt, 'rt) router_env \<Rightarrow> string \<Rightarrow> (event_envelope \<Rightarrow> assigner) \<Rightarrow> in_process_broker \<Rightarrow> (port_error + event_envelope) list \<Rightarrow>
   'db \<times> router_metrics \<Rightarrow> (router_error + unit) \<times> in_process_broker \<times> 'db \<times> router_metrics" where
  "router_run R channel view broker events st =
     (case subscribe broker of
        (Inl e, broker') \<Rightarrow> (Inl (Broker (re_port_text R e)), broker', st)
      | (Inr _, broker') \<Rightarrow>
          (case router_loop R channel view events st of (r, st') \<Rightarrow> (r, broker', st')))"

subsection \<open>Offsets\<close>

definition in_flight :: "broker_run \<Rightarrow> event_envelope list" where
  "in_flight w = bw_received w @ ib_queue (bw_broker w) @ bw_pending w"

definition broker_inv :: "broker_run \<Rightarrow> bool" where
  "broker_inv w \<longleftrightarrow>
     length (ib_queue (bw_broker w)) \<le> CHANNEL_BUFFER \<and>
     (bw_stamped w < 2 ^ 64 \<longrightarrow>
        unat (ib_next_offset (bw_broker w)) = bw_stamped w \<and>
        distinct (map ev_offset (in_flight w)) \<and>
        list_all (\<lambda>e. unat (ev_offset e) < bw_stamped w) (in_flight w) \<and>
        (\<not> bw_overlap w \<longrightarrow>
           length (bw_pending w) \<le> 1 \<and> sorted_wrt (<) (map ev_offset (in_flight w))))"

inductive_cases broker_stepE: "broker_step w w'"

lemma distinct_submset: "mset ys \<subseteq># mset xs \<Longrightarrow> distinct xs \<Longrightarrow> distinct ys"
proof -
  assume sub: "mset ys \<subseteq># mset xs" and xs: "distinct xs"
  obtain zs where "mset zs = mset xs - mset ys" using ex_mset by blast
  with sub have "mset (ys @ zs) = mset xs" by simp
  with xs have "distinct (ys @ zs)" using mset_eq_imp_distinct_iff by blast
  then show ?thesis by simp
qed

lemma broker_inv_stamp:
  assumes "broker_inv w" and "publish_stamp e (bw_broker w) = (e', b')"
  shows "broker_inv (w\<lparr>bw_broker := b', bw_pending := bw_pending w @ [e'],
      bw_stamped := bw_stamped w + 1, bw_overlap := (bw_overlap w \<or> bw_pending w \<noteq> [])\<rparr>)"
    (is "broker_inv ?w'")
proof -
  let ?o = "ib_next_offset (bw_broker w)"
  have e': "ev_offset e' = ?o" and b': "b' = (bw_broker w)\<lparr>ib_next_offset := ?o + 1\<rparr>"
    using assms(2) by (auto simp: publish_stamp_def)
  have fresh: "ev_offset x < ?o"
    if "bw_stamped w < 2 ^ 64" "x \<in> set (in_flight w)" for x
    using assms(1) that by (auto simp: broker_inv_def list_all_iff word_less_nat_alt)
  have "unat (?o + 1) = Suc (bw_stamped w)" if "Suc (bw_stamped w) < 2 ^ 64"
    using assms(1) that by (intro unat_next) (auto simp: broker_inv_def)
  moreover have "in_flight ?w' = in_flight w @ [e']" by (simp add: in_flight_def b')
  ultimately show ?thesis
    using assms(1) fresh unfolding broker_inv_def
    by (fastforce simp: e' b' list_all_iff sorted_wrt_append less_Suc_eq)
qed

lemma broker_inv_rearrange:
  assumes inv: "broker_inv w"
    and sub: "mset (in_flight w') \<subseteq># mset (in_flight w)"
    and ord: "length (bw_pending w) \<le> 1 \<Longrightarrow>
      sorted_wrt (<) (map ev_offset (in_flight w)) \<Longrightarrow> sorted_wrt (<) (map ev_offset (in_flight w'))"
    and queue: "length (ib_queue (bw_broker w')) \<le> CHANNEL_BUFFER"
    and same: "ib_next_offset (bw_broker w') = ib_next_offset (bw_broker w)"
      "bw_stamped w' = bw_stamped w" "bw_overlap w' = bw_overlap w"
    and pend: "length (bw_pending w') \<le> length (bw_pending w)"
  shows "broker_inv w'"
proof -
  have "set (in_flight w') \<subseteq> set (in_flight w)"
    using set_mset_mono [OF sub] by simp
  moreover have "distinct (map ev_offset (in_flight w'))" if "distinct (map ev_offset (in_flight w))"
    using that by (rule distinct_submset [rotated]) (use image_mset_subseteq_mono [OF sub] in simp)
  ultimately show ?thesis
    using inv ord queue same pend unfolding broker_inv_def by (auto simp: list_all_iff)
qed

lemma broker_inv_send:
  assumes inv: "broker_inv w" and "bw_pending w = ps @ e # qs"
    and "publish_send msg e (bw_broker w) = Some (r, b')"
  shows "broker_inv (w\<lparr>bw_broker := b', bw_pending := ps @ qs\<rparr>)"
  by (rule broker_inv_rearrange [OF inv])
    (use assms in \<open>auto simp: publish_send_def in_flight_def broker_inv_def sorted_wrt_append
      split: if_splits\<close>)

lemma broker_inv_step: "broker_step w w' \<Longrightarrow> broker_inv w \<Longrightarrow> broker_inv w'"
proof (induction rule: broker_step.induct)
  case (stamp e w e' b')
  then show ?case by (intro broker_inv_stamp)
next
  case (send w ps e qs msg r b')
  then show ?case by (intro broker_inv_send)
next
  case (subscribing w r b')
  then show ?case
    by (intro broker_inv_rearrange [OF subscribing.prems])
      (auto simp: subscribe_def in_flight_def broker_inv_def split: if_splits)
next
  case (receiving w e b')
  then show ?case
    by (intro broker_inv_rearrange [OF receiving.prems])
      (auto simp: receive_def in_flight_def broker_inv_def split: list.splits if_splits)
next
  case (dropping w)
  then show ?case
    by (intro broker_inv_rearrange [OF dropping.prems])
      (auto simp: in_flight_def broker_inv_def)
qed

lemma broker_inv_reachable: "broker_step\<^sup>*\<^sup>* broker_start w \<Longrightarrow> broker_inv w"
proof (induction rule: rtranclp_induct)
  case base
  show ?case by (simp add: broker_inv_def broker_start_def new_broker_def in_flight_def)
next
  case (step v w)
  then show ?case using broker_inv_step by blast
qed

subsection \<open>What the router appends\<close>

text \<open>The abstract effect of one event on the content of the logs: at the event's offset every
  affected bucket holds the op, stamped with the time of its append.\<close>

definition affected_by :: "('db, 'wt, 'rt) router_env \<Rightarrow> assigner \<Rightarrow> event_envelope \<Rightarrow> entity_change \<Rightarrow> bucket_id list" where
  "affected_by R a env c =
     find_affected_buckets (re_json R) a (re_started R env) (ec_entity_type c) (ec_data c)"

definition routed_entry :: "('db, 'wt, 'rt) router_env \<Rightarrow> event_envelope \<Rightarrow> entity_change \<Rightarrow> bucket_id \<Rightarrow> stored_op" where
  "routed_entry R env c b =
     \<lparr>so_op = routed_op c (ev_offset env) b,
      so_appended_at_unix_secs = unix_now_secs (re_system_time R env b)\<rparr>"

definition event_entry ::
  "('db, 'wt, 'rt) router_env \<Rightarrow> (event_envelope \<Rightarrow> assigner) \<Rightarrow> bucket_id \<Rightarrow> event_envelope \<Rightarrow> stored_op option" where
  "event_entry R view b env =
     (case re_decode_change R (ev_payload env) of
        Inl e \<Rightarrow> None
      | Inr c \<Rightarrow> if b \<in> set (affected_by R (view env) env c) then Some (routed_entry R env c b) else None)"

definition route_spec ::
  "('db, 'wt, 'rt) router_env \<Rightarrow> (event_envelope \<Rightarrow> assigner) \<Rightarrow> bucket_id \<Rightarrow> event_envelope \<Rightarrow>
   (u64 \<rightharpoonup> stored_op) \<Rightarrow> u64 \<rightharpoonup> stored_op" where
  "route_spec R view b env m =
     (case event_entry R view b env of None \<Rightarrow> m | Some s \<Rightarrow> m(ev_offset env \<mapsto> s))"

text \<open>Every bucket an event reaches has an id that fits the key, and its op can be encoded.\<close>

definition event_storable :: "('db, 'wt, 'rt) router_env \<Rightarrow> (event_envelope \<Rightarrow> assigner) \<Rightarrow> event_envelope \<Rightarrow> bool" where
  "event_storable R view env =
     (case re_decode_change R (ev_payload env) of
        Inl e \<Rightarrow> True
      | Inr c \<Rightarrow> list_all (\<lambda>b. bucket_id_fits (bucket_name b) \<and>
            \<not> is_err (env_encode (re_log R) (routed_entry R env c b)))
          (affected_by R (view env) env c))"

lemma bucket_id_eq_iff: "BucketId s = b \<longleftrightarrow> s = bucket_name b"
  by (cases b) auto

context redb_store
begin

lemma append_tasks_effect:
  assumes "append_tasks E now c off bs db = (oks, db')" and "log_inv E V db"
    and "\<And>b. b \<in> set bs \<Longrightarrow> bucket_id_fits (bucket_name b)"
  shows "log_inv E V db' \<and> set oks \<subseteq> set bs \<and>
    (\<forall>b l. bucket_id_fits b \<longrightarrow> log_at E V db' b l =
       (if l = off \<and> BucketId b \<in> set oks
        then Some \<lparr>so_op = routed_op c off (BucketId b),
                   so_appended_at_unix_secs = unix_now_secs (now (BucketId b))\<rparr>
        else log_at E V db b l))"
  using assms
proof (induction bs arbitrary: db oks db')
  case Nil
  then show ?case by simp
next
  case (Cons b bs)
  obtain res db1 where app: "append_op E (now b) b (PgLsn off) (routed_op c off b) db = (res, db1)"
    by (metis surj_pair)
  have fits: "bucket_id_fits (bucket_name b)" using Cons.prems(3) by simp
  have inv1: "log_inv E V db1"
    using append_inv [OF Cons.prems(2) fits, of "now b" "PgLsn off" "routed_op c off b"] by (simp add: app)
  obtain oks1 db2 where rest: "append_tasks E now c off bs db1 = (oks1, db2)" by (metis surj_pair)
  have IH: "log_inv E V db2 \<and> set oks1 \<subseteq> set bs \<and>
    (\<forall>b l. bucket_id_fits b \<longrightarrow> log_at E V db2 b l =
       (if l = off \<and> BucketId b \<in> set oks1
        then Some \<lparr>so_op = routed_op c off (BucketId b),
                   so_appended_at_unix_secs = unix_now_secs (now (BucketId b))\<rparr>
        else log_at E V db1 b l))"
    using Cons.IH [OF rest inv1] Cons.prems(3) by simp
  show ?case
  proof (cases res)
    case (Inl e)
    have "oks = oks1" "db' = db2" using Cons.prems(1) by (simp_all add: app Inl rest)
    moreover have "db1 = db" using app Inl append_fails_unchanged by simp
    ultimately show ?thesis using IH by auto
  next
    case (Inr r)
    have res: "oks = b # oks1" "db' = db2" using Cons.prems(1) by (simp_all add: app Inr rest)
    have "log_at E V db2 b' l =
       (if l = off \<and> BucketId b' \<in> set oks
        then Some \<lparr>so_op = routed_op c off (BucketId b'),
                   so_appended_at_unix_secs = unix_now_secs (now (BucketId b'))\<rparr>
        else log_at E V db b' l)" if "bucket_id_fits b'" for b' l
      using IH that append_log_at [OF app [unfolded Inr] fits that, of l] res
      by (cases b) auto
    with IH res show ?thesis by auto
  qed
qed

end

context redb_healthy
begin

lemma append_tasks_all:
  assumes "\<And>b. b \<in> set bs \<Longrightarrow> \<not> is_err (env_encode E
      \<lparr>so_op = routed_op c off b, so_appended_at_unix_secs = unix_now_secs (now b)\<rparr>)"
  shows "fst (append_tasks E now c off bs db) = bs"
  using assms
proof (induction bs arbitrary: db)
  case (Cons b bs)
  then obtain p where "env_encode E
      \<lparr>so_op = routed_op c off b, so_appended_at_unix_secs = unix_now_secs (now b)\<rparr> = Inr p"
    by (metis is_err.simps(1) list.set_intros(1) sum.exhaust)
  from append_total [OF this, of b "PgLsn off" db] obtain db1 where
    "append_op E (now b) b (PgLsn off) (routed_op c off b) db = (Inr (PgLsn off), db1)" by blast
  moreover have "fst (append_tasks E now c off bs db1) = bs" using Cons by simp
  ultimately show ?case by (simp add: case_prod_unfold)
qed simp

end

subsection \<open>The router refines its specification\<close>

lemma route_one_event_refines:
  assumes "redb_healthy (re_log R) V" and "log_inv (re_log R) V (fst st)"
    and "event_storable R view env" and "\<And>bs. mset (re_sched R bs) = mset bs"
  shows "log_inv (re_log R) V (fst (route_one_event R (view env) env st)) \<and>
    (\<forall>b. bucket_id_fits b \<longrightarrow> log_at (re_log R) V (fst (route_one_event R (view env) env st)) b =
       route_spec R view (BucketId b) env (log_at (re_log R) V (fst st) b))"
proof (cases "re_decode_change R (ev_payload env)")
  case (Inl e)
  with assms(2) show ?thesis by (simp add: route_one_event_def route_spec_def event_entry_def)
next
  case (Inr c)
  let ?bs = "affected_by R (view env) env c"
  have sched: "set (re_sched R bs) = set bs" for bs
    using assms(4) by (metis mset_eq_setD)
  have store: "redb_store (re_log R) V" using assms(1) by (rule redb_healthy.axioms(1))
  show ?thesis
  proof (cases "?bs = []")
    case True
    with Inr assms(2) show ?thesis
      by (simp add: route_one_event_def route_spec_def event_entry_def affected_by_def)
  next
    case False
    obtain oks db' where tasks: "append_tasks (re_log R) (re_system_time R env) c (ev_offset env)
        (re_sched R ?bs) (fst st) = (oks, db')" by (metis surj_pair)
    have res: "fst (route_one_event R (view env) env st) = db'"
      using False tasks by (simp add: route_one_event_def Inr Let_def affected_by_def)
    have ok: "bucket_id_fits (bucket_name b)" "\<not> is_err (env_encode (re_log R) (routed_entry R env c b))"
      if "b \<in> set (re_sched R ?bs)" for b
      using assms(3) that by (simp_all add: event_storable_def Inr list_all_iff sched)
    have "oks = re_sched R ?bs"
      using redb_healthy.append_tasks_all [OF assms(1) ok(2) [unfolded routed_entry_def],
          of "re_sched R ?bs" "fst st"]
      by (simp add: tasks)
    with redb_store.append_tasks_effect [OF store tasks assms(2) ok(1)] show ?thesis
      by (auto simp: res route_spec_def event_entry_def Inr sched routed_entry_def fun_eq_iff)
  qed
qed

definition routed_count :: "('db, 'wt, 'rt) router_env \<Rightarrow> (event_envelope \<Rightarrow> assigner) \<Rightarrow> string \<Rightarrow> event_envelope \<Rightarrow> nat" where
  "routed_count R view b env =
     (case re_decode_change R (ev_payload env) of
        Inl e \<Rightarrow> 0
      | Inr c \<Rightarrow> count (mset (affected_by R (view env) env c)) (BucketId b))"

lemma counter_record_op_routed:
  "counter (rm_routed (foldl (\<lambda>m b. record_op_routed (bucket_name b) m) m bs)) b =
   counter (rm_routed m) b + count (mset bs) (BucketId b)"
  by (induction bs arbitrary: m) (auto simp: record_op_routed_def counter_def bucket_id_eq_iff)

lemma rm_received_foldl [simp]:
  "rm_received (foldl (\<lambda>m b. record_op_routed (bucket_name b) m) m bs) = rm_received m"
  by (induction bs arbitrary: m) (auto simp: record_op_routed_def)

lemma route_one_event_metrics:
  assumes "redb_healthy (re_log R) V" and "event_storable R view env"
    and "\<And>bs. mset (re_sched R bs) = mset bs"
  shows "rm_received (snd (route_one_event R (view env) env st)) = rm_received (snd st) \<and>
    counter (rm_routed (snd (route_one_event R (view env) env st))) b =
      counter (rm_routed (snd st)) b + routed_count R view b env"
proof (cases "re_decode_change R (ev_payload env)")
  case (Inl e)
  then show ?thesis by (simp add: route_one_event_def routed_count_def)
next
  case (Inr c)
  let ?bs = "affected_by R (view env) env c"
  have "\<not> is_err (env_encode (re_log R) (routed_entry R env c b))" if "b \<in> set (re_sched R ?bs)" for b
    using assms(2) that mset_eq_setD [OF assms(3)] by (simp add: event_storable_def Inr list_all_iff)
  from redb_healthy.append_tasks_all [OF assms(1) this [unfolded routed_entry_def], of "re_sched R ?bs" "fst st"]
  show ?thesis
    by (auto simp: route_one_event_def routed_count_def Inr Let_def affected_by_def case_prod_unfold
        record_routing_latency_def counter_record_op_routed assms(3))
qed

lemma router_loop_refines:
  assumes "redb_healthy (re_log R) V" and "log_inv (re_log R) V (fst st)"
    and "list_all (event_storable R view) envs" and "\<And>bs. mset (re_sched R bs) = mset bs"
    and "router_loop R channel view (map Inr envs @ rest) st = (r, st')"
  shows "\<exists>st1. router_loop R channel view rest st1 = (r, st') \<and> log_inv (re_log R) V (fst st1) \<and>
    (\<forall>b. bucket_id_fits b \<longrightarrow> log_at (re_log R) V (fst st1) b =
       fold (route_spec R view (BucketId b)) envs (log_at (re_log R) V (fst st) b)) \<and>
    rm_received (snd st1) = rm_received (snd st) + length envs \<and>
    (\<forall>b. counter (rm_routed (snd st1)) b =
       counter (rm_routed (snd st)) b + sum_list (map (routed_count R view b) envs))"
  using assms(2,3,5)
proof (induction envs arbitrary: st)
  case Nil
  then show ?case by (intro exI [of _ st]) simp
next
  case (Cons env envs)
  let ?st = "(fst st, set_oplog_queue_depth channel (rx_capacity_gauge (re_free_permits R env))
                     (record_event_received (snd st)))"
  let ?st' = "route_one_event R (view env) env ?st"
  have ok: "event_storable R view env" using Cons.prems(2) by simp
  have "log_inv (re_log R) V (fst ?st)" using Cons.prems(1) by simp
  note one = route_one_event_refines [OF assms(1) this ok assms(4)]
  note metrics = route_one_event_metrics [OF assms(1) ok assms(4), of ?st]
  from Cons.IH [of ?st'] Cons.prems one obtain st1 where
    st1: "router_loop R channel view rest st1 = (r, st')" "log_inv (re_log R) V (fst st1)"
    "\<And>b. bucket_id_fits b \<Longrightarrow> log_at (re_log R) V (fst st1) b =
       fold (route_spec R view (BucketId b)) envs (log_at (re_log R) V (fst ?st') b)"
    "rm_received (snd st1) = rm_received (snd ?st') + length envs"
    "\<And>b. counter (rm_routed (snd st1)) b =
       counter (rm_routed (snd ?st')) b + sum_list (map (routed_count R view b) envs)"
    by auto
  show ?case
    by (intro exI [of _ st1] conjI allI impI)
      (use st1 one metrics in \<open>simp_all add: record_event_received_def set_oplog_queue_depth_def\<close>)
qed

end
