(* ===== verification/Router_Properties.thy ===== *)
theory Router_Properties
  imports Router
begin

section \<open>Properties of the broker and the router\<close>

text \<open>
  The broker's channel is bounded and its offsets are unique, and in publication order when
  publishers do not overlap; the router turns the events it receives into exactly the log
  content \<open>route_spec\<close> describes. Together: a bucket's drain lists its ops in the order in
  which the changes were published. A run of one published event is the common witness.
\<close>

subsection \<open>A sample run\<close>

definition sample_change :: entity_change where
  "sample_change = \<lparr>ec_entity_type = ''todos'', ec_entity_id = ''7'', ec_op = ChangeDelete,
     ec_data = JObject [(''owner'', JString ''u1'')]\<rparr>"

definition sample_router :: "(mem_db, mem_db, mem_db) router_env" where
  "sample_router =
     \<lparr>re_json = ref_json_text, re_log = mem_env,
      re_decode_change = (\<lambda>j. if j = JNull then Inl ''not an entity change'' else Inr sample_change),
      re_port_text = (\<lambda>e. case e of Transport s \<Rightarrow> s), re_sched = rev,
      re_system_time = (\<lambda>_ _. Some 100), re_started = (\<lambda>_. from_secs 100),
      re_finished = (\<lambda>_. from_secs 101), re_free_permits = (\<lambda>_. 1000)\<rparr>"

definition sample_event :: event_envelope where
  "sample_event = \<lparr>ev_payload = JBool True, ev_offset = 0\<rparr>"

definition sample_bucket :: bucket_id where
  "sample_bucket = BucketId (''mine:uid='' @ dquote ''u1'')"

definition sample_broker_run :: broker_run where
  "sample_broker_run =
     \<lparr>bw_broker = \<lparr>ib_queue = [], ib_receiver = Taken, ib_next_offset = 1\<rparr>, bw_pending = [],
      bw_received = [sample_event], bw_stamped = 1, bw_overlap = False\<rparr>"

lemma sample_broker_reachable: "broker_step\<^sup>*\<^sup>* broker_start sample_broker_run"
proof -
  let ?w1 = "broker_start\<lparr>bw_broker := new_broker\<lparr>ib_next_offset := 1\<rparr>,
    bw_pending := [sample_event], bw_stamped := 1\<rparr>"
  let ?w2 = "?w1\<lparr>bw_broker := \<lparr>ib_queue = [], ib_receiver = Taken, ib_next_offset = 1\<rparr>\<rparr>"
  let ?w3 = "?w2\<lparr>bw_broker := \<lparr>ib_queue = [sample_event], ib_receiver = Taken, ib_next_offset = 1\<rparr>,
    bw_pending := []\<rparr>"
  note defs = broker_start_def new_broker_def sample_event_def
  have s1: "broker_step broker_start ?w1"
    using broker_step.stamp [of sample_event broker_start]
    by (simp add: publish_stamp_def defs)
  have s2: "broker_step ?w1 ?w2"
    using broker_step.subscribing [of ?w1] by (simp add: subscribe_def defs)
  have s3: "broker_step ?w2 ?w3"
    using broker_step.send [of ?w2 "[]" sample_event "[]"]
    by (simp add: publish_send_def CHANNEL_BUFFER_def defs)
  have s4: "broker_step ?w3 sample_broker_run"
    using broker_step.receiving [of ?w3]
    by (simp add: receive_def sample_broker_run_def defs)
  note [trans] = rtranclp.rtrancl_into_rtrancl
  have "broker_step\<^sup>*\<^sup>* broker_start ?w1" using s1 by (rule r_into_rtranclp)
  also note s2
  also note s3
  also note s4
  finally show ?thesis .
qed

lemma sample_router_log [simp]: "re_log sample_router = mem_env"
  by (simp add: sample_router_def)

lemma sample_sched: "mset (re_sched sample_router bs) = mset bs"
  by (simp add: sample_router_def)

lemma sample_affected:
  "affected_by sample_router sample_cached sample_event sample_change = [sample_bucket, sample_bucket]"
  unfolding affected_by_def sample_router_def sample_change_def sample_bucket_def
  by (simp add: find_affected_buckets_def sample_cached_def sample_assigner_def sample_assignment_def
      row_matches_assignment_def hm_contains_def elapsed_def from_secs_def nanos_per_sec_def)

lemma sample_bucket_name_fits [simp]: "bucket_id_fits (bucket_name sample_bucket)"
  by (simp add: sample_bucket_def bucket_id_fits_def MAX_BUCKET_ID_LEN_def dquote_def)

lemma sample_decode [simp]: "re_decode_change sample_router (ev_payload sample_event) = Inr sample_change"
  by (simp add: sample_router_def sample_event_def)

lemma sample_classify [simp]: "classify_op sample_change = Delete"
  by (simp add: sample_change_def)

lemma sample_storable: "event_storable sample_router (\<lambda>_. sample_cached) sample_event"
  by (simp add: event_storable_def sample_affected routed_entry_def env_encode_mem mem_encode_def
      routed_op_def del: classify_op.simps)

subsection \<open>The broker\<close>

text \<open>In every reachable state of the in-process broker, with any number of concurrent publishers,
  the channel holds at most its capacity of envelopes, and a publisher that finds it full
  waits instead of sending; the one receiver can be taken only once.\<close>

theorem broker_channel_bounded:
  assumes "broker_step\<^sup>*\<^sup>* broker_start w"
  shows "length (ib_queue (bw_broker w)) \<le> 1024 \<and>
    (length (ib_queue (bw_broker w)) = 1024 \<and> ib_receiver (bw_broker w) \<noteq> Dropped \<longrightarrow>
       publish_send msg e (bw_broker w) = None) \<and>
    (\<exists>m. fst (subscribe (snd (subscribe (bw_broker w)))) = Inl (Transport m))"
  using broker_inv_reachable [OF assms]
  by (auto simp: broker_inv_def CHANNEL_BUFFER_def publish_send_def subscribe_def)

theorem broker_channel_bounded_witness:
  "length (ib_queue (bw_broker sample_broker_run)) \<le> 1024"
  using broker_channel_bounded [OF sample_broker_reachable] by blast

text \<open>As long as fewer than 2^64 envelopes were published since the process started, no two
  envelopes ever carry the same offset, every offset is below the number published, and if no
  two publishers were ever between stamping and sending at once, the envelopes are received in
  strictly ascending offset order.\<close>

theorem broker_offsets_ordered:
  assumes "broker_step\<^sup>*\<^sup>* broker_start w" and "bw_stamped w < 2 ^ 64"
  shows "distinct (map ev_offset (in_flight w)) \<and>
    list_all (\<lambda>e. unat (ev_offset e) < bw_stamped w) (in_flight w) \<and>
    (\<not> bw_overlap w \<longrightarrow> sorted_wrt (<) (map ev_offset (bw_received w)))"
  using broker_inv_reachable [OF assms(1)] assms(2)
  by (auto simp: broker_inv_def in_flight_def sorted_wrt_append)

theorem broker_offsets_ordered_witness:
  "bw_received sample_broker_run = [sample_event] \<and>
   list_all (\<lambda>e. unat (ev_offset e) < 1) (in_flight sample_broker_run)"
  using broker_offsets_ordered [OF sample_broker_reachable]
  by (simp add: sample_broker_run_def)

subsection \<open>The router\<close>



subsection \<open>From publication to a bucket's drain\<close>

lemma drain_spec_snoc:
  assumes "\<And>k. k \<in> dom m \<Longrightarrow> k < l" and "l < U64_MAX"
  shows "drain_spec (m(l \<mapsto> s)) f = drain_spec m f @ (if f \<le> l then [so_op s] else [])"
proof -
  let ?A = "{k \<in> dom m. f \<le> k \<and> k < U64_MAX}"
  have fin: "finite ?A" by simp
  have "sorted_list_of_set {k \<in> dom (m(l \<mapsto> s)). f \<le> k \<and> k < U64_MAX} =
      sorted_list_of_set ?A @ (if f \<le> l then [l] else [])"
    by (rule sorted_list_of_set_strict) (use assms fin in \<open>auto simp: sorted_wrt_append\<close>)
  moreover have "map (\<lambda>k. so_op (the ((m(l \<mapsto> s)) k))) (sorted_list_of_set ?A) =
      map (\<lambda>k. so_op (the (m k))) (sorted_list_of_set ?A)"
    by (rule map_cong) (use assms(1) in auto)
  ultimately show ?thesis by (simp add: drain_spec_def)
qed

definition delivered_ops ::
  "('db, 'wt, 'rt) router_env \<Rightarrow> (event_envelope \<Rightarrow> assigner) \<Rightarrow> bucket_id \<Rightarrow> event_envelope list \<Rightarrow> bucket_op list" where
  "delivered_ops R view b envs = map so_op (List.map_filter (event_entry R view b) envs)"

lemma dom_fold_route_spec: "dom (fold (route_spec R view b) envs m) \<subseteq> dom m \<union> ev_offset ` set envs"
  by (induction envs arbitrary: m) (fastforce simp: route_spec_def split: option.splits)+

lemma drain_fold_route_spec:
  assumes "sorted_wrt (<) (map ev_offset envs)" and "list_all (\<lambda>e. ev_offset e < U64_MAX) envs"
  shows "drain_spec (fold (route_spec R view b) envs Map.empty) f =
    delivered_ops R view b (filter (\<lambda>e. f \<le> ev_offset e) envs)"
  using assms
proof (induction envs rule: rev_induct)
  case Nil
  then show ?case by (simp add: drain_spec_def delivered_ops_def)
next
  case (snoc e envs)
  have "k < ev_offset e" if "k \<in> dom (fold (route_spec R view b) envs Map.empty)" for k
    using subsetD [OF dom_fold_route_spec that] snoc.prems(1) by (auto simp: sorted_wrt_append)
  note grow = drain_spec_snoc [OF this]
  have last: "ev_offset e < U64_MAX" and IH: "drain_spec (fold (route_spec R view b) envs Map.empty) f =
      delivered_ops R view b (filter (\<lambda>e. f \<le> ev_offset e) envs)"
    using snoc by (simp_all add: sorted_wrt_append)
  show ?case
    by (cases "event_entry R view b e")
      (simp_all add: route_spec_def [of R view b e] grow last IH delivered_ops_def List.map_filter_def
        del: fun_upd_apply)
qed

text \<open>C16: from publication to delivery. Start the broker and let publishers, none overlapping another,
  publish fewer than 2^64 changes; let the router route what it received into a log in which
  the bucket is new. Then draining the bucket from any LSN lists exactly the ops of the
  received changes from that offset on that affect the bucket, once each, in the order in
  which they were published.\<close>

theorem published_order_is_drained:
  assumes "broker_step\<^sup>*\<^sup>* broker_start w" and "\<not> bw_overlap w" and "bw_stamped w < 2 ^ 64"
    and "redb_healthy (re_log R) V" and "log_inv (re_log R) V db"
    and "bucket_id_fits (bucket_name b)" and "log_at (re_log R) V db (bucket_name b) = Map.empty"
    and "list_all (event_storable R view) (bw_received w)"
    and "\<And>bs. mset (re_sched R bs) = mset bs"
    and "router_loop R channel view (map Inr (bw_received w)) (db, m) = (r, db', m')"
  shows "r = Inr () \<and>
    drain_since (re_log R) b from_lsn db' =
      Inr (delivered_ops R view b (filter (\<lambda>e. lsn_u64 from_lsn \<le> ev_offset e) (bw_received w)))"
proof -
  have inv: "log_inv (re_log R) V (fst (db, m))" using assms(5) by simp
  have run: "router_loop R channel view (map Inr (bw_received w) @ []) (db, m) = (r, db', m')"
    using assms(10) by simp
  from router_loop_refines [OF assms(4) inv assms(8,9) run]
  have r: "r = Inr ()" and inv': "log_inv (re_log R) V db'"
    and at: "log_at (re_log R) V db' (bucket_name b) =
      fold (route_spec R view b) (bw_received w) Map.empty"
    using assms(6,7) by auto
  have small: "list_all (\<lambda>e. ev_offset e < U64_MAX) (bw_received w)"
    and sorted: "sorted_wrt (<) (map ev_offset (bw_received w))"
    using broker_inv_reachable [OF assms(1)] assms(2,3) below_U64_MAX [OF _ assms(3)]
    by (auto simp: broker_inv_def in_flight_def list_all_iff sorted_wrt_append)
  show ?thesis
    using r redb_healthy.drain_total [OF assms(4) inv' assms(6)] drain_fold_route_spec [OF sorted small]
    by (simp add: at)
qed

theorem published_order_is_drained_witness:
  "\<exists>db' m'. router_loop sample_router ''wal'' (\<lambda>_. sample_cached) [Inr sample_event]
      (mem_empty, new_metrics) = (Inr (), db', m') \<and>
    drain_since mem_env sample_bucket (PgLsn 0) db' = Inr [routed_op sample_change 0 sample_bucket]"
proof -
  obtain r db' m' where run: "router_loop sample_router ''wal'' (\<lambda>_. sample_cached)
      (map Inr (bw_received sample_broker_run)) (mem_empty, new_metrics) = (r, db', m')"
    by (metis surj_pair)
  have "redb_healthy (re_log sample_router) mem_view" "log_inv (re_log sample_router) mem_view mem_empty"
    "log_at (re_log sample_router) mem_view mem_empty (bucket_name sample_bucket) = Map.empty"
    "list_all (event_storable sample_router (\<lambda>_. sample_cached)) (bw_received sample_broker_run)"
    "\<not> bw_overlap sample_broker_run" "bw_stamped sample_broker_run < 2 ^ 64"
    by (auto simp: mem_redb_healthy log_inv_mem_empty sample_broker_run_def sample_storable)
  from published_order_is_drained [OF sample_broker_reachable this(5,6,1,2) sample_bucket_name_fits
      this(3,4) sample_sched run, of "PgLsn 0"] run
  show ?thesis
    by (simp add: sample_broker_run_def delivered_ops_def map_filter_simps event_entry_def sample_affected
        routed_entry_def sample_event_def [THEN arg_cong [where f = ev_offset]])
qed

end
