(* ===== verification/Effects.thy ===== *)
theory Effects
  imports PES_Prelude
begin

section \<open>Handlers as state-changing computations that may fail\<close>

text \<open>
  An \<^verbatim>\<open>async fn(&mut self) -> Result<T, E>\<close> is a function from the state to its result and the
  state it leaves, which an error does not undo. \<open>seq\<close> is \<^verbatim>\<open>let x = a.await?; ...\<close>, \<open>attempt\<close> is
  \<^verbatim>\<open>let r = a.await\<close> without the question mark, \<open>for_each\<close> is a \<^verbatim>\<open>for\<close> loop whose body may return
  early. The locale \<open>effect_bound\<close> is the interface of a bound on what a computation may
  do to the state, a reflexive and transitive relation: a handler stays within it when its
  parts do.
\<close>

type_synonym ('w, 'e, 'a) action = "'w \<Rightarrow> ('e + 'a) \<times> 'w"

definition ret :: "'a \<Rightarrow> ('w, 'e, 'a) action" where
  "ret x w = (Inr x, w)"

definition throw :: "'e \<Rightarrow> ('w, 'e, 'a) action" where
  "throw e w = (Inl e, w)"

definition lift_result :: "'e + 'a \<Rightarrow> ('w, 'e, 'a) action" where
  "lift_result r w = (r, w)"

definition seq :: "('w, 'e, 'a) action \<Rightarrow> ('a \<Rightarrow> ('w, 'e, 'b) action) \<Rightarrow> ('w, 'e, 'b) action" where
  "seq a f w = (case a w of (Inl e, w') \<Rightarrow> (Inl e, w') | (Inr x, w') \<Rightarrow> f x w')"

definition attempt :: "('w, 'e, 'a) action \<Rightarrow> ('w, 'f, 'e + 'a) action" where
  "attempt a w = (case a w of (r, w') \<Rightarrow> (Inr r, w'))"

definition get_state :: "('w, 'e, 'w) action" where
  "get_state w = (Inr w, w)"

fun for_each :: "('x \<Rightarrow> ('w, 'e, unit) action) \<Rightarrow> 'x list \<Rightarrow> ('w, 'e, unit) action" where
  "for_each f [] = ret ()"
| "for_each f (x # xs) = seq (f x) (\<lambda>_. for_each f xs)"

lemma action_simps [simp]:
  "ret x w = (Inr x, w)" "throw e w = (Inl e, w)" "lift_result r w = (r, w)"
  "get_state w = (Inr w, w)"
  by (simp_all add: ret_def throw_def lift_result_def get_state_def)

lemma seq_Inr [result_simps]:
  "seq a f w = (Inr y, w'') \<longleftrightarrow> (\<exists>x w'. a w = (Inr x, w') \<and> f x w' = (Inr y, w''))"
  by (auto simp: seq_def split: prod.splits sum.splits)

lemma seq_Inl [result_simps]:
  "seq a f w = (Inl e, w'') \<longleftrightarrow>
     a w = (Inl e, w'') \<or> (\<exists>x w'. a w = (Inr x, w') \<and> f x w' = (Inl e, w''))"
  by (auto simp: seq_def split: prod.splits sum.splits)

lemma seq_run:
  "a w = (Inr x, w') \<Longrightarrow> seq a f w = f x w'"
  "a w = (Inl e, w') \<Longrightarrow> seq a f w = (Inl e, w')"
  by (simp_all add: seq_def)

lemma attempt_run [simp]: "attempt a w = (Inr (fst (a w)), snd (a w))"
  by (simp add: attempt_def case_prod_unfold)

subsection \<open>Bounds on effects\<close>

definition within :: "('w \<Rightarrow> 'w \<Rightarrow> bool) \<Rightarrow> ('w, 'e, 'a) action \<Rightarrow> bool" where
  "within R a \<longleftrightarrow> (\<forall>w. R w (snd (a w)))"

lemma withinD: "within R a \<Longrightarrow> a w = (r, w') \<Longrightarrow> R w w'"
  unfolding within_def by (metis snd_conv)

lemma withinI: "(\<And>w r w'. a w = (r, w') \<Longrightarrow> R w w') \<Longrightarrow> within R a"
  unfolding within_def by (metis prod.collapse)

locale effect_bound =
  fixes R :: "'w \<Rightarrow> 'w \<Rightarrow> bool"
  assumes effect_refl: "R w w"
    and effect_trans: "R w w' \<Longrightarrow> R w' w'' \<Longrightarrow> R w w''"
begin

lemma within_ret: "within R (ret x)"
  by (rule withinI) (auto simp: effect_refl)

lemma within_throw: "within R (throw e)"
  by (rule withinI) (auto simp: effect_refl)

lemma within_lift: "within R (lift_result r)"
  by (rule withinI) (auto simp: effect_refl)

lemma within_get_state: "within R get_state"
  by (rule withinI) (auto simp: effect_refl)

lemma within_seq_result:
  assumes "within R a" and "\<And>x w w'. a w = (Inr x, w') \<Longrightarrow> within R (f x)"
  shows "within R (seq a f)"
proof (rule withinI)
  fix w r w'
  assume run: "seq a f w = (r, w')"
  obtain ra wa where a: "a w = (ra, wa)" by (metis surj_pair)
  show "R w w'"
  proof (cases ra)
    case (Inl e)
    with run a show ?thesis using withinD [OF assms(1) a] by (simp add: seq_def)
  next
    case (Inr x)
    with run a have rest: "f x wa = (r, w')" by (simp add: seq_def)
    have "within R (f x)" using assms(2) a Inr by blast
    from effect_trans [OF withinD [OF assms(1) a] withinD [OF this rest]] show ?thesis .
  qed
qed

lemma within_seq: "within R a \<Longrightarrow> (\<And>x. within R (f x)) \<Longrightarrow> within R (seq a f)"
  by (rule within_seq_result)

lemma within_attempt: "within R a \<Longrightarrow> within R (attempt a)"
  by (simp add: within_def)

lemma within_for_each: "(\<And>x. x \<in> set xs \<Longrightarrow> within R (f x)) \<Longrightarrow> within R (for_each f xs)"
  by (induction xs) (auto intro: within_ret within_seq)

lemmas within_rules =
  within_ret within_throw within_lift within_get_state within_seq within_attempt within_for_each

end

end
