(* ===== verification/Protocol.thy ===== *)
theory Protocol
  imports Core_Types
begin

section \<open>Wire messages and client-facing errors\<close>

text \<open>
  \<^verbatim>\<open>pes-protocol\<close> (messages.rs, codec.rs, error.rs) and \<^verbatim>\<open>pes-gateway: error.rs\<close>. The MessagePack
  library is the parameter \<open>wire_codec\<close>. \<open>UnknownClientMessage\<close> stands for the variants the
  \<^verbatim>\<open>#[non_exhaustive]\<close> enum may gain, which the gateway has a branch for. The redaction boundary maps every internal error to one of four fixed
  responses.
\<close>

definition PROTOCOL_VERSION :: u8 where
  "PROTOCOL_VERSION = 1"

definition ERROR_CODE_UNSUPPORTED_PROTOCOL_VERSION :: u16 where
  "ERROR_CODE_UNSUPPORTED_PROTOCOL_VERSION = 4000"

datatype server_message =
    SnapshotBegin bucket_id u64 u8
  | SnapshotBatchMsg bucket_id "json list" u64
  | SnapshotComplete bucket_id bucket_checksum
  | Delta bucket_id "bucket_op list" pg_lsn
  | Checkpoint pg_lsn "(bucket_id, bucket_checksum) hmap"
  | Keepalive u64
  | ErrorMsg u16 string

datatype client_message =
    Subscribe "string list" string "pg_lsn option" u8
  | Ack pg_lsn
  | WriteMsg string string bucket_op_kind
  | Ping
  | UnknownClientMessage

datatype protocol_error = Encode string | Decode string

fun protocol_error_display :: "protocol_error \<Rightarrow> string" where
  "protocol_error_display (Encode e) = ''failed to encode message: '' @ e"
| "protocol_error_display (Decode e) = ''failed to decode message: '' @ e"

record wire_codec =
  to_vec_server :: "server_message \<Rightarrow> string + bytes"
  to_vec_client :: "client_message \<Rightarrow> string + bytes"
  from_slice_server :: "bytes \<Rightarrow> string + server_message"
  from_slice_client :: "bytes \<Rightarrow> string + client_message"

definition encode_server :: "wire_codec \<Rightarrow> server_message \<Rightarrow> protocol_error + bytes" where
  "encode_server W msg = map_err Encode (to_vec_server W msg)"

definition encode_client :: "wire_codec \<Rightarrow> client_message \<Rightarrow> protocol_error + bytes" where
  "encode_client W msg = map_err Encode (to_vec_client W msg)"

definition decode_server :: "wire_codec \<Rightarrow> bytes \<Rightarrow> protocol_error + server_message" where
  "decode_server W bs = map_err Decode (from_slice_server W bs)"

definition decode_client :: "wire_codec \<Rightarrow> bytes \<Rightarrow> protocol_error + client_message" where
  "decode_client W bs = map_err Decode (from_slice_client W bs)"

subsection \<open>Redaction\<close>

datatype gateway_error_code = AuthInvalid | BucketDenied | GatewayProtocolError | Internal

fun wire_code :: "gateway_error_code \<Rightarrow> u16" where
  "wire_code AuthInvalid = 4001"
| "wire_code BucketDenied = 4002"
| "wire_code GatewayProtocolError = 4003"
| "wire_code Internal = 4099"

record gateway_error_response =
  ge_code :: gateway_error_code
  ge_message :: string

fun gateway_error_from :: "sync_error \<Rightarrow> gateway_error_response" where
  "gateway_error_from (AuthError _) =
     \<lparr>ge_code = AuthInvalid, ge_message = ''authentication failed''\<rparr>"
| "gateway_error_from (BucketAssignmentFailed _) =
     \<lparr>ge_code = BucketDenied, ge_message = ''bucket assignment could not be resolved''\<rparr>"
| "gateway_error_from (ProtocolError _) =
     \<lparr>ge_code = GatewayProtocolError, ge_message = ''protocol error''\<rparr>"
| "gateway_error_from _ = \<lparr>ge_code = Internal, ge_message = ''internal error''\<rparr>"

text \<open>The error frames a redacted response can become.\<close>

definition redacted_frames :: "server_message list" where
  "redacted_frames =
     [ErrorMsg 4001 ''authentication failed'',
      ErrorMsg 4002 ''bucket assignment could not be resolved'',
      ErrorMsg 4003 ''protocol error'',
      ErrorMsg 4099 ''internal error'']"

lemma gateway_error_redacted:
  "ErrorMsg (wire_code (ge_code (gateway_error_from e))) (ge_message (gateway_error_from e)) \<in> set redacted_frames"
  by (cases e) (simp_all add: redacted_frames_def)

lemma wire_code_inject: "wire_code c = wire_code d \<longleftrightarrow> c = d"
  by (cases c; cases d) simp_all

end
