(* ===== verification/Auth.thy ===== *)
theory Auth
  imports Core_Types
begin

section \<open>Token validation (\<^verbatim>\<open>pes-gateway: auth.rs\<close>)\<close>

text \<open>
  \<^verbatim>\<open>JwtValidator\<close> in its two modes. The JWT library (signature and expiry checking, key
  construction) and the HTTP fetch of a key set are the parameter \<open>jwt_lib\<close>. The state is the
  configuration and the key cache. While a task waits for the refresh lock other tasks may
  fill the cache: \<open>others\<close> is what they did to it. Instants are read where the source reads
  the clock.
\<close>

datatype jwt_validation_config = HmacSha256 string | Rs256Jwks string

definition JWKS_CACHE_TTL :: duration where
  "JWKS_CACHE_TTL = from_secs (5 * 60)"

record jwk =
  jwk_kid :: "string option"
  jwk_n :: string
  jwk_e :: string

datatype algorithm = HS256 | RS256

datatype fetch_error = SendFailed string | ParseFailed string

record 'key jwt_lib =
  from_secret :: "bytes \<Rightarrow> 'key"
  from_rsa_components :: "string \<Rightarrow> string \<Rightarrow> string + 'key"
  jwt_decode :: "algorithm \<Rightarrow> 'key \<Rightarrow> string \<Rightarrow> string + token_claims"
  decode_header_kid :: "string \<Rightarrow> string + string option"
  fetch_jwks :: "string \<Rightarrow> fetch_error + jwk list"

type_synonym 'key key_cache = "(string, 'key \<times> instant) hmap"

record 'key jwt_validator =
  jv_config :: jwt_validation_config
  jv_cache :: "'key key_cache"

definition new_jwt_validator :: "jwt_validation_config \<Rightarrow> 'key jwt_validator" where
  "new_jwt_validator config = \<lparr>jv_config = config, jv_cache = []\<rparr>"

definition validate_hmac :: "'key jwt_lib \<Rightarrow> string \<Rightarrow> string \<Rightarrow> sync_error + token_claims" where
  "validate_hmac L token secret =
     map_err (\<lambda>e. AuthError (''HMAC validation failed: '' @ e))
       (jwt_decode L HS256 (from_secret L (as_bytes secret)) token)"

definition fresh_key :: "'key jwt_validator \<Rightarrow> instant \<Rightarrow> string \<Rightarrow> 'key option" where
  "fresh_key v now kid =
     (case hm_get (jv_cache v) kid of
        None \<Rightarrow> None
      | Some (key, fetched_at) \<Rightarrow> if elapsed now fetched_at < JWKS_CACHE_TTL then Some key else None)"

fun fetch_error_message :: "fetch_error \<Rightarrow> string" where
  "fetch_error_message (SendFailed e) = ''JWKS fetch failed: '' @ e"
| "fetch_error_message (ParseFailed e) = ''JWKS response parse failed: '' @ e"

text \<open>The keys of a fetched set are inserted one by one; a malformed one ends the loop and
  leaves the earlier ones in the cache.\<close>

fun insert_keys ::
  "'key jwt_lib \<Rightarrow> (jwk \<Rightarrow> instant) \<Rightarrow> jwk list \<Rightarrow> 'key jwt_validator \<Rightarrow>
   (sync_error + unit) \<times> 'key jwt_validator" where
  "insert_keys L clock [] v = (Inr (), v)"
| "insert_keys L clock (k # ks) v =
     (let key_kid = (case jwk_kid k of None \<Rightarrow> '''' | Some s \<Rightarrow> s) in
      case from_rsa_components L (jwk_n k) (jwk_e k) of
        Inl e \<Rightarrow> (Inl (AuthError (''invalid JWK RSA components: '' @ e)), v)
      | Inr key \<Rightarrow>
          insert_keys L clock ks (v\<lparr>jv_cache := hm_insert key_kid (key, clock k) (jv_cache v)\<rparr>))"

definition get_or_fetch_key ::
  "'key jwt_lib \<Rightarrow> instant \<Rightarrow> ('key key_cache \<Rightarrow> 'key key_cache) \<Rightarrow> instant \<Rightarrow> (jwk \<Rightarrow> instant) \<Rightarrow>
   string \<Rightarrow> string \<Rightarrow> 'key jwt_validator \<Rightarrow> (sync_error + 'key) \<times> 'key jwt_validator" where
  "get_or_fetch_key L t0 others t1 clock jwks_url kid v =
     (case fresh_key v t0 kid of
        Some key \<Rightarrow> (Inr key, v)
      | None \<Rightarrow>
          (let v = v\<lparr>jv_cache := others (jv_cache v)\<rparr> in
           case fresh_key v t1 kid of
             Some key \<Rightarrow> (Inr key, v)
           | None \<Rightarrow>
               (case fetch_jwks L jwks_url of
                  Inl e \<Rightarrow> (Inl (AuthError (fetch_error_message e)), v)
                | Inr keys \<Rightarrow>
                    (case insert_keys L clock keys v of
                       (Inl e, v) \<Rightarrow> (Inl e, v)
                     | (Inr _, v) \<Rightarrow>
                         (case hm_get (jv_cache v) kid of
                            None \<Rightarrow> (Inl (AuthError (''no JWK found for kid '' @ [CHR 39] @ kid @ [CHR 39])), v)
                          | Some (key, _) \<Rightarrow> (Inr key, v))))))"

definition validate_rs256 ::
  "'key jwt_lib \<Rightarrow> instant \<Rightarrow> ('key key_cache \<Rightarrow> 'key key_cache) \<Rightarrow> instant \<Rightarrow> (jwk \<Rightarrow> instant) \<Rightarrow>
   string \<Rightarrow> string \<Rightarrow> 'key jwt_validator \<Rightarrow> (sync_error + token_claims) \<times> 'key jwt_validator" where
  "validate_rs256 L t0 others t1 clock token jwks_url v =
     (case decode_header_kid L token of
        Inl e \<Rightarrow> (Inl (AuthError (''malformed JWT header: '' @ e)), v)
      | Inr None \<Rightarrow> (Inl (AuthError ''JWT header missing kid''), v)
      | Inr (Some kid) \<Rightarrow>
          (case get_or_fetch_key L t0 others t1 clock jwks_url kid v of
             (Inl e, v') \<Rightarrow> (Inl e, v')
           | (Inr key, v') \<Rightarrow>
               (map_err (\<lambda>e. AuthError (''RS256 validation failed: '' @ e)) (jwt_decode L RS256 key token), v')))"

definition jwt_validate ::
  "'key jwt_lib \<Rightarrow> instant \<Rightarrow> ('key key_cache \<Rightarrow> 'key key_cache) \<Rightarrow> instant \<Rightarrow> (jwk \<Rightarrow> instant) \<Rightarrow>
   string \<Rightarrow> 'key jwt_validator \<Rightarrow> (sync_error + token_claims) \<times> 'key jwt_validator" where
  "jwt_validate L t0 others t1 clock token v =
     (case jv_config v of
        HmacSha256 secret \<Rightarrow> (validate_hmac L token secret, v)
      | Rs256Jwks jwks_url \<Rightarrow> validate_rs256 L t0 others t1 clock token jwks_url v)"

subsection \<open>Where an accepted key comes from\<close>

definition jwk_names :: "jwk \<Rightarrow> string \<Rightarrow> bool" where
  "jwk_names k kid \<longleftrightarrow> (case jwk_kid k of None \<Rightarrow> '''' | Some s \<Rightarrow> s) = kid"

definition key_for ::
  "'key jwt_lib \<Rightarrow> ('key key_cache \<Rightarrow> 'key key_cache) \<Rightarrow> string \<Rightarrow> 'key jwt_validator \<Rightarrow> string \<Rightarrow> 'key \<Rightarrow> bool" where
  "key_for L others url v kid key \<longleftrightarrow>
     (\<exists>t. hm_get (jv_cache v) kid = Some (key, t)) \<or>
     (\<exists>t. hm_get (others (jv_cache v)) kid = Some (key, t)) \<or>
     (\<exists>keys k. fetch_jwks L url = Inr keys \<and> k \<in> set keys \<and> jwk_names k kid \<and>
        from_rsa_components L (jwk_n k) (jwk_e k) = Inr key)"

lemma insert_keys_lookup:
  assumes "insert_keys L clock ks v = (r, v')" and "hm_get (jv_cache v') kid = Some (key, t)"
  shows "hm_get (jv_cache v) kid = Some (key, t) \<or>
    (\<exists>k \<in> set ks. jwk_names k kid \<and> from_rsa_components L (jwk_n k) (jwk_e k) = Inr key)"
  using assms
proof (induction ks arbitrary: v)
  case (Cons k ks)
  show ?case
  proof (cases "from_rsa_components L (jwk_n k) (jwk_e k)")
    case (Inr key')
    let ?kid = "case jwk_kid k of None \<Rightarrow> '''' | Some s \<Rightarrow> s"
    from Inr Cons.prems(1) have
      "insert_keys L clock ks (v\<lparr>jv_cache := hm_insert ?kid (key', clock k) (jv_cache v)\<rparr>) = (r, v')"
      by (simp add: Let_def)
    from Cons.IH [OF this Cons.prems(2)] Inr show ?thesis
      by (auto simp: jwk_names_def split: if_splits)
  qed (use Cons.prems in \<open>simp add: Let_def\<close>)
qed simp

lemma insert_keys_error: "insert_keys L clock ks v = (Inl e, v') \<Longrightarrow> \<exists>m. e = AuthError m"
  by (induction L clock ks v rule: insert_keys.induct) (auto simp: Let_def split: sum.splits)

lemma fresh_key_cached: "fresh_key w t kid = Some key \<Longrightarrow> \<exists>t. hm_get (jv_cache w) kid = Some (key, t)"
  by (auto simp: fresh_key_def split: option.splits prod.splits if_splits)

lemma get_or_fetch_key_error:
  "get_or_fetch_key L t0 others t1 clock url kid v = (Inl e, v') \<Longrightarrow> \<exists>m. e = AuthError m"
  by (auto simp: get_or_fetch_key_def Let_def split: option.splits sum.splits prod.splits
      dest: insert_keys_error)

lemma get_or_fetch_key_key:
  assumes "get_or_fetch_key L t0 others t1 clock url kid v = (Inr key, v')"
  shows "key_for L others url v kid key"
proof -
  let ?w = "v\<lparr>jv_cache := others (jv_cache v)\<rparr>"
  consider (hit) "fresh_key v t0 kid = Some key" | (filled) "fresh_key ?w t1 kid = Some key"
    | (fetched) keys t where "fetch_jwks L url = Inr keys" "insert_keys L clock keys ?w = (Inr (), v')"
        "hm_get (jv_cache v') kid = Some (key, t)"
    using assms by (auto simp: get_or_fetch_key_def Let_def split: option.splits sum.splits prod.splits)
  then show ?thesis
  proof cases
    case hit
    then show ?thesis using fresh_key_cached by (fastforce simp: key_for_def)
  next
    case filled
    then show ?thesis using fresh_key_cached by (fastforce simp: key_for_def)
  next
    case fetched
    from insert_keys_lookup [OF fetched(2,3)] fetched(1) show ?thesis by (auto simp: key_for_def)
  qed
qed

text \<open>C23: a token is accepted only if the JWT library accepts it under the configured algorithm: in
  HMAC mode with the configured secret, in JWKS mode with a key that was cached or fetched
  for the key id in the token's header. The algorithm is fixed by the configuration, never
  by the token, and every failure is an authentication error.\<close>

theorem jwt_validate_sound:
  "case fst (jwt_validate L t0 others t1 clock token v) of
     Inl e \<Rightarrow> \<exists>m. e = AuthError m
   | Inr claims \<Rightarrow>
       (case jv_config v of
          HmacSha256 secret \<Rightarrow> jwt_decode L HS256 (from_secret L (as_bytes secret)) token = Inr claims
        | Rs256Jwks url \<Rightarrow>
            \<exists>kid key. decode_header_kid L token = Inr (Some kid) \<and> key_for L others url v kid key \<and>
              jwt_decode L RS256 key token = Inr claims)"
proof (cases "jv_config v")
  case (HmacSha256 secret)
  then show ?thesis
    by (auto simp: jwt_validate_def validate_hmac_def result_simps split: sum.splits)
next
  case (Rs256Jwks url)
  then show ?thesis
    by (auto simp: jwt_validate_def validate_rs256_def result_simps
        split: sum.splits option.splits prod.splits dest: get_or_fetch_key_error get_or_fetch_key_key)
qed

subsection \<open>A rotated key\<close>

text \<open>Once a key has been cached it is accepted for ever: after its TTL the set is fetched again,
  but the final lookup takes whatever the cache still holds for that id, also when the
  fetched set no longer lists it.\<close>

lemma insert_keys_other:
  assumes "list_all (\<lambda>k. \<not> jwk_names k kid) ks"
  shows "insert_keys L clock ks v = (Inr (), v') \<Longrightarrow> hm_get (jv_cache v') kid = hm_get (jv_cache v) kid"
  using assms
  by (induction ks arbitrary: v) (auto simp: jwk_names_def Let_def split: sum.splits)

theorem rotated_key_still_accepted:
  assumes "hm_get (jv_cache v) kid = Some (key, t)"
    and "JWKS_CACHE_TTL \<le> elapsed t0 t" and "JWKS_CACHE_TTL \<le> elapsed t1 t"
    and "fetch_jwks L url = Inr keys" and "list_all (\<lambda>k. \<not> jwk_names k kid) keys"
    and "insert_keys L clock keys v = (Inr (), v')"
  shows "get_or_fetch_key L t0 id t1 clock url kid v = (Inr key, v')"
  using assms insert_keys_other [OF assms(5,6)]
  by (simp add: get_or_fetch_key_def fresh_key_def Let_def)

end
