(* ===== verification/Snapshot.thy ===== *)
theory Snapshot
  imports Bucket_Assigner
begin

section \<open>Snapshots (\<^verbatim>\<open>pes-snapshot: checksum.rs, stream.rs\<close>)\<close>

text \<open>
  The keyset-paginated snapshot stream and its checksums. A stream is what its consumer sees:
  the batches yielded, then the error that ended it, if any. The page loop of the source can
  run for ever, so it is a partial function: \<open>None\<close> is not returning. The streaming hash \<^verbatim>\<open>Xxh3\<close>
  is the parameter \<open>xxh3\<close>; \<open>xxh3_law\<close> says that its digest depends on the bytes fed to it and
  not on how they were cut into updates. \<open>keyset_table\<close> states what Postgres promises for the
  page statement over a table that does not change: the rows after the cursor, in id order,
  at most as many as the limit.
\<close>

subsection \<open>Checksums\<close>

record 'h xxh3 =
  xx_new :: 'h
  xx_update :: "bytes \<Rightarrow> 'h \<Rightarrow> 'h"
  xx_digest :: "'h \<Rightarrow> u64"

fun hash_json_scalar :: "json_text \<Rightarrow> 'h xxh3 \<Rightarrow> json \<Rightarrow> 'h \<Rightarrow> 'h" where
  "hash_json_scalar J X (JString s) h = xx_update X (as_bytes s) h"
| "hash_json_scalar J X (JNumber n) h = xx_update X (as_bytes (number_text J n)) h"
| "hash_json_scalar J X (JBool b) h = xx_update X [if b then 1 else 0] h"
| "hash_json_scalar J X JNull h = xx_update X (as_bytes ''null'') h"
| "hash_json_scalar J X v h = xx_update X (as_bytes (value_text J v)) h"

definition hash_row_identity :: "json_text \<Rightarrow> 'h xxh3 \<Rightarrow> json \<Rightarrow> 'h \<Rightarrow> 'h" where
  "hash_row_identity J X row h =
     (let h = (case json_get row ''id'' of None \<Rightarrow> h | Some i \<Rightarrow> hash_json_scalar J X i h);
          h = xx_update X (as_bytes ''|'') h;
          h = (case json_get row ''_version'' of None \<Rightarrow> h | Some v \<Rightarrow> hash_json_scalar J X v h) in
      xx_update X (as_bytes '';'') h)"

definition checksum_rows :: "json_text \<Rightarrow> 'h xxh3 \<Rightarrow> json list \<Rightarrow> bucket_checksum" where
  "checksum_rows J X rows =
     BucketChecksum (xx_digest X (foldl (\<lambda>h row. hash_row_identity J X row h) (xx_new X) rows))"

definition checksum_batches :: "'h xxh3 \<Rightarrow> bucket_checksum list \<Rightarrow> bucket_checksum" where
  "checksum_batches X cs =
     BucketChecksum (xx_digest X
       (foldl (\<lambda>h c. xx_update X (u64_to_le_bytes (checksum_u64 c)) h) (xx_new X) cs))"

subsection \<open>Pages\<close>

definition DEFAULT_BATCH_SIZE :: nat where
  "DEFAULT_BATCH_SIZE = 10000"

record snapshot_batch =
  sb_bucket_id :: bucket_id
  sb_table_name :: string
  sb_rows :: "json list"
  sb_offset :: nat
  sb_is_last :: bool
  sb_batch_checksum :: bucket_checksum

record snapshot_stream =
  ss_assignments :: "bucket_assignment list"
  ss_batch_size :: nat

definition new_snapshot_stream :: "bucket_assignment list \<Rightarrow> snapshot_stream" where
  "new_snapshot_stream assignments =
     \<lparr>ss_assignments = assignments, ss_batch_size = DEFAULT_BATCH_SIZE\<rparr>"

definition with_batch_size :: "snapshot_stream \<Rightarrow> nat \<Rightarrow> snapshot_stream" where
  "with_batch_size s n = s\<lparr>ss_batch_size := n\<rparr>"

fun row_id_as_string :: "json_text \<Rightarrow> json \<Rightarrow> string option" where
  "row_id_as_string J (JString s) = Some s"
| "row_id_as_string J (JNumber n) = Some (number_text J n)"
| "row_id_as_string J _ = None"

datatype id_cast = Numeric | Text

fun as_sql :: "id_cast \<Rightarrow> string" where
  "as_sql Numeric = ''numeric''"
| "as_sql Text = ''text''"

definition id_type_sql :: "string \<Rightarrow> string" where
  "id_type_sql query =
     ''SELECT pg_typeof(sq.id)::text AS id_type FROM ('' @ query @ '') AS sq LIMIT 1''"

definition detect_id_cast :: "('pg, 'row) sqlx \<Rightarrow> string \<Rightarrow> 'pg \<Rightarrow> (sync_error + id_cast) \<times> 'pg" where
  "detect_id_cast S query pg =
     (case fetch_optional S (id_type_sql query) [] pg of
        (Inl e, pg') \<Rightarrow> (Inl (Database e), pg')
      | (Inr None, pg') \<Rightarrow> (Inr Text, pg')
      | (Inr (Some row), pg') \<Rightarrow>
          (case named_string S ''id_type'' row of
             Inl e \<Rightarrow> (Inl (Database e), pg')
           | Inr ty \<Rightarrow>
               (Inr (if ty \<in> set [''smallint'', ''integer'', ''bigint'', ''numeric'', ''real'', ''double precision'']
                     then Numeric else Text), pg')))"

definition page_sql :: "string \<Rightarrow> id_cast \<Rightarrow> string" where
  "page_sql query cast =
     ''SELECT row_to_json(sq) AS row_data FROM ('' @ query @ '') AS sq WHERE ($1::text IS NULL OR sq.id::'' @
     as_sql cast @ '' > ($1::text)::'' @ as_sql cast @ '') ORDER BY sq.id LIMIT $2''"

text \<open>\<^verbatim>\<open>limit as i64\<close>.\<close>

definition limit_bind :: "nat \<Rightarrow> pg_value" where
  "limit_bind limit = PBigint (sint (word_of_nat limit :: u64))"

definition fetch_page ::
  "('pg, 'row) sqlx \<Rightarrow> string \<Rightarrow> string option \<Rightarrow> nat \<Rightarrow> id_cast \<Rightarrow> 'pg \<Rightarrow> (sync_error + json list) \<times> 'pg" where
  "fetch_page S query cursor limit cast pg =
     (case fetch_all S (page_sql query cast) [PTextOpt cursor, limit_bind limit] pg of
        (Inl e, pg') \<Rightarrow> (Inl (Database e), pg')
      | (Inr rows, pg') \<Rightarrow> (map_err Database (try_map (named_json S ''row_data'') rows), pg'))"

definition next_cursor_of :: "json_text \<Rightarrow> json list \<Rightarrow> string option" where
  "next_cursor_of J rows =
     (if rows = [] then None
      else Option.bind (json_get (last rows) ''id'') (row_id_as_string J))"

type_synonym 'pg stream_result = "snapshot_batch list \<times> sync_error option \<times> 'pg"

partial_function (option) page_loop ::
  "json_text \<Rightarrow> 'h xxh3 \<Rightarrow> ('pg, 'row) sqlx \<Rightarrow> bucket_id \<Rightarrow> string \<Rightarrow> string \<Rightarrow> id_cast \<Rightarrow> nat \<Rightarrow>
   string option \<Rightarrow> nat \<Rightarrow> 'pg \<Rightarrow> 'pg stream_result option" where
  "page_loop J X S bucket table query cast batch_size cursor offset pg =
     (case fetch_page S query cursor batch_size cast pg of
        (Inl e, pg') \<Rightarrow> Some ([], Some e, pg')
      | (Inr rows, pg') \<Rightarrow>
          (let is_last = length rows < batch_size;
               batch = \<lparr>sb_bucket_id = bucket, sb_table_name = table, sb_rows = rows, sb_offset = offset,
                        sb_is_last = is_last, sb_batch_checksum = checksum_rows J X rows\<rparr> in
           if is_last then Some ([batch], None, pg')
           else Option.bind
             (page_loop J X S bucket table query cast batch_size (next_cursor_of J rows) (offset + 1) pg')
             (\<lambda>(bs, e, pg''). Some (batch # bs, e, pg''))))"

fun stream_queries ::
  "json_text \<Rightarrow> 'h xxh3 \<Rightarrow> ('pg, 'row) sqlx \<Rightarrow> bucket_id \<Rightarrow> nat \<Rightarrow> (string \<times> string) list \<Rightarrow> 'pg \<Rightarrow>
   'pg stream_result option" where
  "stream_queries J X S bucket batch_size [] pg = Some ([], None, pg)"
| "stream_queries J X S bucket batch_size ((table, query) # qs) pg =
     (case detect_id_cast S query pg of
        (Inl e, pg') \<Rightarrow> Some ([], Some e, pg')
      | (Inr cast, pg') \<Rightarrow>
          Option.bind (page_loop J X S bucket table query cast batch_size None 0 pg')
            (\<lambda>(bs, err, pg'').
               if err \<noteq> None then Some (bs, err, pg'')
               else map_option (\<lambda>(bs', err', p). (bs @ bs', err', p))
                      (stream_queries J X S bucket batch_size qs pg'')))"

fun stream_assignments ::
  "json_text \<Rightarrow> 'h xxh3 \<Rightarrow> ('pg, 'row) sqlx \<Rightarrow> nat \<Rightarrow> bucket_assignment list \<Rightarrow> 'pg \<Rightarrow>
   'pg stream_result option" where
  "stream_assignments J X S batch_size [] pg = Some ([], None, pg)"
| "stream_assignments J X S batch_size (asg # asgs) pg =
     Option.bind (stream_queries J X S (ba_bucket_id asg) batch_size (ba_data_queries asg) pg)
       (\<lambda>(bs, err, pg').
          if err \<noteq> None then Some (bs, err, pg')
          else map_option (\<lambda>(bs', err', p). (bs @ bs', err', p))
                 (stream_assignments J X S batch_size asgs pg'))"

definition snapshot_stream_run ::
  "json_text \<Rightarrow> 'h xxh3 \<Rightarrow> ('pg, 'row) sqlx \<Rightarrow> snapshot_stream \<Rightarrow> 'pg \<Rightarrow> 'pg stream_result option" where
  "snapshot_stream_run J X S s pg = stream_assignments J X S (ss_batch_size s) (ss_assignments s) pg"

subsection \<open>What the checksums digest\<close>

locale xxh3_law =
  fixes X :: "'h xxh3" and digest_of :: "bytes \<Rightarrow> u64"
  assumes digest_law: "xx_digest X (foldl (\<lambda>h bs. xx_update X bs h) (xx_new X) bss) = digest_of (concat bss)"

fun scalar_bytes :: "json_text \<Rightarrow> json \<Rightarrow> bytes" where
  "scalar_bytes J (JString s) = as_bytes s"
| "scalar_bytes J (JNumber n) = as_bytes (number_text J n)"
| "scalar_bytes J (JBool b) = [if b then 1 else 0]"
| "scalar_bytes J JNull = as_bytes ''null''"
| "scalar_bytes J v = as_bytes (value_text J v)"

definition field_updates :: "json_text \<Rightarrow> json \<Rightarrow> string \<Rightarrow> bytes list" where
  "field_updates J row field = (case json_get row field of None \<Rightarrow> [] | Some v \<Rightarrow> [scalar_bytes J v])"

definition row_updates :: "json_text \<Rightarrow> json \<Rightarrow> bytes list" where
  "row_updates J row =
     field_updates J row ''id'' @ [as_bytes ''|''] @ field_updates J row ''_version'' @ [as_bytes '';'']"

definition row_bytes :: "json_text \<Rightarrow> json \<Rightarrow> bytes" where
  "row_bytes J row = concat (row_updates J row)"

definition batch_bytes :: "bucket_checksum list \<Rightarrow> bytes" where
  "batch_bytes cs = concat (map (\<lambda>c. u64_to_le_bytes (checksum_u64 c)) cs)"

lemma hash_json_scalar_update: "hash_json_scalar J X v h = xx_update X (scalar_bytes J v) h"
  by (cases v) simp_all

lemma hash_row_identity_updates:
  "hash_row_identity J X row h = foldl (\<lambda>h bs. xx_update X bs h) h (row_updates J row)"
  by (simp add: hash_row_identity_def row_updates_def field_updates_def hash_json_scalar_update
      Let_def split: option.split)

lemma foldl_row_updates:
  "foldl (\<lambda>h row. hash_row_identity J X row h) h rows =
   foldl (\<lambda>h bs. xx_update X bs h) h (concat (map (row_updates J) rows))"
  by (induction rows arbitrary: h) (simp_all add: hash_row_identity_updates)

lemma foldl_map_updates:
  "foldl (\<lambda>h c. xx_update X (f c) h) h cs = foldl (\<lambda>h bs. xx_update X bs h) h (map f cs)"
  by (induction cs arbitrary: h) simp_all

lemma concat_concat_map: "concat (concat (map f xs)) = concat (map (\<lambda>x. concat (f x)) xs)"
  by (induction xs) simp_all

context xxh3_law
begin

lemma checksum_rows_digest:
  "checksum_rows J X rows = BucketChecksum (digest_of (concat (map (row_bytes J) rows)))"
  by (simp add: checksum_rows_def foldl_row_updates digest_law concat_concat_map row_bytes_def [abs_def])

lemma checksum_batches_digest: "checksum_batches X cs = BucketChecksum (digest_of (batch_bytes cs))"
  unfolding checksum_batches_def batch_bytes_def
  by (simp add: foldl_map_updates [of X "\<lambda>c. u64_to_le_bytes (checksum_u64 c)"] digest_law)

end

lemma length_u64_to_le_bytes: "length (u64_to_le_bytes w) = 8"
  by (simp add: u64_to_le_bytes_def)

lemma u64_to_le_bytes_nonempty: "u64_to_le_bytes w \<noteq> []"
  using length_u64_to_le_bytes [of w] by auto

lemma batch_bytes_inject: "batch_bytes cs = batch_bytes ds \<longleftrightarrow> cs = ds"
proof
  show "batch_bytes cs = batch_bytes ds \<Longrightarrow> cs = ds"
  proof (induction cs arbitrary: ds)
    case Nil
    then show ?case
      by (cases ds) (auto simp: batch_bytes_def u64_to_le_bytes_nonempty)
  next
    case (Cons c cs)
    then obtain d ds' where ds: "ds = d # ds'"
      by (cases ds) (auto simp: batch_bytes_def u64_to_le_bytes_nonempty)
    with Cons.prems have "u64_to_le_bytes (checksum_u64 c) = u64_to_le_bytes (checksum_u64 d) \<and>
        batch_bytes cs = batch_bytes ds'"
      by (simp add: batch_bytes_def length_u64_to_le_bytes)
    then show ?case
      using Cons.IH by (simp add: ds u64_to_le_bytes_def bucket_checksum.expand)
  qed
qed simp

text \<open>A hash that keeps everything it was fed satisfies the law for every digest.\<close>

definition buffer_xxh3 :: "(bytes \<Rightarrow> u64) \<Rightarrow> bytes xxh3" where
  "buffer_xxh3 f = \<lparr>xx_new = [], xx_update = (\<lambda>bs h. h @ bs), xx_digest = f\<rparr>"

lemma foldl_append_concat: "foldl (@) h bss = h @ concat bss"
  by (induction bss arbitrary: h) simp_all

interpretation buffer: xxh3_law "buffer_xxh3 f" f for f
  by unfold_locales (simp add: buffer_xxh3_def foldl_append_concat)

text \<open>The bucket-level checksum digests the batch checksums in order at fixed width, so its input
  determines the whole sequence: dropping, repeating, reordering or changing a batch changes
  what is digested.\<close>

theorem checksum_batches_order_sensitive:
  assumes "xxh3_law X digest_of"
  shows "checksum_batches X cs = BucketChecksum (digest_of (batch_bytes cs)) \<and>
    (batch_bytes cs = batch_bytes ds \<longleftrightarrow> cs = ds)"
  by (simp add: xxh3_law.checksum_batches_digest [OF assms] batch_bytes_inject)

theorem checksum_batches_order_sensitive_witness:
  "checksum_batches (buffer_xxh3 (\<lambda>bs. word_of_nat (length bs))) [BucketChecksum 1, BucketChecksum 2] =
     BucketChecksum 16 \<and>
   (batch_bytes [BucketChecksum 1, BucketChecksum 2] \<noteq> batch_bytes [BucketChecksum 2, BucketChecksum 1])"
proof -
  let ?cs = "[BucketChecksum 1, BucketChecksum 2]" and ?ds = "[BucketChecksum 2, BucketChecksum 1]"
  have "length (batch_bytes ?cs) = 16"
    by (simp add: batch_bytes_def length_u64_to_le_bytes)
  with checksum_batches_order_sensitive
    [OF buffer.xxh3_law_axioms [of "\<lambda>bs. word_of_nat (length bs)"], of ?cs ?ds]
  show ?thesis by simp
qed

text \<open>Row identities are not delimited: an id may contain the separators, so different row sets
  are digested as the same bytes, whatever the hash.\<close>

theorem checksum_rows_collision:
  assumes "xxh3_law X digest_of"
  shows "checksum_rows J X [JObject [(''id'', JString ''a'')], JObject [(''id'', JString ''b'')]] =
    checksum_rows J X [JObject [(''id'', JString ''a|;b'')]]"
  unfolding xxh3_law.checksum_rows_digest [OF assms]
  by (simp add: row_bytes_def row_updates_def field_updates_def as_bytes_def)

subsection \<open>Paging through a table\<close>

text \<open>The batches a table is to be delivered in: full pages, then one short page.\<close>

function chunks :: "nat \<Rightarrow> 'a list \<Rightarrow> 'a list list" where
  "chunks n xs = (if n = 0 \<or> length xs < n then [xs] else take n xs # chunks n (drop n xs))"
  by pat_completeness auto
termination
  by (relation "measure (length \<circ> snd)") auto

declare chunks.simps [simp del]

fun batches_of ::
  "json_text \<Rightarrow> 'h xxh3 \<Rightarrow> bucket_id \<Rightarrow> string \<Rightarrow> nat \<Rightarrow> json list list \<Rightarrow> snapshot_batch list" where
  "batches_of J X bucket table offset [] = []"
| "batches_of J X bucket table offset (c # cs) =
     \<lparr>sb_bucket_id = bucket, sb_table_name = table, sb_rows = c, sb_offset = offset,
      sb_is_last = (cs = []), sb_batch_checksum = checksum_rows J X c\<rparr> #
     batches_of J X bucket table (offset + 1) cs"

lemma concat_chunks: "concat (chunks n xs) = xs"
proof (induction n xs rule: chunks.induct)
  case (1 n xs)
  then show ?case by (cases "n = 0 \<or> length xs < n") (simp_all add: chunks.simps [of n xs])
qed

lemma chunks_nonempty [simp]: "chunks n xs \<noteq> []"
  by (simp add: chunks.simps [of n xs])

lemma chunks_length: "n \<noteq> 0 \<Longrightarrow> list_all (\<lambda>c. length c \<le> n) (chunks n xs)"
proof (induction n xs rule: chunks.induct)
  case (1 n xs)
  then show ?case by (cases "length xs < n") (simp_all add: chunks.simps [of n xs])
qed

lemma batches_of_rows: "map sb_rows (batches_of J X bucket table off cs) = cs"
  by (induction cs arbitrary: off) simp_all

lemma batches_of_offsets: "map sb_offset (batches_of J X bucket table off cs) = [off..<off + length cs]"
proof (induction cs arbitrary: off)
  case (Cons c cs)
  then show ?case by (simp add: upt_conv_Cons del: upt_Suc)
qed simp

lemma limit_bind_small: "n < 2 ^ 63 \<Longrightarrow> limit_bind n = PBigint (int n)"
proof -
  assume n: "n < 2 ^ 63"
  have "sint (word_of_nat n :: u64) = signed_take_bit 63 (int n)"
    by (simp add: signed_of_nat)
  also have "\<dots> = int n"
    using n by (intro signed_take_bit_int_eq_self) simp_all
  finally show ?thesis by (simp add: limit_bind_def)
qed

text \<open>The cursor after the first \<open>k\<close> rows.\<close>

definition cursor_at :: "json_text \<Rightarrow> json list \<Rightarrow> nat \<Rightarrow> string option" where
  "cursor_at J rows k =
     (if k = 0 then None else Option.bind (json_get (rows ! (k - 1)) ''id'') (row_id_as_string J))"

locale keyset_table =
  fixes J :: json_text and S :: "('pg, 'row) sqlx" and query :: string and cast :: id_cast
    and pg :: 'pg and rows :: "json list" and row_of :: "json \<Rightarrow> 'row" and key :: "json \<Rightarrow> 'k :: linorder"
  assumes id_order: "sorted_wrt (\<lambda>a b. key a < key b) rows"
    and id_text: "r \<in> set rows \<Longrightarrow> \<exists>t. Option.bind (json_get r ''id'') (row_id_as_string J) = Some t"
    and row_json: "r \<in> set rows \<Longrightarrow> named_json S ''row_data'' (row_of r) = Inr r"
    and first_page: "fetch_all S (page_sql query cast) [PTextOpt None, PBigint (int n)] pg =
      (Inr (map row_of (take n rows)), pg)"
    and next_page: "r \<in> set rows \<Longrightarrow> Option.bind (json_get r ''id'') (row_id_as_string J) = Some t \<Longrightarrow>
      fetch_all S (page_sql query cast) [PTextOpt (Some t), PBigint (int n)] pg =
      (Inr (map row_of (take n (filter (\<lambda>s. key r < key s) rows))), pg)"
begin

lemma after_row: "k < length rows \<Longrightarrow> filter (\<lambda>s. key (rows ! k) < key s) rows = drop (Suc k) rows"
proof -
  assume k: "k < length rows"
  have split: "rows = take k rows @ rows ! k # drop (Suc k) rows"
    using k by (rule id_take_nth_drop)
  have "sorted_wrt (\<lambda>a b. key a < key b) (take k rows @ rows ! k # drop (Suc k) rows)"
    using id_order split by simp
  then have "filter (\<lambda>s. key (rows ! k) < key s) (take k rows @ rows ! k # drop (Suc k) rows) = drop (Suc k) rows"
    by (auto simp: sorted_wrt_append filter_empty_conv intro!: filter_True)
  then show ?thesis using split by simp
qed

lemma fetch_rows:
  assumes "xs = take n ys" "set ys \<subseteq> set rows"
  shows "try_map (named_json S ''row_data'') (map row_of xs) = Inr xs"
proof -
  have "try_map (named_json S ''row_data'') (map row_of xs) = Inr (map id xs)" if "set xs \<subseteq> set rows" for xs
    using that by (induction xs) (auto simp: row_json)
  then show ?thesis using assms set_take_subset [of n ys] by fastforce
qed

lemma fetch_page_at:
  assumes "k \<le> length rows" "n < 2 ^ 63"
  shows "fetch_page S query (cursor_at J rows k) n cast pg = (Inr (take n (drop k rows)), pg)"
proof (cases k)
  case 0
  then show ?thesis
    by (simp add: fetch_page_def cursor_at_def limit_bind_small [OF assms(2)] first_page fetch_rows [of _ n rows])
next
  case (Suc j)
  with assms have j: "rows ! j \<in> set rows" "j < length rows" by simp_all
  obtain t where t: "Option.bind (json_get (rows ! j) ''id'') (row_id_as_string J) = Some t"
    using id_text [OF j(1)] by blast
  show ?thesis
    using fetch_rows [of "take n (drop k rows)" n "drop k rows"] set_drop_subset [of k rows]
    by (simp add: fetch_page_def cursor_at_def Suc t limit_bind_small [OF assms(2)] next_page [OF j(1) t] after_row [OF j(2)])
qed

lemma page_loop_from:
  assumes "0 < n" "n < 2 ^ 63" "k \<le> length rows"
  shows "page_loop J X S bucket table query cast n (cursor_at J rows k) off pg =
    Some (batches_of J X bucket table off (chunks n (drop k rows)), None, pg)"
  using assms(3)
proof (induction "length rows - k" arbitrary: k off rule: less_induct)
  case less
  let ?page = "take n (drop k rows)"
  note unfold = page_loop.simps [of J X S bucket table query cast n "cursor_at J rows k" off pg]
    fetch_page_at [OF less.prems assms(2)]
  show ?case
  proof (cases "length (drop k rows) < n")
    case True
    then show ?thesis using assms(1) by (simp add: unfold chunks.simps [of n "drop k rows"])
  next
    case False
    then have len: "length ?page = n" "k + n \<le> length rows" using less.prems by simp_all
    then have "?page \<noteq> []" and "last ?page = rows ! (k + n - 1)"
      using assms(1) by (auto simp: last_conv_nth)
    then have "next_cursor_of J ?page = cursor_at J rows (k + n)"
      using assms(1) by (simp add: next_cursor_of_def cursor_at_def)
    moreover have "length rows - (k + n) < length rows - k" using assms(1) len by linarith
    ultimately show ?thesis
      using less.hyps [of "k + n" "off + 1"] len False assms(1)
      by (simp add: unfold chunks.simps [of n "drop k rows"] add.commute)
  qed
qed

end

lemma batches_of_is_last:
  "cs \<noteq> [] \<Longrightarrow> map sb_is_last (batches_of J X bucket table off cs) = replicate (length cs - 1) False @ [True]"
proof (induction cs arbitrary: off)
  case (Cons c cs)
  then show ?case by (cases cs) simp_all
qed simp

lemma batches_of_fields:
  "list_all (\<lambda>c. length c \<le> n) cs \<Longrightarrow>
   list_all (\<lambda>b. sb_bucket_id b = bucket \<and> sb_table_name b = table \<and> length (sb_rows b) \<le> n \<and>
     sb_batch_checksum b = checksum_rows J X (sb_rows b)) (batches_of J X bucket table off cs)"
  by (induction cs arbitrary: off) simp_all

text \<open>An executable table with text ids for which the laws hold.\<close>

definition id_of :: "json \<Rightarrow> string" where
  "id_of row = (case json_get row ''id'' of Some (JString s) \<Rightarrow> s | _ \<Rightarrow> '''')"

definition table_page :: "json list \<Rightarrow> pg_value list \<Rightarrow> json list" where
  "table_page rows binds =
     (case binds of
        [PTextOpt None, PBigint n] \<Rightarrow> take (nat n) rows
      | [PTextOpt (Some t), PBigint n] \<Rightarrow> take (nat n) (filter (\<lambda>s. t < id_of s) rows)
      | _ \<Rightarrow> [])"

definition table_sqlx :: "(json list, json) sqlx" where
  "table_sqlx =
     \<lparr>fetch_optional = (\<lambda>sql binds pg. (Inr None, pg)),
      fetch_all = (\<lambda>sql binds pg. (Inr (table_page pg binds), pg)),
      execute = (\<lambda>sql binds pg. (Inr (), pg)),
      column_string = (\<lambda>_ row. Inl mismatched), column_i64 = (\<lambda>_ row. Inl mismatched),
      column_i32 = (\<lambda>_ row. Inl mismatched), column_bytes = (\<lambda>_ row. Inl mismatched),
      named_string = (\<lambda>_ row. Inl mismatched), named_json = (\<lambda>_ row. Inr row)\<rparr>"

definition text_rows :: "string list \<Rightarrow> json list" where
  "text_rows ids = map (\<lambda>i. JObject [(''id'', JString i)]) ids"

lemma id_of_text_row [simp]: "id_of (JObject [(''id'', JString i)]) = i"
  by (simp add: id_of_def)

lemma keyset_text_rows:
  assumes "sorted_wrt (<) ids"
  shows "keyset_table J table_sqlx query cast (text_rows ids) (text_rows ids) id id_of"
  using assms
  by unfold_locales (auto simp: text_rows_def sorted_wrt_map table_sqlx_def table_page_def)

interpretation text_table: keyset_table ref_json_text table_sqlx query cast
    "text_rows [''a'', ''b'', ''c'']" "text_rows [''a'', ''b'', ''c'']" id id_of for query cast
  by (rule keyset_text_rows) simp



subsection \<open>Paging that never ends\<close>

lemma page_loop_diverges:
  assumes closed: "\<And>c pg. I c pg \<Longrightarrow>
      \<exists>rows pg'. fetch_page S query c n cast pg = (Inr rows, pg') \<and> n \<le> length rows \<and>
        I (next_cursor_of J rows) pg'"
    and start: "I c pg"
  shows "page_loop J X S bucket table query cast n c off pg = None"
proof -
  have "page_loop J X S bucket table query cast n c off pg \<noteq> Some (bs, e, pg'')" if "I c pg" for c off pg bs e pg''
    using that
  proof (induction bs arbitrary: c off pg)
    case Nil
    from closed [OF Nil] show ?case
      by (auto simp: page_loop.simps [of J X S bucket table query cast n c off pg] Let_def not_less [symmetric]
          bind_eq_Some_conv)
  next
    case (Cons b bs)
    from closed [OF Cons.prems] obtain rows pg' where
      "fetch_page S query c n cast pg = (Inr rows, pg')" "n \<le> length rows" "I (next_cursor_of J rows) pg'"
      by blast
    with Cons.IH [of "next_cursor_of J rows" pg' "off + 1"] show ?case
      by (auto simp: page_loop.simps [of J X S bucket table query cast n c off pg] Let_def bind_eq_Some_conv)
  qed
  with start show ?thesis
    by (cases "page_loop J X S bucket table query cast n c off pg") auto
qed

text \<open>A full page whose last row has an id that is neither text nor number resets the cursor, and
  the same page is fetched for ever.\<close>

theorem unusable_id_never_ends:
  assumes "fetch_page S query None n cast pg = (Inr rows, pg)" and "n \<le> length rows"
    and "next_cursor_of J rows = None"
  shows "page_loop J X S bucket table query cast n None off pg = None"
  by (rule page_loop_diverges [where I = "\<lambda>c p. c = None \<and> p = pg"]) (use assms in auto)

theorem unusable_id_never_ends_witness:
  "page_loop ref_json_text (buffer_xxh3 (\<lambda>_. 0)) table_sqlx (BucketId ''b'') ''todos'' ''q'' Text 1 None 0
     [JObject [(''id'', JBool True)]] = None"
proof (rule unusable_id_never_ends)
  show "fetch_page table_sqlx ''q'' None 1 Text [JObject [(''id'', JBool True)]] =
      (Inr [JObject [(''id'', JBool True)]], [JObject [(''id'', JBool True)]])"
    by (simp add: fetch_page_def limit_bind_small table_sqlx_def table_page_def)
qed (simp_all add: next_cursor_of_def)

end
