(* ===== verification/Snapshot_Generator.thy ===== *)
theory Snapshot_Generator
  imports Snapshot
begin

section \<open>The snapshot stream as its consumer sees it\<close>

text \<open>
  \<^verbatim>\<open>SnapshotStream::stream\<close> is a lazy stream: a page is fetched only when the consumer asks for
  the next batch. \<open>stream_next\<close> is one poll of it, resumed from the suspended loops
  (\<open>snapshot_gen\<close>); every poll ends. Polling to the end (\<open>collect_stream\<close>) gives what the
  loops of \<open>snapshot_stream_run\<close> give.
\<close>

record page_position =
  pp_bucket :: bucket_id
  pp_table :: string
  pp_query :: string
  pp_cast :: id_cast
  pp_cursor :: "string option"
  pp_offset :: nat

record snapshot_gen =
  sg_current :: "page_position option"
  sg_pending :: "(bucket_id \<times> string \<times> string) list"
  sg_batch_size :: nat

definition pending_queries :: "bucket_assignment list \<Rightarrow> (bucket_id \<times> string \<times> string) list" where
  "pending_queries asgs =
     concat (map (\<lambda>asg. map (\<lambda>(table, query). (ba_bucket_id asg, table, query)) (ba_data_queries asg)) asgs)"

definition new_gen :: "snapshot_stream \<Rightarrow> snapshot_gen" where
  "new_gen s =
     \<lparr>sg_current = None, sg_pending = pending_queries (ss_assignments s), sg_batch_size = ss_batch_size s\<rparr>"

definition ended_gen :: "snapshot_gen \<Rightarrow> snapshot_gen" where
  "ended_gen g = g\<lparr>sg_current := None, sg_pending := []\<rparr>"

definition next_page ::
  "json_text \<Rightarrow> 'h xxh3 \<Rightarrow> ('pg, 'row) sqlx \<Rightarrow> page_position \<Rightarrow> snapshot_gen \<Rightarrow> 'pg \<Rightarrow>
   (sync_error + snapshot_batch) option \<times> snapshot_gen \<times> 'pg" where
  "next_page J X S p g pg =
     (case fetch_page S (pp_query p) (pp_cursor p) (sg_batch_size g) (pp_cast p) pg of
        (Inl e, pg') \<Rightarrow> (Some (Inl e), ended_gen g, pg')
      | (Inr rows, pg') \<Rightarrow>
          (let is_last = length rows < sg_batch_size g in
           (Some (Inr \<lparr>sb_bucket_id = pp_bucket p, sb_table_name = pp_table p, sb_rows = rows,
                       sb_offset = pp_offset p, sb_is_last = is_last,
                       sb_batch_checksum = checksum_rows J X rows\<rparr>),
            g\<lparr>sg_current := (if is_last then None
                else Some (p\<lparr>pp_cursor := next_cursor_of J rows, pp_offset := pp_offset p + 1\<rparr>))\<rparr>,
            pg')))"

definition stream_next ::
  "json_text \<Rightarrow> 'h xxh3 \<Rightarrow> ('pg, 'row) sqlx \<Rightarrow> snapshot_gen \<Rightarrow> 'pg \<Rightarrow>
   (sync_error + snapshot_batch) option \<times> snapshot_gen \<times> 'pg" where
  "stream_next J X S g pg =
     (case sg_current g of
        Some p \<Rightarrow> next_page J X S p g pg
      | None \<Rightarrow>
          (case sg_pending g of
             [] \<Rightarrow> (None, g, pg)
           | (bucket, table, query) # rest \<Rightarrow>
               (case detect_id_cast S query pg of
                  (Inl e, pg') \<Rightarrow> (Some (Inl e), ended_gen g, pg')
                | (Inr cast, pg') \<Rightarrow>
                    next_page J X S
                      \<lparr>pp_bucket = bucket, pp_table = table, pp_query = query, pp_cast = cast,
                       pp_cursor = None, pp_offset = 0\<rparr>
                      (g\<lparr>sg_pending := rest\<rparr>) pg')))"

partial_function (option) collect_stream ::
  "json_text \<Rightarrow> 'h xxh3 \<Rightarrow> ('pg, 'row) sqlx \<Rightarrow> snapshot_gen \<Rightarrow> 'pg \<Rightarrow> 'pg stream_result option" where
  "collect_stream J X S g pg =
     (case stream_next J X S g pg of
        (None, g', pg') \<Rightarrow> Some ([], None, pg')
      | (Some (Inl e), g', pg') \<Rightarrow> Some ([], Some e, pg')
      | (Some (Inr b), g', pg') \<Rightarrow>
          Option.bind (collect_stream J X S g' pg') (\<lambda>(bs, err, pg''). Some (b # bs, err, pg'')))"

subsection \<open>Polling to the end\<close>

definition then_rest :: "'pg stream_result \<Rightarrow> ('pg \<Rightarrow> 'pg stream_result option) \<Rightarrow> 'pg stream_result option" where
  "then_rest res k =
     (case res of (bs, err, pg) \<Rightarrow>
        if err \<noteq> None then Some (bs, err, pg)
        else map_option (\<lambda>(bs', err', p). (bs @ bs', err', p)) (k pg))"

lemma then_rest_Cons:
  "Option.bind (then_rest (bs, err, pg) k) (\<lambda>(bs, err, p). Some (b # bs, err, p)) =
   then_rest (b # bs, err, pg) k"
  by (cases "k pg") (auto simp: then_rest_def)

lemma collect_page:
  assumes "page_loop J X S (pp_bucket p) (pp_table p) (pp_query p) (pp_cast p) (sg_batch_size g)
      (pp_cursor p) (pp_offset p) pg = Some (bs, err, pg')"
  shows "collect_stream J X S (g\<lparr>sg_current := Some p\<rparr>) pg =
    then_rest (bs, err, pg') (collect_stream J X S (g\<lparr>sg_current := None\<rparr>))"
  using assms
proof (induction bs arbitrary: p pg)
  case Nil
  then obtain e where "fetch_page S (pp_query p) (pp_cursor p) (sg_batch_size g) (pp_cast p) pg = (Inl e, pg')"
    and "err = Some e"
    by (subst (asm) page_loop.simps) (auto simp: Let_def bind_eq_Some_conv split: prod.splits sum.splits if_splits)
  then show ?case
    by (subst collect_stream.simps) (simp add: stream_next_def next_page_def then_rest_def)
next
  case (Cons b bs)
  let ?fetch = "fetch_page S (pp_query p) (pp_cursor p) (sg_batch_size g) (pp_cast p) pg"
  obtain rows pg1 where fetch: "?fetch = (Inr rows, pg1)"
    using Cons.prems by (subst (asm) page_loop.simps) (auto split: prod.splits sum.splits)
  show ?case
  proof (cases "length rows < sg_batch_size g")
    case True
    with Cons.prems fetch show ?thesis
      by (subst (asm) page_loop.simps, subst collect_stream.simps)
        (auto simp: stream_next_def next_page_def then_rest_def map_option_case bind_split
          split: option.splits)
  next
    case False
    let ?p = "p\<lparr>pp_cursor := next_cursor_of J rows, pp_offset := Suc (pp_offset p)\<rparr>"
    from Cons.prems fetch False have b: "b = \<lparr>sb_bucket_id = pp_bucket p, sb_table_name = pp_table p,
        sb_rows = rows, sb_offset = pp_offset p, sb_is_last = False, sb_batch_checksum = checksum_rows J X rows\<rparr>"
      and rest: "page_loop J X S (pp_bucket ?p) (pp_table ?p) (pp_query ?p) (pp_cast ?p) (sg_batch_size g)
        (pp_cursor ?p) (pp_offset ?p) pg1 = Some (bs, err, pg')"
      by (subst (asm) page_loop.simps, auto simp: bind_eq_Some_conv)+
    from fetch False show ?thesis
      by (subst collect_stream.simps)
        (simp add: stream_next_def next_page_def b [symmetric] Cons.IH [OF rest] then_rest_Cons)
  qed
qed

definition gen_at :: "nat \<Rightarrow> (bucket_id \<times> string \<times> string) list \<Rightarrow> snapshot_gen" where
  "gen_at n qs = \<lparr>sg_current = None, sg_pending = qs, sg_batch_size = n\<rparr>"

lemma collect_query:
  assumes "detect_id_cast S query pg = (Inr cast, pg1)"
    and "page_loop J X S bucket table query cast n None 0 pg1 = Some (bs, err, pg')"
  shows "collect_stream J X S (gen_at n ((bucket, table, query) # qs)) pg =
    then_rest (bs, err, pg') (collect_stream J X S (gen_at n qs))"
proof -
  let ?p = "\<lparr>pp_bucket = bucket, pp_table = table, pp_query = query, pp_cast = cast,
     pp_cursor = None, pp_offset = 0\<rparr>"
  have "stream_next J X S (gen_at n ((bucket, table, query) # qs)) pg =
      stream_next J X S ((gen_at n qs)\<lparr>sg_current := Some ?p\<rparr>) pg1"
    by (simp add: stream_next_def gen_at_def assms(1) next_page_def ended_gen_def split: prod.split sum.split)
  then have "collect_stream J X S (gen_at n ((bucket, table, query) # qs)) pg =
      collect_stream J X S ((gen_at n qs)\<lparr>sg_current := Some ?p\<rparr>) pg1"
    by (simp add: collect_stream.simps [of J X S _ pg] collect_stream.simps [of J X S _ pg1])
  also have "\<dots> = then_rest (bs, err, pg') (collect_stream J X S ((gen_at n qs)\<lparr>sg_current := None\<rparr>))"
    by (rule collect_page) (use assms(2) in \<open>simp add: gen_at_def\<close>)
  finally show ?thesis by (simp add: gen_at_def)
qed

lemma collect_queries:
  assumes "stream_queries J X S bucket n queries pg = Some res"
  shows "collect_stream J X S (gen_at n (map (\<lambda>(table, query). (bucket, table, query)) queries @ qs)) pg =
    then_rest res (collect_stream J X S (gen_at n qs))"
  using assms
proof (induction queries arbitrary: pg res)
  case Nil
  then show ?case by (auto simp: then_rest_def map_option_case split: option.splits)
next
  case (Cons tq queries)
  obtain table query where tq: "tq = (table, query)" by (cases tq)
  show ?case
  proof (cases "detect_id_cast S query pg")
    case (Pair r pg1)
    show ?thesis
    proof (cases r)
      case (Inl e)
      with Cons.prems Pair tq show ?thesis
        by (subst collect_stream.simps) (auto simp: stream_next_def gen_at_def then_rest_def)
    next
      case (Inr cast)
      with Cons.prems Pair tq obtain bs err pg2 where
        page: "page_loop J X S bucket table query cast n None 0 pg1 = Some (bs, err, pg2)"
        and res: "then_rest (bs, err, pg2) (stream_queries J X S bucket n queries) = Some res"
        by (auto simp: then_rest_def bind_eq_Some_conv)
      note step = collect_query [OF Pair [unfolded Inr] page]
      show ?thesis
      proof (cases "err = None")
        case True
        with res obtain bs' err' p' where
          rest: "stream_queries J X S bucket n queries pg2 = Some (bs', err', p')"
          and "res = (bs @ bs', err', p')"
          by (auto simp: then_rest_def)
        then show ?thesis
          using True Cons.IH [OF rest]
          by (simp add: tq step then_rest_def option.map_comp comp_def case_prod_unfold)
      next
        case False
        with res show ?thesis by (auto simp: tq step then_rest_def)
      qed
    qed
  qed
qed

lemma collect_assignments:
  assumes "stream_assignments J X S n asgs pg = Some res"
  shows "collect_stream J X S (gen_at n (pending_queries asgs)) pg = Some res"
  using assms
proof (induction asgs arbitrary: pg res)
  case Nil
  then show ?case
    by (subst collect_stream.simps) (auto simp: stream_next_def gen_at_def pending_queries_def)
next
  case (Cons asg asgs)
  then obtain bs err pg' where
    one: "stream_queries J X S (ba_bucket_id asg) n (ba_data_queries asg) pg = Some (bs, err, pg')"
    and res: "then_rest (bs, err, pg') (stream_assignments J X S n asgs) = Some res"
    by (auto simp: then_rest_def bind_eq_Some_conv)
  have "pending_queries (asg # asgs) =
      map (\<lambda>(table, query). (ba_bucket_id asg, table, query)) (ba_data_queries asg) @ pending_queries asgs"
    by (simp add: pending_queries_def)
  with collect_queries [OF one, of "pending_queries asgs"] res Cons.IH show ?case
    by (auto simp: then_rest_def split: if_splits)
qed


definition todo_assignment :: bucket_assignment where
  "todo_assignment = \<lparr>ba_bucket_id = BucketId ''u:1'', ba_rule_id = ''u'', ba_parameters = [],
     ba_data_queries = [(''todos'', ''SELECT id FROM todos'')]\<rparr>"


end
