(* ===== verification/Connection.thy ===== *)
theory Connection
  imports Effects Assigner_Properties Op_Log_Reference Protocol Auth Snapshot_Generator
begin

section \<open>A client connection (\<^verbatim>\<open>pes-gateway: connection.rs\<close>)\<close>

text \<open>
  \<^verbatim>\<open>ConnectionHandler\<close>: handshake, snapshot delivery, the serving loop, client messages, writes
  and delta polling. The libraries are the fields of \<open>gateway_env\<close>: the WebSocket
  (\<open>ws_next\<close>, \<open>ws_send\<close>), the CRDT merge, and the parameters of the components below. The
  state \<open>world\<close> holds the socket, the shared assigner, op log and token validator, and the
  database; \<open>w_sent\<close> records, for the theorems, the messages handed to the socket in order.
  \<^verbatim>\<open>select!\<close> in \<^verbatim>\<open>serve\<close> takes whichever branch is ready: the branch is an argument, and the
  lifecycle is a step relation in which the rest of the system may act between two steps.
\<close>

datatype ws_message = Binary bytes | Close | OtherFrame

record ('ws, 'db, 'wt, 'rt, 'key, 'pg, 'row, 'h) gateway_env =
  gw_json :: json_text
  gw_xxh3 :: "'h xxh3"
  gw_sqlx :: "('pg, 'row) sqlx"
  gw_log :: "('db, 'wt, 'rt) log_env"
  gw_jwt :: "'key jwt_lib"
  gw_wire :: wire_codec
  ws_next :: "'ws \<Rightarrow> (string + ws_message) option \<times> 'ws"
  ws_send :: "bytes \<Rightarrow> 'ws \<Rightarrow> (string + unit) \<times> 'ws"
  apply_delta :: "bytes \<Rightarrow> bytes \<Rightarrow> string + bytes"

record ('ws, 'db, 'key, 'pg) world =
  w_ws :: 'ws
  w_assigner :: assigner
  w_db :: 'db
  w_jwt :: "'key jwt_validator"
  w_pg :: 'pg
  w_sent :: "server_message list"

record session =
  se_authorized :: "(bucket_id, bucket_assignment) hmap"
  se_last_seen :: "(bucket_id, pg_lsn) hmap"

text \<open>Clock readings of a handshake, and what other tasks do to the key cache while it waits for
  the refresh lock.\<close>

record 'key handshake_times =
  ht_clock :: "nat option"
  ht_lookup :: instant
  ht_insert :: instant
  ht_key_lookup :: instant
  ht_key_others :: "'key key_cache \<Rightarrow> 'key key_cache"
  ht_key_recheck :: instant
  ht_key_fetched :: "jwk \<Rightarrow> instant"

definition SHUTDOWN_ERROR_CODE :: u16 where
  "SHUTDOWN_ERROR_CODE = 1001"

text \<open>The system clock in milliseconds since the epoch; \<open>None\<close> before it.\<close>

definition now_ms :: "nat option \<Rightarrow> u64" where
  "now_ms clock = (case clock of None \<Rightarrow> 0 | Some ms \<Rightarrow> word_of_nat ms)"

subsection \<open>Sending\<close>

definition send_message ::
  "('ws, 'db, 'wt, 'rt, 'key, 'pg, 'row, 'h) gateway_env \<Rightarrow> server_message \<Rightarrow>
   (('ws, 'db, 'key, 'pg) world, sync_error, unit) action" where
  "send_message G msg w =
     (case encode_server (gw_wire G) msg of
        Inl e \<Rightarrow> (Inl (ProtocolError (protocol_error_display e)), w)
      | Inr bytes \<Rightarrow>
          (case ws_send G bytes (w_ws w) of
             (r, ws') \<Rightarrow> (map_err (\<lambda>e. ProtocolError (''WebSocket send failed: '' @ e)) r,
                          w\<lparr>w_ws := ws', w_sent := w_sent w @ [msg]\<rparr>)))"

definition send_error ::
  "('ws, 'db, 'wt, 'rt, 'key, 'pg, 'row, 'h) gateway_env \<Rightarrow> u16 \<Rightarrow> string \<Rightarrow>
   (('ws, 'db, 'key, 'pg) world, sync_error, unit) action" where
  "send_error G code message = send_message G (ErrorMsg code message)"

text \<open>The pattern \<^verbatim>\<open>let response = GatewayErrorResponse::from(&e); self.send_error(...)\<close>.\<close>

definition send_response ::
  "('ws, 'db, 'wt, 'rt, 'key, 'pg, 'row, 'h) gateway_env \<Rightarrow> sync_error \<Rightarrow>
   (('ws, 'db, 'key, 'pg) world, sync_error, unit) action" where
  "send_response G e =
     (let response = gateway_error_from e in send_error G (wire_code (ge_code response)) (ge_message response))"

subsection \<open>Handshake\<close>

definition next_frame ::
  "('ws, 'db, 'wt, 'rt, 'key, 'pg, 'row, 'h) gateway_env \<Rightarrow>
   (('ws, 'db, 'key, 'pg) world, sync_error, (string + ws_message) option) action" where
  "next_frame G w = (case ws_next G (w_ws w) of (r, ws') \<Rightarrow> (Inr r, w\<lparr>w_ws := ws'\<rparr>))"

definition validate_token ::
  "('ws, 'db, 'wt, 'rt, 'key, 'pg, 'row, 'h) gateway_env \<Rightarrow> 'key handshake_times \<Rightarrow> string \<Rightarrow>
   (('ws, 'db, 'key, 'pg) world, sync_error, token_claims) action" where
  "validate_token G t token w =
     (case jwt_validate (gw_jwt G) (ht_key_lookup t) (ht_key_others t) (ht_key_recheck t)
             (ht_key_fetched t) token (w_jwt w) of
        (r, v') \<Rightarrow> (r, w\<lparr>w_jwt := v'\<rparr>))"

definition assign_buckets ::
  "('ws, 'db, 'wt, 'rt, 'key, 'pg, 'row, 'h) gateway_env \<Rightarrow> 'key handshake_times \<Rightarrow> token_claims \<Rightarrow>
   (('ws, 'db, 'key, 'pg) world, sync_error, bucket_assignment list) action" where
  "assign_buckets G t claims w =
     (case assign (gw_json G) (gw_sqlx G) (ht_clock t) (ht_lookup t) (ht_insert t) claims
             (w_assigner w) (w_pg w) of
        (r, a', pg') \<Rightarrow> (r, w\<lparr>w_assigner := a', w_pg := pg'\<rparr>))"

definition new_session :: "string list \<Rightarrow> bucket_assignment list \<Rightarrow> pg_lsn option \<Rightarrow> session" where
  "new_session requested assignments resume_lsn =
     (let authorized = foldl (\<lambda>m asg. if ba_rule_id asg \<in> set requested
                                then hm_insert (ba_bucket_id asg) asg m else m) [] assignments;
          last_seen = (case resume_lsn of
                         None \<Rightarrow> []
                       | Some l \<Rightarrow> foldl (\<lambda>m b. hm_insert b l m) [] (hm_keys authorized)) in
      \<lparr>se_authorized = authorized, se_last_seen = last_seen\<rparr>)"

definition handshake ::
  "('ws, 'db, 'wt, 'rt, 'key, 'pg, 'row, 'h) gateway_env \<Rightarrow> 'key handshake_times \<Rightarrow>
   (('ws, 'db, 'key, 'pg) world, sync_error, session) action" where
  "handshake G t =
     seq (next_frame G) (\<lambda>frame.
     seq (lift_result (ok_or (ProtocolError ''connection closed before Subscribe'') frame)) (\<lambda>incoming.
     seq (lift_result (map_err (\<lambda>e. ProtocolError (''WebSocket error: '' @ e)) incoming)) (\<lambda>msg.
     case msg of
       Binary bytes \<Rightarrow>
         seq (lift_result (map_err (\<lambda>e. ProtocolError (''malformed Subscribe: '' @ protocol_error_display e))
                (decode_client (gw_wire G) bytes))) (\<lambda>client_msg.
         case client_msg of
           Subscribe requested token resume_lsn _ \<Rightarrow>
             seq (validate_token G t token) (\<lambda>claims.
             seq (assign_buckets G t claims) (\<lambda>assignments.
             ret (new_session requested assignments resume_lsn)))
         | _ \<Rightarrow> throw (ProtocolError ''first message must be Subscribe''))
     | _ \<Rightarrow> throw (ProtocolError ''expected a binary Subscribe frame''))))"

subsection \<open>Snapshot delivery\<close>

definition bucket_checksum_now ::
  "('ws, 'db, 'wt, 'rt, 'key, 'pg, 'row, 'h) gateway_env \<Rightarrow> bucket_id \<Rightarrow>
   (('ws, 'db, 'key, 'pg) world, sync_error, bucket_checksum) action" where
  "bucket_checksum_now G b w = (checksum (gw_log G) b (w_db w), w)"

partial_function (option) forward_batches ::
  "('ws, 'db, 'wt, 'rt, 'key, 'pg, 'row, 'h) gateway_env \<Rightarrow> bucket_id \<Rightarrow> snapshot_gen \<Rightarrow> u64 \<Rightarrow>
   ('ws, 'db, 'key, 'pg) world \<Rightarrow> ((sync_error + unit) \<times> ('ws, 'db, 'key, 'pg) world) option" where
  "forward_batches G wire_bucket_id g offset w =
     (case stream_next (gw_json G) (gw_xxh3 G) (gw_sqlx G) g (w_pg w) of
        (None, g', pg') \<Rightarrow> Some (Inr (), w\<lparr>w_pg := pg'\<rparr>)
      | (Some (Inl e), g', pg') \<Rightarrow> Some (Inl e, w\<lparr>w_pg := pg'\<rparr>)
      | (Some (Inr batch), g', pg') \<Rightarrow>
          (case send_message G (SnapshotBatchMsg wire_bucket_id (sb_rows batch) offset) (w\<lparr>w_pg := pg'\<rparr>) of
             (Inl e, w') \<Rightarrow> Some (Inl e, w')
           | (Inr _, w') \<Rightarrow> forward_batches G wire_bucket_id g' (offset + 1) w'))"

definition begin_snapshot ::
  "('ws, 'db, 'wt, 'rt, 'key, 'pg, 'row, 'h) gateway_env \<Rightarrow> bucket_assignment \<Rightarrow>
   (('ws, 'db, 'key, 'pg) world, sync_error, bucket_checksum) action" where
  "begin_snapshot G asg =
     seq (bucket_checksum_now G (ba_bucket_id asg)) (\<lambda>cs.
     seq (send_message G (SnapshotBegin (BucketId (ba_rule_id asg)) 0 PROTOCOL_VERSION)) (\<lambda>_.
     ret cs))"

definition deliver_snapshot ::
  "('ws, 'db, 'wt, 'rt, 'key, 'pg, 'row, 'h) gateway_env \<Rightarrow> bucket_assignment \<Rightarrow>
   ('ws, 'db, 'key, 'pg) world \<Rightarrow> ((sync_error + unit) \<times> ('ws, 'db, 'key, 'pg) world) option" where
  "deliver_snapshot G asg w =
     (case begin_snapshot G asg w of
        (Inl e, w') \<Rightarrow> Some (Inl e, w')
      | (Inr cs, w') \<Rightarrow>
          Option.bind (forward_batches G (BucketId (ba_rule_id asg)) (new_gen (new_snapshot_stream [asg])) 0 w')
            (\<lambda>(r, w''). case r of
               Inl e \<Rightarrow> Some (Inl e, w'')
             | Inr _ \<Rightarrow> Some (send_message G (SnapshotComplete (BucketId (ba_rule_id asg)) cs) w'')))"

fun deliver_each ::
  "('ws, 'db, 'wt, 'rt, 'key, 'pg, 'row, 'h) gateway_env \<Rightarrow> bucket_assignment list \<Rightarrow>
   ('ws, 'db, 'key, 'pg) world \<Rightarrow> ((sync_error + unit) \<times> ('ws, 'db, 'key, 'pg) world) option" where
  "deliver_each G [] w = Some (Inr (), w)"
| "deliver_each G (asg # asgs) w =
     Option.bind (deliver_snapshot G asg w)
       (\<lambda>(r, w'). case r of Inl e \<Rightarrow> Some (Inl e, w') | Inr _ \<Rightarrow> deliver_each G asgs w')"

definition fresh_assignments :: "session \<Rightarrow> bucket_assignment list" where
  "fresh_assignments s =
     map snd (filter (\<lambda>(b, _). \<not> hm_contains (se_last_seen s) b) (se_authorized s))"

definition deliver_snapshots ::
  "('ws, 'db, 'wt, 'rt, 'key, 'pg, 'row, 'h) gateway_env \<Rightarrow> session \<Rightarrow>
   ('ws, 'db, 'key, 'pg) world \<Rightarrow> ((sync_error + unit) \<times> ('ws, 'db, 'key, 'pg) world) option" where
  "deliver_snapshots G s w =
     (if fresh_assignments s = [] then Some (Inr (), w) else deliver_each G (fresh_assignments s) w)"

subsection \<open>Delta polling\<close>

definition scan_from :: "session \<Rightarrow> bucket_id \<Rightarrow> pg_lsn" where
  "scan_from s b =
     (case hm_get (se_last_seen s) b of None \<Rightarrow> PgLsn 0 | Some l \<Rightarrow> PgLsn (lsn_u64 l + 1))"

definition drain_now ::
  "('ws, 'db, 'wt, 'rt, 'key, 'pg, 'row, 'h) gateway_env \<Rightarrow> bucket_id \<Rightarrow> pg_lsn \<Rightarrow>
   (('ws, 'db, 'key, 'pg) world, sync_error, bucket_op list) action" where
  "drain_now G b from_lsn w = (drain_since (gw_log G) b from_lsn (w_db w), w)"

definition wire_bucket :: "session \<Rightarrow> bucket_id \<Rightarrow> bucket_id" where
  "wire_bucket s b =
     (case hm_get (se_authorized s) b of None \<Rightarrow> b | Some asg \<Rightarrow> BucketId (ba_rule_id asg))"

definition poll_bucket ::
  "('ws, 'db, 'wt, 'rt, 'key, 'pg, 'row, 'h) gateway_env \<Rightarrow> bucket_id \<Rightarrow> session \<Rightarrow>
   (('ws, 'db, 'key, 'pg) world, sync_error, session) action" where
  "poll_bucket G b s =
     seq (drain_now G b (scan_from s b)) (\<lambda>ops.
     if ops = [] then ret s
     else
       (let max_lsn = Max (set (map bo_lsn ops));
            wire = wire_bucket s b;
            ops' = map (\<lambda>op. op\<lparr>bo_bucket_id := wire\<rparr>) ops in
        seq (send_message G (Delta wire ops' max_lsn)) (\<lambda>_.
        ret (s\<lparr>se_last_seen := hm_insert b max_lsn (se_last_seen s)\<rparr>))))"

fun poll_buckets ::
  "('ws, 'db, 'wt, 'rt, 'key, 'pg, 'row, 'h) gateway_env \<Rightarrow> bucket_id list \<Rightarrow> session \<Rightarrow>
   (('ws, 'db, 'key, 'pg) world, sync_error, session) action" where
  "poll_buckets G [] s = ret s"
| "poll_buckets G (b # bs) s = seq (poll_bucket G b s) (poll_buckets G bs)"

definition poll_deltas ::
  "('ws, 'db, 'wt, 'rt, 'key, 'pg, 'row, 'h) gateway_env \<Rightarrow> session \<Rightarrow>
   (('ws, 'db, 'key, 'pg) world, sync_error, session) action" where
  "poll_deltas G s = poll_buckets G (hm_keys (se_authorized s)) s"

subsection \<open>Writes\<close>

definition pg_fetch_optional ::
  "('ws, 'db, 'wt, 'rt, 'key, 'pg, 'row, 'h) gateway_env \<Rightarrow> string \<Rightarrow> pg_value list \<Rightarrow>
   (('ws, 'db, 'key, 'pg) world, sync_error, 'row option) action" where
  "pg_fetch_optional G sql binds w =
     (case fetch_optional (gw_sqlx G) sql binds (w_pg w) of
        (r, pg') \<Rightarrow> (map_err Database r, w\<lparr>w_pg := pg'\<rparr>))"

definition pg_execute ::
  "('ws, 'db, 'wt, 'rt, 'key, 'pg, 'row, 'h) gateway_env \<Rightarrow> string \<Rightarrow> pg_value list \<Rightarrow>
   (('ws, 'db, 'key, 'pg) world, sync_error, unit) action" where
  "pg_execute G sql binds w =
     (case execute (gw_sqlx G) sql binds (w_pg w) of
        (r, pg') \<Rightarrow> (map_err Database r, w\<lparr>w_pg := pg'\<rparr>))"

definition scope_sql :: "string \<Rightarrow> string" where
  "scope_sql data_query =
     ''SELECT 1 FROM ('' @ data_query @ '') AS sq WHERE sq.id::text = $1 LIMIT 1''"

definition row_is_within_scope ::
  "('ws, 'db, 'wt, 'rt, 'key, 'pg, 'row, 'h) gateway_env \<Rightarrow> string \<Rightarrow> string \<Rightarrow>
   (('ws, 'db, 'key, 'pg) world, sync_error, bool) action" where
  "row_is_within_scope G data_query entity_id =
     seq (pg_fetch_optional G (scope_sql data_query) [PText entity_id]) (\<lambda>row.
     case row of
       None \<Rightarrow> ret False
     | Some r \<Rightarrow> seq (lift_result (map_err Database (column_i32 (gw_sqlx G) 0 r))) (\<lambda>_. ret True))"

definition upsert_sql :: "string \<Rightarrow> string" where
  "upsert_sql entity_type = ''UPDATE '' @ entity_type @ '' SET payload = $1 WHERE id::text = $2''"

definition delete_sql :: "string \<Rightarrow> string" where
  "delete_sql entity_type = ''DELETE FROM '' @ entity_type @ '' WHERE id::text = $1''"

definition crdt_select_sql :: "string \<Rightarrow> string" where
  "crdt_select_sql entity_type = ''SELECT crdt_state FROM '' @ entity_type @ '' WHERE id::text = $1''"

definition crdt_update_sql :: "string \<Rightarrow> string" where
  "crdt_update_sql entity_type = ''UPDATE '' @ entity_type @ '' SET crdt_state = $1 WHERE id::text = $2''"

definition decode_crdt_state ::
  "('pg, 'row) sqlx \<Rightarrow> 'row option \<Rightarrow> sync_error + bytes" where
  "decode_crdt_state S row =
     (case row of None \<Rightarrow> Inr [] | Some r \<Rightarrow> map_err Database (column_bytes S 0 r))"

fun apply_write ::
  "('ws, 'db, 'wt, 'rt, 'key, 'pg, 'row, 'h) gateway_env \<Rightarrow> string \<Rightarrow> string \<Rightarrow> bucket_op_kind \<Rightarrow>
   (('ws, 'db, 'key, 'pg) world, sync_error, unit) action" where
  "apply_write G entity_type entity_id (Upsert v) =
     pg_execute G (upsert_sql entity_type) [PJson v, PText entity_id]"
| "apply_write G entity_type entity_id Delete =
     pg_execute G (delete_sql entity_type) [PText entity_id]"
| "apply_write G entity_type entity_id (CrdtPatch bytes) =
     seq (pg_fetch_optional G (crdt_select_sql entity_type) [PText entity_id]) (\<lambda>row.
     seq (lift_result (decode_crdt_state (gw_sqlx G) row)) (\<lambda>existing.
     seq (lift_result (map_err (\<lambda>e. ProtocolError (''CRDT patch apply failed: '' @ e))
            (apply_delta G existing bytes))) (\<lambda>merged.
     pg_execute G (crdt_update_sql entity_type) [PBytes merged, PText entity_id])))"

definition handle_write ::
  "('ws, 'db, 'wt, 'rt, 'key, 'pg, 'row, 'h) gateway_env \<Rightarrow> session \<Rightarrow> string \<Rightarrow> string \<Rightarrow> bucket_op_kind \<Rightarrow>
   (('ws, 'db, 'key, 'pg) world, sync_error, unit) action" where
  "handle_write G s entity_type entity_id op =
     (case find (\<lambda>asg. hm_contains (ba_data_queries asg) entity_type) (hm_values (se_authorized s)) of
        None \<Rightarrow>
          send_response G (AuthError (''not authorized to write entity type '' @ quoted entity_type))
      | Some asg \<Rightarrow>
          seq (row_is_within_scope G (the (hm_get (ba_data_queries asg) entity_type)) entity_id) (\<lambda>owns_row.
          if \<not> owns_row
          then send_response G (AuthError (''not authorized to write entity '' @ quoted (entity_type @ ''/'' @ entity_id)))
          else
            seq (attempt (apply_write G entity_type entity_id op)) (\<lambda>result.
            case result of
              Inl e \<Rightarrow> send_response G e
            | Inr _ \<Rightarrow> ret ())))"

subsection \<open>Client messages\<close>

definition raise_tracked :: "pg_lsn \<Rightarrow> (bucket_id, pg_lsn) hmap \<Rightarrow> (bucket_id, pg_lsn) hmap" where
  "raise_tracked lsn m = map (\<lambda>(b, tracked). (b, if tracked < lsn then lsn else tracked)) m"

definition handle_client_message ::
  "('ws, 'db, 'wt, 'rt, 'key, 'pg, 'row, 'h) gateway_env \<Rightarrow> nat option \<Rightarrow> bytes \<Rightarrow> session \<Rightarrow>
   (('ws, 'db, 'key, 'pg) world, sync_error, bool \<times> session) action" where
  "handle_client_message G clock bytes s =
     (case decode_client (gw_wire G) bytes of
        Inl e \<Rightarrow>
          seq (send_response G (ProtocolError (protocol_error_display e))) (\<lambda>_. ret (True, s))
      | Inr (Ack lsn) \<Rightarrow> ret (True, s\<lparr>se_last_seen := raise_tracked lsn (se_last_seen s)\<rparr>)
      | Inr (WriteMsg entity_type entity_id op) \<Rightarrow>
          seq (handle_write G s entity_type entity_id op) (\<lambda>_. ret (True, s))
      | Inr Ping \<Rightarrow> seq (send_message G (Keepalive (now_ms clock))) (\<lambda>_. ret (True, s))
      | Inr (Subscribe _ _ _ _) \<Rightarrow>
          seq (send_response G (ProtocolError ''Subscribe may only be sent once, at connection start''))
            (\<lambda>_. ret (True, s))
      | Inr UnknownClientMessage \<Rightarrow>
          seq (send_response G (ProtocolError ''unrecognized client message variant'')) (\<lambda>_. ret (True, s)))"

subsection \<open>The serving loop and the lifecycle\<close>

datatype serve_branch = Incoming | DeltaTick | KeepaliveTick | ShutdownFired

datatype serve_outcome = Continue session | Return "sync_error + unit"

definition on_incoming ::
  "('ws, 'db, 'wt, 'rt, 'key, 'pg, 'row, 'h) gateway_env \<Rightarrow> nat option \<Rightarrow> session \<Rightarrow>
   (string + ws_message) option \<Rightarrow> ('ws, 'db, 'key, 'pg) world \<Rightarrow> serve_outcome \<times> ('ws, 'db, 'key, 'pg) world" where
  "on_incoming G clock s incoming w =
     (case incoming of
        None \<Rightarrow> (Return (Inr ()), w)
      | Some (Inl e) \<Rightarrow> (Return (Inl (ProtocolError (''WebSocket error: '' @ e))), w)
      | Some (Inr (Binary bytes)) \<Rightarrow>
          (case handle_client_message G clock bytes s w of
             (Inl e, w') \<Rightarrow> (Return (Inl e), w')
           | (Inr (go_on, s'), w') \<Rightarrow> (if go_on then Continue s' else Return (Inr ()), w'))
      | Some (Inr Close) \<Rightarrow> (Return (Inr ()), w)
      | Some (Inr OtherFrame) \<Rightarrow> (Continue s, w))"

fun serve_once ::
  "('ws, 'db, 'wt, 'rt, 'key, 'pg, 'row, 'h) gateway_env \<Rightarrow> nat option \<Rightarrow> serve_branch \<Rightarrow> session \<Rightarrow>
   ('ws, 'db, 'key, 'pg) world \<Rightarrow> serve_outcome \<times> ('ws, 'db, 'key, 'pg) world" where
  "serve_once G clock Incoming s w =
     (case ws_next G (w_ws w) of (incoming, ws') \<Rightarrow> on_incoming G clock s incoming (w\<lparr>w_ws := ws'\<rparr>))"
| "serve_once G clock DeltaTick s w =
     (case poll_deltas G s w of
        (Inl e, w') \<Rightarrow> (Return (Inl e), snd (send_response G e w'))
      | (Inr s', w') \<Rightarrow> (Continue s', w'))"
| "serve_once G clock KeepaliveTick s w =
     (case send_message G (Keepalive (now_ms clock)) w of
        (Inl e, w') \<Rightarrow> (Return (Inl e), w')
      | (Inr _, w') \<Rightarrow> (Continue s, w'))"
| "serve_once G clock ShutdownFired s w =
     (Return (Inr ()), snd (send_error G SHUTDOWN_ERROR_CODE ''server shutting down'' w))"

datatype connection = Connecting | Delivering session | Serving session | Closed "sync_error + unit"

text \<open>What the other tasks of the process and other database sessions may change between two steps
  of a connection.\<close>

definition others_act :: "('ws, 'db, 'key, 'pg) world \<Rightarrow> ('ws, 'db, 'key, 'pg) world \<Rightarrow> bool" where
  "others_act w w' \<longleftrightarrow> w_ws w' = w_ws w \<and> w_sent w' = w_sent w"

inductive connection_step ::
  "('ws, 'db, 'wt, 'rt, 'key, 'pg, 'row, 'h) gateway_env \<Rightarrow>
   connection \<times> ('ws, 'db, 'key, 'pg) world \<Rightarrow> connection \<times> ('ws, 'db, 'key, 'pg) world \<Rightarrow> bool"
  for G where
  refused: "handshake G t w = (Inl e, w') \<Longrightarrow>
    connection_step G (Connecting, w) (Closed (Inl e), snd (send_response G e w'))"
| accepted: "handshake G t w = (Inr s, w') \<Longrightarrow> connection_step G (Connecting, w) (Delivering s, w')"
| delivery_failed: "deliver_snapshots G s w = Some (Inl e, w') \<Longrightarrow>
    connection_step G (Delivering s, w) (Closed (Inl e), w')"
| delivered: "deliver_snapshots G s w = Some (Inr u, w') \<Longrightarrow>
    connection_step G (Delivering s, w) (Serving s, w')"
| served: "serve_once G clock branch s w = (Continue s', w') \<Longrightarrow>
    connection_step G (Serving s, w) (Serving s', w')"
| finished: "serve_once G clock branch s w = (Return r, w') \<Longrightarrow>
    connection_step G (Serving s, w) (Closed r, w')"
| others: "others_act w w' \<Longrightarrow> connection_step G (c, w) (c, w')"

end
