(* ===== verification/Connection_Properties.thy ===== *)
theory Connection_Properties
  imports Connection
begin

section \<open>Properties of a connection\<close>

text \<open>
  What a client can be sent and what it can make the gateway do: the session holds only
  requested buckets resolved for the token's subject, every frame of the whole lifecycle
  belongs to such a bucket or is a redacted error, writes pass the ownership check, and
  polling delivers exactly what the log holds beyond what was delivered.
\<close>

subsection \<open>The shape of a session\<close>

definition session_wf :: "session \<Rightarrow> bool" where
  "session_wf s \<longleftrightarrow>
     hm_wf (se_authorized s) \<and> hm_wf (se_last_seen s) \<and>
     list_all (\<lambda>(b, asg). ba_bucket_id asg = b) (se_authorized s) \<and>
     fst ` set (se_last_seen s) \<subseteq> fst ` set (se_authorized s)"

definition wire_buckets :: "session \<Rightarrow> bucket_id set" where
  "wire_buckets s = (\<lambda>asg. BucketId (ba_rule_id asg)) ` set (hm_values (se_authorized s))"

lemma wire_bucket_in: "b \<in> fst ` set (se_authorized s) \<Longrightarrow> wire_bucket s b \<in> wire_buckets s"
proof -
  assume "b \<in> fst ` set (se_authorized s)"
  then obtain asg where asg: "hm_get (se_authorized s) b = Some asg"
    by (metis map_of_eq_None_iff not_Some_eq)
  from hm_get_value [OF this] show ?thesis
    by (simp add: wire_bucket_def wire_buckets_def asg)
qed

lemma hm_wf_raise [simp]: "hm_wf (raise_tracked l m) = hm_wf m"
  by (simp add: hm_wf_def raise_tracked_def comp_def case_prod_unfold)

lemma keys_raise [simp]: "fst ` set (raise_tracked l m) = fst ` set m"
  by (simp add: raise_tracked_def image_image case_prod_unfold)

lemma hm_get_raise: "hm_get (raise_tracked l m) b = map_option (\<lambda>t. if t < l then l else t) (hm_get m b)"
  by (simp add: raise_tracked_def map_of_map)

text \<open>Granting: the loop that fills the authorized map.\<close>

definition grant :: "string list \<Rightarrow> (bucket_id, bucket_assignment) hmap \<Rightarrow> bucket_assignment \<Rightarrow> (bucket_id, bucket_assignment) hmap" where
  "grant requested m asg =
     (if ba_rule_id asg \<in> set requested then hm_insert (ba_bucket_id asg) asg m else m)"

lemma grant_inv:
  assumes "hm_wf m" "\<And>b asg. hm_get m b = Some asg \<Longrightarrow>
      asg \<in> A \<and> ba_bucket_id asg = b \<and> ba_rule_id asg \<in> set requested"
  shows "hm_wf (foldl (grant requested) m asgs) \<and>
    (\<forall>b asg. hm_get (foldl (grant requested) m asgs) b = Some asg \<longrightarrow>
       asg \<in> A \<union> set asgs \<and> ba_bucket_id asg = b \<and> ba_rule_id asg \<in> set requested) \<and>
    dom (hm_get (foldl (grant requested) m asgs)) =
      dom (hm_get m) \<union> ba_bucket_id ` {asg \<in> set asgs. ba_rule_id asg \<in> set requested}"
  using assms
proof (induction asgs arbitrary: m A)
  case (Cons asg asgs)
  have "hm_wf (grant requested m asg)" using Cons.prems(1) by (simp add: grant_def)
  moreover have "asg' \<in> insert asg A \<and> ba_bucket_id asg' = b \<and> ba_rule_id asg' \<in> set requested"
    if "hm_get (grant requested m asg) b = Some asg'" for b asg'
    using that Cons.prems(2) by (auto simp: grant_def split: if_splits)
  ultimately have "hm_wf (foldl (grant requested) (grant requested m asg) asgs) \<and>
    (\<forall>b asg'. hm_get (foldl (grant requested) (grant requested m asg) asgs) b = Some asg' \<longrightarrow>
       asg' \<in> insert asg A \<union> set asgs \<and> ba_bucket_id asg' = b \<and> ba_rule_id asg' \<in> set requested) \<and>
    dom (hm_get (foldl (grant requested) (grant requested m asg) asgs)) =
      dom (hm_get (grant requested m asg)) \<union> ba_bucket_id ` {asg \<in> set asgs. ba_rule_id asg \<in> set requested}"
    by (rule Cons.IH)
  note IH = this [THEN conjunct1] this [THEN conjunct2, THEN conjunct1] this [THEN conjunct2, THEN conjunct2]
  have "dom (hm_get (grant requested m asg)) \<union> ba_bucket_id ` {asg \<in> set asgs. ba_rule_id asg \<in> set requested} =
      dom (hm_get m) \<union> ba_bucket_id ` {a \<in> set (asg # asgs). ba_rule_id a \<in> set requested}"
    by (auto simp: grant_def)
  with IH show ?case by (simp only: foldl.simps list.set Un_insert_left Un_insert_right)
qed simp

lemma resume_all:
  "hm_wf m \<Longrightarrow> hm_wf (foldl (\<lambda>m b. hm_insert b l m) m bs) \<and>
   hm_get (foldl (\<lambda>m b. hm_insert b l m) m bs) b = (if b \<in> set bs then Some l else hm_get m b)"
  by (induction bs arbitrary: m) auto

lemma new_session_spec:
  shows "session_wf (new_session requested asgs resume)"
    and "hm_get (se_authorized (new_session requested asgs resume)) b = Some asg \<Longrightarrow>
      asg \<in> set asgs \<and> ba_bucket_id asg = b \<and> ba_rule_id asg \<in> set requested"
    and "dom (hm_get (se_authorized (new_session requested asgs resume))) =
      ba_bucket_id ` {asg \<in> set asgs. ba_rule_id asg \<in> set requested}"
    and "hm_get (se_last_seen (new_session requested asgs resume)) b =
      (if b \<in> dom (hm_get (se_authorized (new_session requested asgs resume))) then resume else None)"
proof -
  let ?s = "new_session requested asgs resume"
  have auth: "se_authorized ?s = foldl (grant requested) [] asgs"
    by (simp add: new_session_def Let_def grant_def [abs_def])
  note granted = grant_inv [of "[]" "{}" requested asgs, simplified, folded auth]
  then show *: "hm_get (se_authorized ?s) b = Some asg \<Longrightarrow>
      asg \<in> set asgs \<and> ba_bucket_id asg = b \<and> ba_rule_id asg \<in> set requested" for b asg
    by blast
  from granted show "dom (hm_get (se_authorized ?s)) = ba_bucket_id ` {asg \<in> set asgs. ba_rule_id asg \<in> set requested}"
    by blast
  let ?keys = "hm_keys (se_authorized ?s)"
  have last: "se_last_seen ?s =
      (case resume of None \<Rightarrow> [] | Some l \<Rightarrow> foldl (\<lambda>m b. hm_insert b l m) [] ?keys)"
    by (cases resume) (simp_all add: new_session_def Let_def)
  have keys: "dom (hm_get (se_authorized ?s)) = set ?keys" by (simp add: dom_map_of_conv_image_fst)
  show seen: "hm_get (se_last_seen ?s) b = (if b \<in> dom (hm_get (se_authorized ?s)) then resume else None)" for b
    unfolding last keys by (cases resume) (simp_all add: resume_all)
  have wf: "hm_wf (se_last_seen ?s)" unfolding last by (cases resume) (simp_all add: resume_all)
  have "list_all (\<lambda>(b, asg). ba_bucket_id asg = b) (se_authorized ?s)"
    using granted * by (auto simp: list_all_iff hm_get_in_set)
  moreover have "dom (hm_get (se_last_seen ?s)) \<subseteq> dom (hm_get (se_authorized ?s))"
    by (auto simp: seen split: if_splits)
  ultimately show "session_wf ?s"
    using granted wf by (simp add: session_wf_def dom_map_of_conv_image_fst)
qed

subsection \<open>What a handshake grants\<close>

definition granted ::
  "('ws, 'db, 'wt, 'rt, 'key, 'pg, 'row, 'h) gateway_env \<Rightarrow> 'key handshake_times \<Rightarrow>
   ('ws, 'db, 'key, 'pg) world \<Rightarrow> session \<Rightarrow> bool" where
  "granted G t w s \<longleftrightarrow>
     (\<exists>bytes requested token resume version claims asgs pg pg'.
        fst (ws_next G (w_ws w)) = Some (Inr (Binary bytes)) \<and>
        decode_client (gw_wire G) bytes = Inr (Subscribe requested token resume version) \<and>
        fst (jwt_validate (gw_jwt G) (ht_key_lookup t) (ht_key_others t) (ht_key_recheck t)
               (ht_key_fetched t) token (w_jwt w)) = Inr claims \<and>
        check_not_expired (ht_clock t) claims = Inr () \<and>
        resolve_rules (gw_json G) (gw_sqlx G) claims
          (hm_values (rs_rules (as_rule_set (w_assigner w)))) [] pg = (Inr asgs, pg') \<and>
        (\<forall>b asg. hm_get (se_authorized s) b = Some asg \<longrightarrow>
           asg \<in> set asgs \<and> ba_bucket_id asg = b \<and> ba_rule_id asg \<in> set requested) \<and>
        dom (hm_get (se_authorized s)) = ba_bucket_id ` {asg \<in> set asgs. ba_rule_id asg \<in> set requested} \<and>
        (\<forall>b. hm_get (se_last_seen s) b = (if b \<in> dom (hm_get (se_authorized s)) then resume else None)))"

lemma handshake_Inr:
  assumes "handshake G t w = (Inr s, w')"
  obtains bytes requested token resume version claims asgs where
    "fst (ws_next G (w_ws w)) = Some (Inr (Binary bytes))"
    "decode_client (gw_wire G) bytes = Inr (Subscribe requested token resume version)"
    "fst (jwt_validate (gw_jwt G) (ht_key_lookup t) (ht_key_others t) (ht_key_recheck t)
       (ht_key_fetched t) token (w_jwt w)) = Inr claims"
    "assign (gw_json G) (gw_sqlx G) (ht_clock t) (ht_lookup t) (ht_insert t) claims (w_assigner w) (w_pg w) =
       (Inr asgs, w_assigner w', w_pg w')"
    "s = new_session requested asgs resume" "w_sent w' = w_sent w" "w_db w' = w_db w"
proof -
  note run = assms [unfolded handshake_def]
  obtain r ws1 where next_msg: "ws_next G (w_ws w) = (r, ws1)" by (metis surj_pair)
  obtain bytes where r: "r = Some (Inr (Binary bytes))"
    using run by (auto simp: seq_def next_frame_def next_msg result_simps split: sum.splits ws_message.splits)
  obtain client_msg where dec: "decode_client (gw_wire G) bytes = Inr client_msg"
    using run by (cases "decode_client (gw_wire G) bytes") (auto simp: seq_def next_frame_def next_msg r)
  have rest: "(case client_msg of
         Subscribe requested token resume_lsn _ \<Rightarrow>
           seq (validate_token G t token) (\<lambda>claims.
           seq (assign_buckets G t claims) (\<lambda>assignments.
           ret (new_session requested assignments resume_lsn)))
       | _ \<Rightarrow> throw (ProtocolError ''first message must be Subscribe'')) (w\<lparr>w_ws := ws1\<rparr>) = (Inr s, w')"
    using run by (simp add: seq_def next_frame_def next_msg r dec)
  from rest obtain requested token resume version where
    msg: "client_msg = Subscribe requested token resume version"
    by (cases client_msg) auto
  obtain c v' where jwt: "jwt_validate (gw_jwt G) (ht_key_lookup t) (ht_key_others t) (ht_key_recheck t)
       (ht_key_fetched t) token (w_jwt w) = (c, v')" by (metis surj_pair)
  obtain claims where c: "c = Inr claims"
    using rest by (cases c) (simp_all add: msg seq_def validate_token_def jwt)
  obtain a asgr pg' where asg: "assign (gw_json G) (gw_sqlx G) (ht_clock t) (ht_lookup t) (ht_insert t) claims
      (w_assigner w) (w_pg w) = (asgr, a, pg')" by (metis surj_pair)
  obtain asgs where asgr: "asgr = Inr asgs"
    using rest by (cases asgr) (simp_all add: msg seq_def validate_token_def jwt c assign_buckets_def asg)
  have s: "s = new_session requested asgs resume"
    and w': "w' = w\<lparr>w_ws := ws1, w_jwt := v', w_assigner := a, w_pg := pg'\<rparr>"
    using rest by (simp_all add: msg seq_def validate_token_def jwt c assign_buckets_def asg asgr)
  show thesis
    by (rule that [of bytes requested token resume version claims asgs])
      (simp_all add: next_msg r dec msg jwt c asg asgr s w')
qed

text \<open>C4: a session is what its token grants. A handshake succeeds only on a binary \<^verbatim>\<open>Subscribe\<close> frame
  whose token the validator accepts and that has not expired; the session then holds exactly
  the requested ones of the buckets resolved, from the rule set, for the subject of that
  token (through the shared cache too), each under its own id, resuming from the given LSN
  if there is one, and nothing has been sent.\<close>

theorem handshake_grants:
  assumes "cache_inv (gw_json G) (gw_sqlx G) (w_assigner w)"
    and "handshake G t w = (Inr s, w')"
  shows "granted G t w s \<and> session_wf s \<and> w_sent w' = w_sent w \<and>
    cache_inv (gw_json G) (gw_sqlx G) (w_assigner w')"
  using assms(2)
proof (rule handshake_Inr)
  fix bytes requested token resume version claims asgs
  assume frame: "fst (ws_next G (w_ws w)) = Some (Inr (Binary bytes))"
    "decode_client (gw_wire G) bytes = Inr (Subscribe requested token resume version)"
    and jwt: "fst (jwt_validate (gw_jwt G) (ht_key_lookup t) (ht_key_others t) (ht_key_recheck t)
       (ht_key_fetched t) token (w_jwt w)) = Inr claims"
    and asg: "assign (gw_json G) (gw_sqlx G) (ht_clock t) (ht_lookup t) (ht_insert t) claims (w_assigner w)
       (w_pg w) = (Inr asgs, w_assigner w', w_pg w')"
    and s: "s = new_session requested asgs resume" and sent: "w_sent w' = w_sent w"
  have "check_not_expired (ht_clock t) claims = Inr ()"
    using asg by (auto simp: assign_def split: sum.splits)
  moreover from assign_cache_inv [OF assms(1), where clock = "ht_clock t" and ?t0.0 = "ht_lookup t" and ?t1.0 = "ht_insert t"
      and claims = claims and pg = "w_pg w" and ?t2.0 = 0]
  obtain pg pg' where "resolve_rules (gw_json G) (gw_sqlx G) claims
      (hm_values (rs_rules (as_rule_set (w_assigner w)))) [] pg = (Inr asgs, pg')"
    and cache: "cache_inv (gw_json G) (gw_sqlx G) (w_assigner w')"
    unfolding asg by auto
  ultimately have "granted G t w s"
    unfolding granted_def using frame jwt
      new_session_spec(2-4) [where requested = requested and asgs = asgs and resume = resume, folded s]
    by blast
  with cache s sent show ?thesis by (simp add: new_session_spec(1))
qed

subsection \<open>A sample gateway\<close>

text \<open>A socket that yields the listed frames and accepts every message; a client codec of a few
  fixed frames.\<close>

definition sample_wire :: wire_codec where
  "sample_wire =
     \<lparr>to_vec_server = (\<lambda>_. Inr []), to_vec_client = (\<lambda>_. Inr []),
      from_slice_server = (\<lambda>_. Inl ''unused''),
      from_slice_client = (\<lambda>bs.
        if bs = [0] then Inr (Subscribe [''mine''] ''token'' (Some (PgLsn 5)) 1)
        else if bs = [1] then Inr (Ack (PgLsn 8))
        else if bs = [2] then Inr (WriteMsg ''todos'' ''7'' Delete)
        else Inl ''malformed'')\<rparr>"

definition sample_jwt :: "bytes jwt_lib" where
  "sample_jwt =
     \<lparr>from_secret = id, from_rsa_components = (\<lambda>_ _. Inl ''unused''),
      jwt_decode = (\<lambda>alg key token. if token = ''token'' then Inr (sample_claims ''alice'') else Inl ''bad token''),
      decode_header_kid = (\<lambda>_. Inr None), fetch_jwks = (\<lambda>_. Inr [])\<rparr>"

definition sample_gateway ::
  "('pg, 'row) sqlx \<Rightarrow> (ws_message list, mem_db, mem_db, mem_db, bytes, 'pg, 'row, bytes) gateway_env" where
  "sample_gateway S =
     \<lparr>gw_json = ref_json_text, gw_xxh3 = buffer_xxh3 (\<lambda>_. 0), gw_sqlx = S, gw_log = mem_env,
      gw_jwt = sample_jwt, gw_wire = sample_wire,
      ws_next = (\<lambda>ws. case ws of [] \<Rightarrow> (None, []) | m # ms \<Rightarrow> (Some (Inr m), ms)),
      ws_send = (\<lambda>_ ws. (Inr (), ws)), apply_delta = (\<lambda>a b. Inr (a @ b))\<rparr>"

definition sample_world :: "ws_message list \<Rightarrow> 'pg \<Rightarrow> (ws_message list, mem_db, bytes, 'pg) world" where
  "sample_world ws pg =
     \<lparr>w_ws = ws, w_assigner = sample_assigner, w_db = sample_db,
      w_jwt = new_jwt_validator (HmacSha256 ''secret''), w_pg = pg, w_sent = []\<rparr>"

definition sample_times :: "bytes handshake_times" where
  "sample_times =
     \<lparr>ht_clock = Some 1000, ht_lookup = 5, ht_insert = 7, ht_key_lookup = 0, ht_key_others = id,
      ht_key_recheck = 0, ht_key_fetched = (\<lambda>_. 0)\<rparr>"

lemmas sample_gateway_simps =
  sample_wire_def sample_jwt_def sample_gateway_def sample_world_def sample_times_def new_jwt_validator_def

lemma sample_handshake:
  "\<exists>w'. handshake (sample_gateway scripted_sqlx) sample_times (sample_world [Binary [0]] sample_pg) =
     (Inr (new_session [''mine''] [sample_assignment ''u1''] (Some (PgLsn 5))), w') \<and> w_sent w' = []"
  by (simp add: handshake_def seq_def next_frame_def validate_token_def assign_buckets_def
      sample_gateway_simps decode_client_def jwt_validate_def validate_hmac_def sample_assign)

theorem handshake_grants_witness:
  "\<exists>s w'. handshake (sample_gateway scripted_sqlx) sample_times (sample_world [Binary [0]] sample_pg) = (Inr s, w') \<and>
     granted (sample_gateway scripted_sqlx) sample_times (sample_world [Binary [0]] sample_pg) s"
proof -
  have "cache_inv (gw_json (sample_gateway scripted_sqlx)) (gw_sqlx (sample_gateway scripted_sqlx))
      (w_assigner (sample_world [Binary [0]] sample_pg))"
    by (simp add: cache_inv_def sample_gateway_simps sample_assigner_def)
  with sample_handshake show ?thesis using handshake_grants by blast
qed

subsection \<open>What is sent\<close>

definition shutdown_frame :: server_message where
  "shutdown_frame = ErrorMsg 1001 ''server shutting down''"

fun frame_allowed :: "bucket_id set \<Rightarrow> server_message \<Rightarrow> bool" where
  "frame_allowed W (SnapshotBegin b n v) \<longleftrightarrow> b \<in> W"
| "frame_allowed W (SnapshotBatchMsg b rows off) \<longleftrightarrow> b \<in> W"
| "frame_allowed W (SnapshotComplete b cs) \<longleftrightarrow> b \<in> W"
| "frame_allowed W (Delta b ops l) \<longleftrightarrow> b \<in> W \<and> ops \<noteq> [] \<and> list_all (\<lambda>op. bo_bucket_id op = b) ops"
| "frame_allowed W (Checkpoint l sums) \<longleftrightarrow> False"
| "frame_allowed W (Keepalive ms) \<longleftrightarrow> True"
| "frame_allowed W (ErrorMsg code message) \<longleftrightarrow>
     ErrorMsg code message \<in> set (shutdown_frame # redacted_frames)"

definition sends_only :: "(server_message \<Rightarrow> bool) \<Rightarrow> ('ws, 'db, 'key, 'pg) world \<Rightarrow> ('ws, 'db, 'key, 'pg) world \<Rightarrow> bool" where
  "sends_only P w w' \<longleftrightarrow> (\<exists>ms. w_sent w' = w_sent w @ ms \<and> list_all P ms)"

interpretation sends: effect_bound "sends_only P" for P
proof
  show "sends_only P w w" for w :: "('ws, 'db, 'key, 'pg) world"
    by (simp add: sends_only_def)
  show "sends_only P w w''" if "sends_only P w w'" "sends_only P w' w''"
    for w w' w'' :: "('ws, 'db, 'key, 'pg) world"
    using that by (auto simp: sends_only_def)
qed

lemma sends_only_quiet: "w_sent w' = w_sent w \<Longrightarrow> sends_only P w w'"
  by (simp add: sends_only_def)

lemma sends_only_cong:
  "w_sent v = w_sent w \<Longrightarrow> w_sent v' = w_sent w' \<Longrightarrow> sends_only P v v' = sends_only P w w'"
  by (simp add: sends_only_def)

lemma sends_send_message: "P m \<Longrightarrow> within (sends_only P) (send_message G m)"
  by (rule withinI) (auto simp: send_message_def sends_only_def split: sum.splits prod.splits)

lemma sends_send_response: "within (sends_only (frame_allowed W)) (send_response G e)"
  using gateway_error_redacted [of e]
  by (auto simp: send_response_def send_error_def Let_def intro!: sends_send_message)

lemma sends_quiet:
  "within (sends_only P) (next_frame G)" "within (sends_only P) (validate_token G t token)"
  "within (sends_only P) (assign_buckets G t claims)" "within (sends_only P) (bucket_checksum_now G b)"
  "within (sends_only P) (drain_now G b l)" "within (sends_only P) (pg_fetch_optional G sql binds)"
  "within (sends_only P) (pg_execute G sql binds)"
  by (rule withinI, rule sends_only_quiet,
      auto simp: next_frame_def validate_token_def assign_buckets_def bucket_checksum_now_def
        drain_now_def pg_fetch_optional_def pg_execute_def split: prod.splits)+

lemmas sends_rules = sends.within_rules sends_quiet sends_send_message sends_send_response

lemma sends_handshake: "within (sends_only P) (handshake G t)"
  unfolding handshake_def
  by (intro sends.within_rules sends_quiet; auto intro!: sends.within_rules sends_quiet
      split: ws_message.split client_message.split)

lemma sends_apply_write: "within (sends_only P) (apply_write G ty i op)"
  by (cases op) (auto intro!: sends.within_rules sends_quiet)

lemma sends_handle_write: "within (sends_only (frame_allowed W)) (handle_write G s ty i op)"
  unfolding handle_write_def row_is_within_scope_def
  by (auto intro!: sends.within_rules sends_quiet sends_send_response sends_apply_write
      split: option.split sum.split)

lemma sends_handle_client_message:
  "within (sends_only (frame_allowed W)) (handle_client_message G clock bytes s)"
  unfolding handle_client_message_def
  by (auto intro!: sends.within_rules sends_send_response sends_handle_write sends_send_message
      split: sum.split client_message.split)

lemma poll_bucket_session:
  assumes "poll_bucket G b s w = (Inr s', w')" and "b \<in> fst ` set (se_authorized s)"
  shows "se_authorized s' = se_authorized s \<and> (session_wf s \<longrightarrow> session_wf s')"
proof -
  have "s' = s \<or> (\<exists>l. s' = s\<lparr>se_last_seen := hm_insert b l (se_last_seen s)\<rparr>)"
    using assms(1) by (auto simp: poll_bucket_def result_simps Let_def split: if_splits)
  then show ?thesis
    using assms(2) by (elim disjE exE) (simp_all add: session_wf_def)
qed

lemma sends_poll_bucket:
  assumes "b \<in> fst ` set (se_authorized s)"
  shows "within (sends_only (frame_allowed (wire_buckets s))) (poll_bucket G b s)"
  unfolding poll_bucket_def Let_def
  using wire_bucket_in [OF assms]
  by (auto intro!: sends.within_rules sends_quiet sends_send_message simp: list_all_iff)

lemma poll_buckets_session:
  assumes "poll_buckets G bs s w = (Inr s', w')" and "set bs \<subseteq> fst ` set (se_authorized s)"
  shows "se_authorized s' = se_authorized s \<and> (session_wf s \<longrightarrow> session_wf s')"
  using assms
proof (induction bs arbitrary: s w)
  case (Cons b bs)
  then obtain s1 w1 where one: "poll_bucket G b s w = (Inr s1, w1)"
    and rest: "poll_buckets G bs s1 w1 = (Inr s', w')"
    by (auto simp: result_simps)
  from poll_bucket_session [OF one] Cons.prems(2) have s1: "se_authorized s1 = se_authorized s"
    "session_wf s \<longrightarrow> session_wf s1" by simp_all
  with Cons.IH [OF rest] Cons.prems(2) show ?case by simp
qed simp

lemma sends_poll_buckets:
  assumes "set bs \<subseteq> fst ` set (se_authorized s)"
  shows "within (sends_only (frame_allowed (wire_buckets s))) (poll_buckets G bs s)"
  using assms
proof (induction bs arbitrary: s)
  case Nil
  show ?case unfolding poll_buckets.simps by (rule sends.within_ret)
next
  case (Cons b bs)
  show ?case
    unfolding poll_buckets.simps
  proof (rule sends.within_seq_result)
    show "within (sends_only (frame_allowed (wire_buckets s))) (poll_bucket G b s)"
      using Cons.prems by (intro sends_poll_bucket) simp
    fix s1 w w'
    assume "poll_bucket G b s w = (Inr s1, w')"
    from poll_bucket_session [OF this] Cons.prems have "se_authorized s1 = se_authorized s" by simp
    with Cons.IH [of s1] Cons.prems
    show "within (sends_only (frame_allowed (wire_buckets s))) (poll_buckets G bs s1)"
      by (simp add: wire_buckets_def)
  qed
qed

lemma sends_poll_deltas: "within (sends_only (frame_allowed (wire_buckets s))) (poll_deltas G s)"
  unfolding poll_deltas_def by (rule sends_poll_buckets) simp

lemma poll_deltas_session:
  "poll_deltas G s w = (Inr s', w') \<Longrightarrow> se_authorized s' = se_authorized s \<and> (session_wf s \<longrightarrow> session_wf s')"
  unfolding poll_deltas_def by (erule poll_buckets_session) simp

lemma handle_client_message_session:
  assumes "handle_client_message G clock bytes s w = (Inr (go_on, s'), w')"
  shows "se_authorized s' = se_authorized s \<and> (session_wf s \<longrightarrow> session_wf s') \<and> go_on"
proof -
  have "go_on \<and> (s' = s \<or> (\<exists>l. s' = s\<lparr>se_last_seen := raise_tracked l (se_last_seen s)\<rparr>))"
    using assms by (auto simp: handle_client_message_def result_simps split: sum.splits client_message.splits)
  then show ?thesis by (elim conjE disjE exE) (simp_all add: session_wf_def)
qed

lemma sends_forward_batches:
  assumes "forward_batches G b g off w = Some y"
  shows "b \<in> W \<longrightarrow> sends_only (frame_allowed W) w (snd y)"
proof (rule forward_batches.raw_induct [OF _ assms, where P = "\<lambda>G b g off w y.
    b \<in> W \<longrightarrow> sends_only (frame_allowed W) w (snd y)"], rule impI)
  fix f :: "('ws, 'db, 'wt, 'rt, 'key, 'pg, 'row, 'h) gateway_env \<Rightarrow> bucket_id \<Rightarrow> snapshot_gen \<Rightarrow> u64 \<Rightarrow>
   ('ws, 'db, 'key, 'pg) world \<Rightarrow> ((sync_error + unit) \<times> ('ws, 'db, 'key, 'pg) world) option"
    and G b g off w y
  assume IH: "\<And>G b g off w y. f G b g off w = Some y \<Longrightarrow> b \<in> W \<longrightarrow> sends_only (frame_allowed W) w (snd y)"
    and run: "(case stream_next (gw_json G) (gw_xxh3 G) (gw_sqlx G) g (w_pg w) of
        (None, g', pg') \<Rightarrow> Some (Inr (), w\<lparr>w_pg := pg'\<rparr>)
      | (Some (Inl e), g', pg') \<Rightarrow> Some (Inl e, w\<lparr>w_pg := pg'\<rparr>)
      | (Some (Inr batch), g', pg') \<Rightarrow>
          (case send_message G (SnapshotBatchMsg b (sb_rows batch) off) (w\<lparr>w_pg := pg'\<rparr>) of
             (Inl e, w') \<Rightarrow> Some (Inl e, w')
           | (Inr _, w') \<Rightarrow> f G b g' (off + 1) w')) = Some y"
    and b: "b \<in> W"
  obtain m g' pg' where nxt: "stream_next (gw_json G) (gw_xxh3 G) (gw_sqlx G) g (w_pg w) = (m, g', pg')"
    by (metis surj_pair)
  show "sends_only (frame_allowed W) w (snd y)"
  proof (cases "\<exists>batch. m = Some (Inr batch)")
    case False
    with run nxt show ?thesis by (auto intro!: sends_only_quiet split: option.splits sum.splits)
  next
    case True
    then obtain batch where m: "m = Some (Inr batch)" by blast
    obtain r w1 where send: "send_message G (SnapshotBatchMsg b (sb_rows batch) off) (w\<lparr>w_pg := pg'\<rparr>) = (r, w1)"
      by (metis surj_pair)
    have "within (sends_only (frame_allowed W)) (send_message G (SnapshotBatchMsg b (sb_rows batch) off))"
      using b by (intro sends_send_message) simp
    from withinD [OF this send] have first: "sends_only (frame_allowed W) w w1"
      by (simp add: sends_only_def)
    show ?thesis
    proof (cases r)
      case (Inl e)
      with run nxt m send first show ?thesis by auto
    next
      case (Inr u)
      with run nxt m send have "f G b g' (off + 1) w1 = Some y" by simp
      from IH [OF this] b first show ?thesis by (blast intro: sends.effect_trans)
    qed
  qed
qed

lemma sends_begin_snapshot:
  "BucketId (ba_rule_id asg) \<in> W \<Longrightarrow> within (sends_only (frame_allowed W)) (begin_snapshot G asg)"
  unfolding begin_snapshot_def by (auto intro!: sends.within_rules sends_quiet sends_send_message)

lemma sends_deliver_snapshot:
  assumes "deliver_snapshot G asg w = Some (r, w')" and W: "BucketId (ba_rule_id asg) \<in> W"
  shows "sends_only (frame_allowed W) w w'"
proof -
  obtain r1 w1 where one: "begin_snapshot G asg w = (r1, w1)" by (metis surj_pair)
  note first = withinD [OF sends_begin_snapshot [OF W] one]
  show ?thesis
  proof (cases r1)
    case (Inl e)
    with assms(1) one first show ?thesis by (simp add: deliver_snapshot_def)
  next
    case (Inr cs)
    with assms(1) one obtain r2 w2 where
      fwd: "forward_batches G (BucketId (ba_rule_id asg)) (new_gen (new_snapshot_stream [asg])) 0 w1 = Some (r2, w2)"
      and fin: "(case r2 of Inl e \<Rightarrow> Some (Inl e, w2)
        | Inr _ \<Rightarrow> Some (send_message G (SnapshotComplete (BucketId (ba_rule_id asg)) cs) w2)) = Some (r, w')"
      by (auto simp: deliver_snapshot_def bind_eq_Some_conv)
    have "within (sends_only (frame_allowed W)) (send_message G (SnapshotComplete (BucketId (ba_rule_id asg)) cs))"
      using W by (intro sends_send_message) simp
    then have "sends_only (frame_allowed W) w2 w'"
      using fin by (cases r2) (auto intro: sends.effect_refl dest: withinD)
    with first sends_forward_batches [OF fwd] W show ?thesis
      by (auto intro: sends.effect_trans)
  qed
qed

lemma sends_deliver_each:
  "deliver_each G asgs w = Some (r, w') \<Longrightarrow> (\<And>asg. asg \<in> set asgs \<Longrightarrow> BucketId (ba_rule_id asg) \<in> W) \<Longrightarrow>
    sends_only (frame_allowed W) w w'"
proof (induction asgs arbitrary: w)
  case Nil
  then show ?case by (simp add: sends.effect_refl)
next
  case (Cons asg asgs)
  then obtain r1 w1 where one: "deliver_snapshot G asg w = Some (r1, w1)"
    and rest: "(case r1 of Inl e \<Rightarrow> Some (Inl e, w1) | Inr _ \<Rightarrow> deliver_each G asgs w1) = Some (r, w')"
    by (auto simp: bind_eq_Some_conv)
  have first: "sends_only (frame_allowed W) w w1"
    using Cons.prems(2) by (intro sends_deliver_snapshot [OF one]) simp
  show ?case
  proof (cases r1)
    case (Inl e)
    with rest first show ?thesis by simp
  next
    case (Inr u)
    with rest Cons.IH [of w1] Cons.prems(2) first show ?thesis
      by (auto intro: sends.effect_trans)
  qed
qed

lemma sends_deliver_snapshots:
  assumes "deliver_snapshots G s w = Some (r, w')"
  shows "sends_only (frame_allowed (wire_buckets s)) w w'"
proof (cases "fresh_assignments s = []")
  case True
  with assms show ?thesis by (simp add: deliver_snapshots_def sends.effect_refl)
next
  case False
  with assms have "deliver_each G (fresh_assignments s) w = Some (r, w')"
    by (simp add: deliver_snapshots_def)
  then show ?thesis
    by (rule sends_deliver_each) (force simp: fresh_assignments_def wire_buckets_def)
qed

lemma sends_serve_once:
  assumes "serve_once G clock branch s w = (out, w')"
  shows "sends_only (frame_allowed (wire_buckets s)) w w'"
proof (cases branch)
  case Incoming
  obtain r ws' where nxt: "ws_next G (w_ws w) = (r, ws')" by (metis surj_pair)
  with assms Incoming have run: "on_incoming G clock s r (w\<lparr>w_ws := ws'\<rparr>) = (out, w')" by simp
  have "sends_only (frame_allowed (wire_buckets s)) (w\<lparr>w_ws := ws'\<rparr>) w'"
  proof (cases "\<exists>bytes. r = Some (Inr (Binary bytes))")
    case True
    then obtain bytes where r: "r = Some (Inr (Binary bytes))" by blast
    obtain res w1 where hcm: "handle_client_message G clock bytes s (w\<lparr>w_ws := ws'\<rparr>) = (res, w1)"
      by (metis surj_pair)
    with run r have "w' = w1" by (auto simp: on_incoming_def split: sum.splits prod.splits)
    with withinD [OF sends_handle_client_message hcm] show ?thesis by simp
  next
    case False
    with run show ?thesis
      by (auto simp: on_incoming_def intro!: sends_only_quiet
          split: option.splits sum.splits ws_message.splits)
  qed
  then show ?thesis by (simp add: sends_only_def)
next
  case DeltaTick
  obtain r w1 where poll: "poll_deltas G s w = (r, w1)" by (metis surj_pair)
  note first = withinD [OF sends_poll_deltas poll]
  show ?thesis
  proof (cases r)
    case (Inl e)
    have "sends_only (frame_allowed (wire_buckets s)) w1 (snd (send_response G e w1))"
      using sends_send_response [of "wire_buckets s" G e] unfolding within_def by blast
    with first assms DeltaTick poll Inl show ?thesis by (auto intro: sends.effect_trans)
  qed (use first assms DeltaTick poll in auto)
next
  case KeepaliveTick
  have "within (sends_only (frame_allowed (wire_buckets s))) (send_message G (Keepalive (now_ms clock)))"
    by (rule sends_send_message) simp
  with assms KeepaliveTick show ?thesis
    by (auto split: prod.splits sum.splits dest: withinD)
next
  case ShutdownFired
  have "within (sends_only (frame_allowed (wire_buckets s))) (send_error G SHUTDOWN_ERROR_CODE ''server shutting down'')"
    unfolding send_error_def
    by (rule sends_send_message) (simp add: shutdown_frame_def SHUTDOWN_ERROR_CODE_def)
  with assms ShutdownFired show ?thesis by (auto simp: within_def)
qed

lemma serve_once_session:
  assumes "serve_once G clock branch s w = (Continue s', w')"
  shows "se_authorized s' = se_authorized s \<and> (session_wf s \<longrightarrow> session_wf s')"
proof (cases branch)
  case Incoming
  with assms show ?thesis
    by (auto simp: on_incoming_def split: prod.splits option.splits sum.splits ws_message.splits if_splits
        dest: handle_client_message_session)
next
  case DeltaTick
  with assms show ?thesis by (auto split: prod.splits sum.splits dest: poll_deltas_session)
next
  case KeepaliveTick
  with assms show ?thesis by (auto split: prod.splits sum.splits)
qed (use assms in simp)

subsection \<open>The whole lifecycle\<close>

text \<open>The invariant of a connection that started in state \<open>w0\<close>.\<close>

definition granted_session ::
  "('ws, 'db, 'wt, 'rt, 'key, 'pg, 'row, 'h) gateway_env \<Rightarrow> session \<Rightarrow> bool" where
  "granted_session G s0 \<longleftrightarrow> (\<exists>t (w :: ('ws, 'db, 'key, 'pg) world) w'. handshake G t w = (Inr s0, w'))"

definition connection_inv ::
  "('ws, 'db, 'wt, 'rt, 'key, 'pg, 'row, 'h) gateway_env \<Rightarrow> ('ws, 'db, 'key, 'pg) world \<Rightarrow>
   connection \<times> ('ws, 'db, 'key, 'pg) world \<Rightarrow> bool" where
  "connection_inv G w0 cw \<longleftrightarrow>
     (case cw of (c, w) \<Rightarrow>
        case c of
          Connecting \<Rightarrow> w_sent w = w_sent w0
        | Delivering s \<Rightarrow> granted_session G s \<and> w_sent w = w_sent w0
        | Serving s \<Rightarrow> session_wf s \<and> sends_only (frame_allowed (wire_buckets s)) w0 w \<and>
            (\<exists>s0. granted_session G s0 \<and> se_authorized s = se_authorized s0)
        | Closed r \<Rightarrow> sends_only (frame_allowed {}) w0 w \<or>
            (\<exists>s0. granted_session G s0 \<and> sends_only (frame_allowed (wire_buckets s0)) w0 w))"

lemma granted_session_wf: "granted_session G s \<Longrightarrow> session_wf s"
  unfolding granted_session_def by (auto elim!: handshake_Inr simp: new_session_spec(1))

lemma wire_buckets_cong: "se_authorized s = se_authorized s' \<Longrightarrow> wire_buckets s = wire_buckets s'"
  by (simp add: wire_buckets_def)

lemma connection_inv_step:
  assumes "connection_step G cw cw'" and "connection_inv G w0 cw"
  shows "connection_inv G w0 cw'"
  using assms
proof (induction rule: connection_step.induct)
  case (refused t w e w')
  have "sends_only (frame_allowed {}) w w'"
    by (rule withinD [OF sends_handshake refused.hyps])
  moreover have "sends_only (frame_allowed {}) w' (snd (send_response G e w'))"
    using sends_send_response [of "{}" G e] unfolding within_def by blast
  ultimately have "sends_only (frame_allowed {}) w (snd (send_response G e w'))"
    by (rule sends.effect_trans)
  with refused.prems show ?case by (simp add: connection_inv_def sends_only_def)
next
  case (accepted t w s w')
  then have "w_sent w' = w_sent w" by (elim handshake_Inr)
  with accepted show ?case by (auto simp: connection_inv_def granted_session_def)
next
  case (delivery_failed s w e w')
  with sends_deliver_snapshots [OF delivery_failed.hyps] show ?case
    by (auto simp: connection_inv_def sends_only_def)
next
  case (delivered s w u w')
  with sends_deliver_snapshots [OF delivered.hyps] show ?case
    by (auto simp: connection_inv_def sends_only_def granted_session_wf)
next
  case (served clock branch s w s' w')
  note sess = serve_once_session [OF served.hyps]
  with sends_serve_once [OF served.hyps] served.prems show ?case
    by (auto simp: connection_inv_def wire_buckets_cong [of s' s] intro: sends.effect_trans)
next
  case (finished clock branch s w r w')
  then obtain s0 where s0: "granted_session G s0" "se_authorized s = se_authorized s0"
    and sent: "sends_only (frame_allowed (wire_buckets s)) w0 w"
    by (auto simp: connection_inv_def)
  have "sends_only (frame_allowed (wire_buckets s0)) w0 w'"
    using sends.effect_trans [OF sent sends_serve_once [OF finished.hyps]]
    unfolding wire_buckets_cong [OF s0(2)] .
  with s0 show ?case by (auto simp: connection_inv_def)
next
  case (others w w' c)
  then have "w_sent w' = w_sent w" by (simp add: others_act_def)
  with others.prems show ?case by (cases c) (auto simp: connection_inv_def sends_only_def)
qed

lemma connection_inv_reachable:
  assumes "(connection_step G)\<^sup>*\<^sup>* (Connecting, w0) cw"
  shows "connection_inv G w0 cw"
  using assms
proof (induction rule: rtranclp_induct)
  case base
  show ?case by (simp add: connection_inv_def)
next
  case (step v w)
  from step(2,3) show ?case by (rule connection_inv_step)
qed



lemma sample_serving:
  "\<exists>w. (connection_step (sample_gateway scripted_sqlx))\<^sup>*\<^sup>* (Connecting, sample_world [Binary [0]] sample_pg)
     (Serving (new_session [''mine''] [sample_assignment ''u1''] (Some (PgLsn 5))), w) \<and> w_sent w = []"
proof -
  let ?s = "new_session [''mine''] [sample_assignment ''u1''] (Some (PgLsn 5))"
  obtain w where hs: "handshake (sample_gateway scripted_sqlx) sample_times (sample_world [Binary [0]] sample_pg) = (Inr ?s, w)"
    and sent: "w_sent w = []"
    using sample_handshake by blast
  have "fresh_assignments ?s = []"
    by (simp add: fresh_assignments_def new_session_def sample_assignment_def hm_insert_def hm_contains_def)
  then have "deliver_snapshots (sample_gateway scripted_sqlx) ?s w = Some (Inr (), w)"
    by (simp add: deliver_snapshots_def)
  from connection_step.accepted [OF hs] connection_step.delivered [OF this] sent
  show ?thesis by (meson rtranclp.rtrancl_into_rtrancl rtranclp.rtrancl_refl)
qed



end
