(* ===== verification/Connection_Delivery.thy ===== *)
theory Connection_Delivery
  imports Connection_Properties
begin

section \<open>Writes, polling and snapshot delivery\<close>

text \<open>
  The functional behaviour of the connection's handlers: which statements a write can send
  and when, what a poll delivers and what it leaves, the frames of a snapshot, and the
  boundary cases of the tracked LSNs.
\<close>

subsection \<open>Statements sent by a write\<close>

definition calls_only ::
  "(pg_call \<Rightarrow> bool) \<Rightarrow> ('ws, 'db, 'key, 'pg \<times> pg_call list) world \<Rightarrow> ('ws, 'db, 'key, 'pg \<times> pg_call list) world \<Rightarrow> bool" where
  "calls_only P w w' \<longleftrightarrow> (\<exists>cs. snd (w_pg w') = snd (w_pg w) @ cs \<and> list_all P cs)"

interpretation calls: effect_bound "calls_only P" for P
proof
  show "calls_only P w w" for w :: "('ws, 'db, 'key, 'pg \<times> pg_call list) world"
    by (simp add: calls_only_def)
  show "calls_only P w w''" if "calls_only P w w'" "calls_only P w' w''"
    for w w' w'' :: "('ws, 'db, 'key, 'pg \<times> pg_call list) world"
    using that by (auto simp: calls_only_def)
qed

lemma find_SomeD: "find P xs = Some x \<Longrightarrow> P x \<and> x \<in> set xs"
  by (auto simp: find_Some_iff)

lemma send_message_pg: "w_pg (snd (send_message G m w)) = w_pg w"
  by (auto simp: send_message_def split: sum.split prod.split)

lemma send_response_pg: "w_pg (snd (send_response G e w)) = w_pg w"
  by (simp add: send_response_def send_error_def Let_def send_message_pg)

lemma send_response_pgD: "send_response G e w = (r, w') \<Longrightarrow> w_pg w' = w_pg w"
  by (metis send_response_pg snd_conv)

lemma calls_pg:
  assumes "gw_sqlx G = traced S" and "P (sql, binds)"
  shows "within (calls_only P) (pg_fetch_optional G sql binds)" "within (calls_only P) (pg_execute G sql binds)"
  using assms
  by (auto intro!: withinI simp: pg_fetch_optional_def pg_execute_def calls_only_def split: prod.splits)

definition write_call :: "string \<Rightarrow> string \<Rightarrow> pg_call \<Rightarrow> bool" where
  "write_call ty i c \<longleftrightarrow>
     fst c \<in> set [upsert_sql ty, delete_sql ty, crdt_select_sql ty, crdt_update_sql ty] \<and>
     last (snd c) = PText i"

lemma calls_apply_write:
  assumes "gw_sqlx G = traced S"
  shows "within (calls_only (write_call ty i)) (apply_write G ty i op)"
  by (cases op)
    (auto intro!: calls.within_rules calls_pg [OF assms] simp: write_call_def)

text \<open>C3: a write reaches the database only through the ownership check. Whatever the client sends,
  the gateway either makes no database call, or first runs the scope query of an authorized
  bucket's own data query for that entity type with the entity id as a bound value, and sends
  anything further only if that query returned a row; what it then sends is one of four
  statements whose only variable part is the entity type, a name the rule set defines, with
  the entity id bound, never part of the text.\<close>

theorem write_requires_ownership:
  assumes "gw_sqlx G = traced S" and "w_pg w = (pg, [])"
    and "handle_write G s ty i op w = (r, w')"
  shows "snd (w_pg w') = [] \<or>
    (\<exists>asg q calls. asg \<in> set (hm_values (se_authorized s)) \<and> hm_get (ba_data_queries asg) ty = Some q \<and>
       snd (w_pg w') = (scope_sql q, [PText i]) # calls \<and>
       (calls \<noteq> [] \<longrightarrow> (\<exists>row. fst (fetch_optional S (scope_sql q) [PText i] pg) = Inr (Some row))) \<and>
       list_all (write_call ty i) calls)"
proof (cases "find (\<lambda>asg. hm_contains (ba_data_queries asg) ty) (hm_values (se_authorized s))")
  case None
  then have "w' = snd (send_response G (AuthError (''not authorized to write entity type '' @ quoted ty)) w)"
    using assms(3) by (simp add: handle_write_def)
  then show ?thesis using assms(2) by (simp add: send_response_pg)
next
  case (Some asg)
  then have asg: "asg \<in> set (hm_values (se_authorized s))" "hm_contains (ba_data_queries asg) ty"
    using find_SomeD [OF Some] by simp_all
  then obtain q where q: "hm_get (ba_data_queries asg) ty = Some q"
    by (auto simp: hm_contains_def)
  obtain fr pg1 where fetch: "fetch_optional S (scope_sql q) [PText i] pg = (fr, pg1)" by (metis surj_pair)
  let ?w1 = "w\<lparr>w_pg := (pg1, [(scope_sql q, [PText i])])\<rparr>"
  have call: "pg_fetch_optional G (scope_sql q) [PText i] w = (map_err Database fr, ?w1)"
    using assms(1,2) fetch by (simp add: pg_fetch_optional_def traced_call_def)
  obtain sr where scope: "row_is_within_scope G q i w = (sr, ?w1)"
    and sr: "sr = Inr True \<Longrightarrow> \<exists>row. fr = Inr (Some row)"
    by (cases fr; cases "projr fr"; cases "column_i32 (gw_sqlx G) 0 (the (projr fr))")
      (auto simp: row_is_within_scope_def seq_def call)
  have "\<exists>calls. snd (w_pg w') = (scope_sql q, [PText i]) # calls \<and>
      (calls \<noteq> [] \<longrightarrow> sr = Inr True) \<and> list_all (write_call ty i) calls"
  proof (cases "sr = Inr True")
    case True
    obtain ar w2 where app: "apply_write G ty i op ?w1 = (ar, w2)" by (metis surj_pair)
    have "w_pg w' = w_pg w2"
      using assms(3) by (cases ar)
        (auto simp: handle_write_def Some q seq_def scope True app dest: send_response_pgD)
    moreover from withinD [OF calls_apply_write [OF assms(1)] app]
    obtain cs where "snd (w_pg w2) = (scope_sql q, [PText i]) # cs" "list_all (write_call ty i) cs"
      by (auto simp: calls_only_def)
    ultimately show ?thesis using True by auto
  next
    case False
    then have "w_pg w' = w_pg ?w1"
      using assms(3) by (cases sr)
        (auto simp: handle_write_def Some q seq_def scope split: if_splits dest: send_response_pgD)
    then show ?thesis by simp
  qed
  with asg q sr fetch show ?thesis by fastforce
qed

definition scoped_pg :: scripted_pg where
  "scoped_pg = [((scope_sql (''SELECT * FROM todos WHERE owner = '' @ quoted ''u1''), [PText ''7'']),
     [JNumber (IntNum 1)])]"

definition sample_session :: session where
  "sample_session = new_session [''mine''] [sample_assignment ''u1''] (Some (PgLsn 5))"

lemma sample_session_simps:
  "se_authorized sample_session = [(BucketId (''mine:uid='' @ dquote ''u1''), sample_assignment ''u1'')]"
  "se_last_seen sample_session = [(BucketId (''mine:uid='' @ dquote ''u1''), PgLsn 5)]"
  by (simp_all add: sample_session_def new_session_def sample_assignment_def hm_insert_def)

theorem write_requires_ownership_witness:
  "\<exists>w'. handle_write (sample_gateway (traced scripted_sqlx)) sample_session ''todos'' ''7'' Delete
      (sample_world [] (scoped_pg, [])) = (Inr (), w') \<and>
    snd (w_pg w') = [(scope_sql (''SELECT * FROM todos WHERE owner = '' @ quoted ''u1''), [PText ''7'']),
      (delete_sql ''todos'', [PText ''7''])] \<and>
    list_all (write_call ''todos'' ''7'') (tl (snd (w_pg w')))"
proof -
  let ?G = "sample_gateway (traced scripted_sqlx)"
  obtain w' where run: "handle_write ?G sample_session ''todos'' ''7'' Delete (sample_world [] (scoped_pg, [])) = (Inr (), w')"
    and calls: "snd (w_pg w') = [(scope_sql (''SELECT * FROM todos WHERE owner = '' @ quoted ''u1''), [PText ''7'']),
      (delete_sql ''todos'', [PText ''7''])]"
    by (simp add: handle_write_def sample_session_simps sample_assignment_def hm_contains_def
        seq_def row_is_within_scope_def pg_fetch_optional_def pg_execute_def sample_gateway_simps
        traced_call_def scripted_sqlx_def scripted_rows_def scoped_pg_def)
  have "gw_sqlx ?G = traced scripted_sqlx" "w_pg (sample_world [] (scoped_pg, [])) = (scoped_pg, [])"
    by (simp_all add: sample_gateway_def sample_world_def)
  from write_requires_ownership [OF this run] run calls show ?thesis by auto
qed

subsection \<open>A failing scope query\<close>

text \<open>When the ownership query itself fails, the write is not applied, but no error frame is sent
  either: the serving loop ends with the database error and the client sees the connection
  close without an \<^verbatim>\<open>Error\<close> message.\<close>

theorem scope_failure_closes_silently:
  assumes "ws_next G (w_ws w) = (Some (Inr (Binary bytes)), ws')"
    and "decode_client (gw_wire G) bytes = Inr (WriteMsg ty i op)"
    and "(b, asg) \<in> set (se_authorized s)" and "hm_contains (ba_data_queries asg) ty"
    and "\<And>sql binds pg. fetch_optional (gw_sqlx G) sql binds pg = (Inl e, pg)"
  shows "serve_once G clock Incoming s w = (Return (Inl (Database e)), w\<lparr>w_ws := ws'\<rparr>)"
proof -
  let ?find = "find (\<lambda>asg. hm_contains (ba_data_queries asg) ty) (hm_values (se_authorized s))"
  have "asg \<in> set (hm_values (se_authorized s))" using assms(3) by force
  then obtain a where "?find = Some a" using assms(4) by (cases ?find) (auto simp: find_None_iff)
  then have "handle_write G s ty i op v = (Inl (Database e), v)" for v
    by (simp add: handle_write_def seq_def row_is_within_scope_def pg_fetch_optional_def assms(5))
  then show ?thesis
    by (simp add: assms(1) on_incoming_def handle_client_message_def assms(2) seq_def)
qed

theorem scope_failure_closes_silently_witness:
  "\<exists>G. serve_once (G :: (ws_message list, mem_db, mem_db, mem_db, bytes, scripted_pg, json, bytes) gateway_env) None Incoming
      sample_session (sample_world [Binary [2]] []) =
    (Return (Inl (Database mismatched)), sample_world [] [])"
proof -
  let ?S = "scripted_sqlx\<lparr>fetch_optional := \<lambda>sql binds pg. (Inl mismatched, pg)\<rparr>"
  let ?w = "sample_world [Binary [2]] [] :: (ws_message list, mem_db, bytes, scripted_pg) world"
  have "ws_next (sample_gateway ?S) (w_ws ?w) = (Some (Inr (Binary [2])), [])"
    "decode_client (gw_wire (sample_gateway ?S)) [2] = Inr (WriteMsg ''todos'' ''7'' Delete)"
    "fetch_optional (gw_sqlx (sample_gateway ?S)) sql binds pg = (Inl mismatched, pg)" for sql binds pg
    by (simp_all add: sample_gateway_simps decode_client_def)
  moreover have "(BucketId (''mine:uid='' @ dquote ''u1''), sample_assignment ''u1'') \<in> set (se_authorized sample_session)"
    "hm_contains (ba_data_queries (sample_assignment ''u1'')) ''todos''"
    by (simp_all add: sample_session_simps sample_assignment_def hm_contains_def)
  ultimately have "serve_once (sample_gateway ?S) None Incoming sample_session ?w =
      (Return (Inl (Database mismatched)), ?w\<lparr>w_ws := []\<rparr>)"
    by (intro scope_failure_closes_silently)
  then show ?thesis by (auto simp: sample_world_def)
qed

subsection \<open>Polling\<close>

text \<open>The socket and the encoder accept every message.\<close>

definition sends_ok :: "('ws, 'db, 'wt, 'rt, 'key, 'pg, 'row, 'h) gateway_env \<Rightarrow> bool" where
  "sends_ok G \<longleftrightarrow>
     (\<forall>m. \<exists>bs. to_vec_server (gw_wire G) m = Inr bs) \<and> (\<forall>bs ws. \<exists>ws'. ws_send G bs ws = (Inr (), ws'))"

lemma send_message_ok:
  assumes "sends_ok G"
  shows "\<exists>ws'. send_message G m w = (Inr (), w\<lparr>w_ws := ws', w_sent := w_sent w @ [m]\<rparr>)"
proof -
  obtain bs where bs: "to_vec_server (gw_wire G) m = Inr bs" using assms unfolding sends_ok_def by blast
  obtain ws' where "ws_send G bs (w_ws w) = (Inr (), ws')" using assms unfolding sends_ok_def by blast
  with bs show ?thesis by (auto simp: send_message_def encode_server_def)
qed

definition undelivered ::
  "('ws, 'db, 'wt, 'rt, 'key, 'pg, 'row, 'h) gateway_env \<Rightarrow> ('db, 'wt, 'rt) redb_view \<Rightarrow> session \<Rightarrow> 'db \<Rightarrow>
   bucket_id \<Rightarrow> bucket_op list" where
  "undelivered G V s db b = drain_spec (log_at (gw_log G) V db (bucket_name b)) (lsn_u64 (scan_from s b))"

definition delta_for :: "session \<Rightarrow> bucket_id \<Rightarrow> bucket_op list \<Rightarrow> server_message" where
  "delta_for s b ops =
     Delta (wire_bucket s b) (map (\<lambda>op. op\<lparr>bo_bucket_id := wire_bucket s b\<rparr>) ops) (Max (set (map bo_lsn ops)))"

definition seen_after :: "session \<Rightarrow> bucket_id \<Rightarrow> bucket_op list \<Rightarrow> pg_lsn option" where
  "seen_after s b ops =
     (if ops = [] then hm_get (se_last_seen s) b else Some (Max (set (map bo_lsn ops))))"

lemma poll_bucket_exact:
  fixes s :: session
  assumes "redb_healthy (gw_log G) V" and "log_inv (gw_log G) V (w_db w)"
    and "bucket_id_fits (bucket_name b)" and "sends_ok G"
  defines "ops \<equiv> undelivered G V s (w_db w) b"
  shows "\<exists>s' w'. poll_bucket G b s w = (Inr s', w') \<and> w_db w' = w_db w \<and>
    w_sent w' = w_sent w @ (if ops = [] then [] else [delta_for s b ops]) \<and>
    se_authorized s' = se_authorized s \<and>
    hm_get (se_last_seen s') = (hm_get (se_last_seen s))(b := seen_after s b ops)"
proof -
  have drain: "drain_now G b (scan_from s b) w = (Inr ops, w)"
    using redb_healthy.drain_total [OF assms(1-3), of "scan_from s b"]
    by (simp add: drain_now_def ops_def undelivered_def)
  show ?thesis
  proof (cases "ops = []")
    case True
    with drain show ?thesis by (simp add: poll_bucket_def seq_def seen_after_def)
  next
    case False
    obtain ws' where "send_message G (delta_for s b ops) w =
        (Inr (), w\<lparr>w_ws := ws', w_sent := w_sent w @ [delta_for s b ops]\<rparr>)"
      using send_message_ok [OF assms(4)] by blast
    with drain False show ?thesis
      by (simp add: poll_bucket_def seq_def seen_after_def Let_def delta_for_def)
  qed
qed

lemma undelivered_cong:
  "hm_get (se_last_seen s) b = hm_get (se_last_seen s') b \<Longrightarrow> undelivered G V s db b = undelivered G V s' db b"
  by (simp add: undelivered_def scan_from_def)

lemma delta_for_cong: "se_authorized s = se_authorized s' \<Longrightarrow> delta_for s b ops = delta_for s' b ops"
  by (simp add: delta_for_def wire_bucket_def)

lemma poll_buckets_exact:
  assumes "redb_healthy (gw_log G) V" and "log_inv (gw_log G) V (w_db w)" and "sends_ok G"
    and "\<And>b. b \<in> set bs \<Longrightarrow> bucket_id_fits (bucket_name b)" and "distinct bs"
  shows "\<exists>s' w'. poll_buckets G bs s w = (Inr s', w') \<and> w_db w' = w_db w \<and>
    w_sent w' = w_sent w @ map (\<lambda>b. delta_for s b (undelivered G V s (w_db w) b))
      (filter (\<lambda>b. undelivered G V s (w_db w) b \<noteq> []) bs) \<and>
    se_authorized s' = se_authorized s \<and>
    (\<forall>b. hm_get (se_last_seen s') b =
       (if b \<in> set bs then seen_after s b (undelivered G V s (w_db w) b) else hm_get (se_last_seen s) b))"
  using assms(2,4,5)
proof (induction bs arbitrary: s w)
  case Nil
  then show ?case by simp
next
  case (Cons b bs)
  have fits: "bucket_id_fits (bucket_name b)" using Cons.prems(2) by simp
  from poll_bucket_exact [OF assms(1) Cons.prems(1) fits assms(3), of s]
  obtain s1 w1 where one: "poll_bucket G b s w = (Inr s1, w1)" "w_db w1 = w_db w"
    "w_sent w1 = w_sent w @ (if undelivered G V s (w_db w) b = [] then []
       else [delta_for s b (undelivered G V s (w_db w) b)])"
    "se_authorized s1 = se_authorized s"
    "hm_get (se_last_seen s1) = (hm_get (se_last_seen s))(b := seen_after s b (undelivered G V s (w_db w) b))"
    by auto
  have inv1: "log_inv (gw_log G) V (w_db w1)" using Cons.prems(1) one(2) by simp
  have fits1: "bucket_id_fits (bucket_name b')" if "b' \<in> set bs" for b' using Cons.prems(2) that by simp
  have dist: "distinct bs" using Cons.prems(3) by simp
  from Cons.IH [OF inv1 fits1 dist, of s1, unfolded one(2)] obtain s' w' where
    rest: "poll_buckets G bs s1 w1 = (Inr s', w')" "w_db w' = w_db w"
    "w_sent w' = w_sent w1 @ map (\<lambda>b. delta_for s1 b (undelivered G V s1 (w_db w) b))
      (filter (\<lambda>b. undelivered G V s1 (w_db w) b \<noteq> []) bs)"
    "se_authorized s' = se_authorized s1"
    "\<And>b. hm_get (se_last_seen s') b =
       (if b \<in> set bs then seen_after s1 b (undelivered G V s1 (w_db w) b) else hm_get (se_last_seen s1) b)"
    by auto
  have same: "undelivered G V s1 (w_db w) b' = undelivered G V s (w_db w) b'"
    and seen: "seen_after s1 b' ops = seen_after s b' ops" if "b' \<in> set bs" for b' ops
    using Cons.prems(3) that one(2,5) by (auto intro: undelivered_cong simp: seen_after_def)
  have "filter (\<lambda>b. undelivered G V s1 (w_db w) b \<noteq> []) bs = filter (\<lambda>b. undelivered G V s (w_db w) b \<noteq> []) bs"
    by (rule filter_cong) (simp_all add: same)
  moreover have "map (\<lambda>b. delta_for s1 b (undelivered G V s1 (w_db w) b))
        (filter (\<lambda>b. undelivered G V s (w_db w) b \<noteq> []) bs) =
      map (\<lambda>b. delta_for s b (undelivered G V s (w_db w) b))
        (filter (\<lambda>b. undelivered G V s (w_db w) b \<noteq> []) bs)"
    by (rule map_cong) (auto simp: same delta_for_cong [OF one(4)])
  ultimately have sent: "w_sent w' = w_sent w1 @ map (\<lambda>b. delta_for s b (undelivered G V s (w_db w) b))
      (filter (\<lambda>b. undelivered G V s (w_db w) b \<noteq> []) bs)"
    using rest(3) by (simp only:)
  show ?case
    by (intro exI [of _ s'] exI [of _ w'])
      (use one rest sent Cons.prems(3) in \<open>auto simp: seq_def same seen\<close>)
qed

lemma drain_after_max:
  assumes "\<And>l s. m l = Some s \<Longrightarrow> bo_lsn (so_op s) = PgLsn l" and "drain_spec m f \<noteq> []"
  defines "L \<equiv> set (map bo_lsn (drain_spec m f))"
  shows "drain_spec m (lsn_u64 (Max L) + 1) = []" and "Max L < PgLsn U64_MAX"
proof -
  let ?A = "{l \<in> dom m. f \<le> l \<and> l < U64_MAX}"
  have img: "lsn_u64 ` L = ?A"
    using arg_cong [OF drain_spec_lsns [where m = m and f = f, OF assms(1)], of set] by (simp add: L_def image_comp)
  have "Max L \<in> L" using assms(2) unfolding L_def by (intro Max_in) simp_all
  then have l: "lsn_u64 (Max L) \<in> ?A" using img by blast
  then show "Max L < PgLsn U64_MAX" by (simp add: less_pg_lsn_def)
  have "k \<le> lsn_u64 (Max L)" if "k \<in> ?A" for k
  proof -
    from that img obtain x where "x \<in> L" "k = lsn_u64 x" by blast
    then show ?thesis using Max_ge [of L x] by (simp add: L_def less_eq_pg_lsn_def)
  qed
  then have "{k \<in> dom m. lsn_u64 (Max L) + 1 \<le> k \<and> k < U64_MAX} = {}"
    using word_Suc_le [of "lsn_u64 (Max L)"] l by force
  then show "drain_spec m (lsn_u64 (Max L) + 1) = []"
    by (simp add: drain_spec_def)
qed


definition todo_session :: session where
  "todo_session =
     \<lparr>se_authorized = [(BucketId ''u:1'', todo_assignment)], se_last_seen = [(BucketId ''u:1'', PgLsn 3)]\<rparr>"

lemma sample_db_log: "bucket_id_fits b \<Longrightarrow> log_at mem_env mem_view sample_db b l =
   (if b = ''u:1'' \<and> l = 5
    then Some \<lparr>so_op = sample_op ''u:1'' 5 ''a'', so_appended_at_unix_secs = unix_now_secs (Some 100)\<rparr> else None)"
  using mem.append_log_at [OF sample_db_append, of b l] by simp

lemma sample_db_labelled: "log_labelled (log_at mem_env mem_view sample_db)"
  by (auto simp: log_labelled_def sample_db_log sample_op_def split: if_splits)

lemma sends_ok_sample: "sends_ok (sample_gateway S)"
  by (simp add: sends_ok_def sample_gateway_simps)

lemma todo_undelivered: "undelivered (sample_gateway S) mem_view todo_session sample_db (BucketId ''u:1'') =
    [sample_op ''u:1'' 5 ''a'']"
proof -
  have at: "log_at mem_env mem_view sample_db ''u:1'' =
      [5 \<mapsto> \<lparr>so_op = sample_op ''u:1'' 5 ''a'', so_appended_at_unix_secs = unix_now_secs (Some 100)\<rparr>]"
    by (auto simp: sample_db_log fun_eq_iff)
  have "{l. l = 5 \<and> (4 :: u64) \<le> l \<and> l < U64_MAX} = {5}" by (auto simp: U64_MAX_def)
  then show ?thesis
    by (simp add: undelivered_def scan_from_def todo_session_def sample_gateway_def at drain_spec_def)
qed


subsection \<open>Tracked positions at their limits\<close>



lemma undelivered_at:
  assumes "log_labelled (log_at (gw_log G) V db)" and "bucket_id_fits (bucket_name b)"
    and "log_at (gw_log G) V db (bucket_name b) p = Some x" and "p < U64_MAX"
  shows "so_op x \<in> set (undelivered G V s db b) \<longleftrightarrow> lsn_u64 (scan_from s b) \<le> p"
proof -
  have lab: "bo_lsn (so_op y) = PgLsn k" if "log_at (gw_log G) V db (bucket_name b) k = Some y" for k y
    using assms(1,2) that by (auto simp: log_labelled_def)
  have "k = p" if "so_op x = so_op y" "log_at (gw_log G) V db (bucket_name b) k = Some y" for k y
    using lab [OF that(2)] lab [OF assms(3)] that(1) by simp
  then show ?thesis using assms(3,4) unfolding undelivered_def set_drain_spec mem_Collect_eq by blast
qed



subsection \<open>Snapshot delivery\<close>

fun batch_messages :: "bucket_id \<Rightarrow> u64 \<Rightarrow> snapshot_batch list \<Rightarrow> server_message list" where
  "batch_messages wire off [] = []"
| "batch_messages wire off (b # bs) = SnapshotBatchMsg wire (sb_rows b) off # batch_messages wire (off + 1) bs"

lemma forward_batches_complete:
  assumes "sends_ok G"
    and "collect_stream (gw_json G) (gw_xxh3 G) (gw_sqlx G) g (w_pg w) = Some (bs, err, pg')"
  shows "\<exists>ws'. forward_batches G wire g off w =
    Some (case err of None \<Rightarrow> Inr () | Some e \<Rightarrow> Inl e,
      w\<lparr>w_ws := ws', w_pg := pg', w_sent := w_sent w @ batch_messages wire off bs\<rparr>)"
  using assms(2)
proof (induction bs arbitrary: g off w)
  case Nil
  obtain m g' p where nxt: "stream_next (gw_json G) (gw_xxh3 G) (gw_sqlx G) g (w_pg w) = (m, g', p)"
    by (metis surj_pair)
  have "\<not> (\<exists>b. m = Some (Inr b))" "p = pg'"
    "m = (case err of None \<Rightarrow> None | Some e \<Rightarrow> Some (Inl e))"
    using Nil.prems nxt
    by (subst (asm) collect_stream.simps, auto simp: bind_eq_Some_conv split: option.splits sum.splits)+
  with nxt show ?case
    by (subst forward_batches.simps) (auto intro: exI [of _ "w_ws w"] split: option.split)
next
  case (Cons b bs)
  obtain m g' p where nxt: "stream_next (gw_json G) (gw_xxh3 G) (gw_sqlx G) g (w_pg w) = (m, g', p)"
    by (metis surj_pair)
  have m: "m = Some (Inr b)"
    and rest: "collect_stream (gw_json G) (gw_xxh3 G) (gw_sqlx G) g' p = Some (bs, err, pg')"
    using Cons.prems nxt
    by (subst (asm) collect_stream.simps, auto simp: bind_eq_Some_conv split: option.splits sum.splits)+
  obtain ws1 where send: "send_message G (SnapshotBatchMsg wire (sb_rows b) off) (w\<lparr>w_pg := p\<rparr>) =
      (Inr (), w\<lparr>w_pg := p, w_ws := ws1, w_sent := w_sent w @ [SnapshotBatchMsg wire (sb_rows b) off]\<rparr>)"
    using send_message_ok [OF assms(1), of "SnapshotBatchMsg wire (sb_rows b) off" "w\<lparr>w_pg := p\<rparr>"] by auto
  let ?w1 = "w\<lparr>w_pg := p, w_ws := ws1, w_sent := w_sent w @ [SnapshotBatchMsg wire (sb_rows b) off]\<rparr>"
  have "collect_stream (gw_json G) (gw_xxh3 G) (gw_sqlx G) g' (w_pg ?w1) = Some (bs, err, pg')"
    using rest by simp
  from Cons.IH [OF this, of "off + 1"] obtain ws' where
    "forward_batches G wire g' (off + 1) ?w1 =
      Some (case err of None \<Rightarrow> Inr () | Some e \<Rightarrow> Inl e,
        ?w1\<lparr>w_ws := ws', w_pg := pg', w_sent := w_sent ?w1 @ batch_messages wire (off + 1) bs\<rparr>)"
    by blast
  then show ?case
    by (intro exI [of _ ws'], subst forward_batches.simps) (simp add: nxt m send)
qed



end
