(* ===== verification/Server_Config.thy ===== *)
theory Server_Config
  imports PES_Prelude
begin

section \<open>Server configuration (\<^verbatim>\<open>pes-server: config.rs\<close>)\<close>

text \<open>
  The configuration records, the loading of \<^verbatim>\<open>config.toml\<close> with its interpolation of
  environment variables, the escaping of the interpolated values, and the redacting \<^verbatim>\<open>Debug\<close>
  output. Reading the file and parsing TOML are parameters; the environment lookup is the
  closure the source injects, with whatever state it has. Interpolation is a loop over the
  rest of the text, total because the rest gets shorter.
\<close>

record server_config =
  sc_host :: string
  sc_port :: u16
  sc_max_connections :: nat

record postgres_config =
  pc_url :: string
  pc_max_pool_size :: "32 word"

datatype auth_config = Hmac string | Jwks string

record oplog_config =
  oc_compaction_ttl_days :: u64
  oc_data_dir :: string

record config =
  cf_server :: server_config
  cf_postgres :: postgres_config
  cf_auth :: auth_config
  cf_sync_rules_path :: string
  cf_metrics_port :: u16
  cf_oplog :: oplog_config

datatype config_error = ReadError string string | MissingEnvVar string | ParseConfig string

fun config_error_display :: "config_error \<Rightarrow> string" where
  "config_error_display (ReadError path source) =
     ''failed to read config file '' @ [CHR 39] @ path @ [CHR 39] @ '': '' @ source"
| "config_error_display (MissingEnvVar v) =
     ''missing required environment variable '' @ [CHR 39] @ v @ [CHR 39] @ '' referenced in config.toml''"
| "config_error_display (ParseConfig e) = ''failed to parse config.toml: '' @ e"

subsection \<open>Escaping\<close>

text \<open>On the UTF-8 bytes: every byte of a multi-byte character is above 127 and copied.\<close>

definition escape_char :: "char \<Rightarrow> string" where
  "escape_char c =
     (if c = CHR 92 then [CHR 92, CHR 92]
      else if c = CHR 34 then [CHR 92, CHR 34]
      else if c = CHR 10 then [CHR 92, CHR ''n'']
      else if c = CHR 13 then [CHR 92, CHR ''r'']
      else if c = CHR 9 then [CHR 92, CHR ''t'']
      else if of_char c < (32 :: nat) \<or> of_char c = (127 :: nat)
      then [CHR 92, CHR ''u'', CHR ''0'', CHR ''0'', digit_char (of_char c div 16), digit_char (of_char c mod 16)]
      else [c])"

definition escape_toml_basic_string :: "string \<Rightarrow> string" where
  "escape_toml_basic_string v = concat (map escape_char v)"

subsection \<open>Interpolation\<close>

text \<open>\<^verbatim>\<open>rest.find("${")\<close> and \<^verbatim>\<open>after_marker.find('}')\<close>, as the text before and after what is found.\<close>

fun split_marker :: "string \<Rightarrow> (string \<times> string) option" where
  "split_marker [] = None"
| "split_marker [c] = None"
| "split_marker (c # d # s) =
     (if c = CHR ''$'' \<and> d = CHR ''{'' then Some ([], s)
      else map_option (apfst (Cons c)) (split_marker (d # s)))"

definition split_brace :: "string \<Rightarrow> (string \<times> string) option" where
  "split_brace s =
     (if CHR ''}'' \<in> set s
      then Some (takeWhile (\<lambda>c. c \<noteq> CHR ''}'') s, tl (dropWhile (\<lambda>c. c \<noteq> CHR ''}'') s))
      else None)"

lemma split_marker_Some: "split_marker s = Some (before, after) \<Longrightarrow> s = before @ ''${'' @ after"
  by (induction s arbitrary: before rule: split_marker.induct) (auto split: if_splits)

lemma split_brace_Some: "split_brace s = Some (name, rest) \<Longrightarrow> s = name @ ''}'' @ rest"
proof -
  assume split: "split_brace s = Some (name, rest)"
  then have "CHR ''}'' \<in> set s" by (simp add: split_brace_def split: if_splits)
  then have "dropWhile (\<lambda>c. c \<noteq> CHR ''}'') s \<noteq> []" by (simp add: dropWhile_eq_Nil_conv)
  then have "dropWhile (\<lambda>c. c \<noteq> CHR ''}'') s = CHR ''}'' # tl (dropWhile (\<lambda>c. c \<noteq> CHR ''}'') s)"
    using hd_dropWhile [of "\<lambda>c. c \<noteq> CHR ''}''" s] by (metis list.collapse)
  then have "s = takeWhile (\<lambda>c. c \<noteq> CHR ''}'') s @ ''}'' @ tl (dropWhile (\<lambda>c. c \<noteq> CHR ''}'') s)"
    using takeWhile_dropWhile_id [of "\<lambda>c. c \<noteq> CHR ''}''" s] by simp
  with split show ?thesis by (simp add: split_brace_def split: if_splits)
qed

type_synonym 'e env_lookup = "string \<Rightarrow> 'e \<Rightarrow> string option \<times> 'e"

definition lookup_var ::
  "'e env_lookup \<Rightarrow> string \<Rightarrow> (string, string) hmap \<Rightarrow> 'e \<Rightarrow>
   (config_error + string \<times> (string, string) hmap) \<times> 'e" where
  "lookup_var env_lookup var_name cache e =
     (case hm_get cache var_name of
        Some cached \<Rightarrow> (Inr (cached, cache), e)
      | None \<Rightarrow>
          (case env_lookup var_name e of
             (None, e') \<Rightarrow> (Inl (MissingEnvVar var_name), e')
           | (Some resolved, e') \<Rightarrow> (Inr (resolved, hm_insert var_name resolved cache), e')))"

function interpolate_loop ::
  "'e env_lookup \<Rightarrow> string \<Rightarrow> (string, string) hmap \<Rightarrow> string \<Rightarrow> 'e \<Rightarrow> (config_error + string) \<times> 'e" where
  "interpolate_loop env_lookup rest cache output e =
     (case split_marker rest of
        None \<Rightarrow> (Inr (output @ rest), e)
      | Some (before, after_marker) \<Rightarrow>
          (case split_brace after_marker of
             None \<Rightarrow> (Inr (output @ before @ ''${'' @ after_marker), e)
           | Some (var_name, rest') \<Rightarrow>
               (case lookup_var env_lookup var_name cache e of
                  (Inl err, e') \<Rightarrow> (Inl err, e')
                | (Inr (v, cache'), e') \<Rightarrow>
                    interpolate_loop env_lookup rest' cache' (output @ before @ escape_toml_basic_string v) e')))"
  by pat_completeness auto
termination
  by (relation "measure (\<lambda>(env_lookup, rest, cache, output, e). length rest)")
    (auto dest!: split_marker_Some split_brace_Some)

declare interpolate_loop.simps [simp del]

definition interpolate_env_vars :: "'e env_lookup \<Rightarrow> string \<Rightarrow> 'e \<Rightarrow> (config_error + string) \<times> 'e" where
  "interpolate_env_vars env_lookup input e = interpolate_loop env_lookup input [] '''' e"

definition load_config_with_env ::
  "(string \<Rightarrow> string + string) \<Rightarrow> (string \<Rightarrow> string + config) \<Rightarrow> 'e env_lookup \<Rightarrow> string \<Rightarrow> 'e \<Rightarrow>
   (config_error + config) \<times> 'e" where
  "load_config_with_env read_to_string toml_from_str env_lookup path e =
     (case read_to_string path of
        Inl source \<Rightarrow> (Inl (ReadError path source), e)
      | Inr raw \<Rightarrow>
          (case interpolate_env_vars env_lookup raw e of
             (Inl err, e') \<Rightarrow> (Inl err, e')
           | (Inr interpolated, e') \<Rightarrow> (map_err ParseConfig (toml_from_str interpolated), e')))"

text \<open>\<^verbatim>\<open>load_config\<close> looks variables up in the process environment.\<close>

definition load_config ::
  "(string \<Rightarrow> string + string) \<Rightarrow> (string \<Rightarrow> string + config) \<Rightarrow> (string \<Rightarrow> string option) \<Rightarrow> string \<Rightarrow>
   config_error + config" where
  "load_config read_to_string toml_from_str env_var path =
     fst (load_config_with_env read_to_string toml_from_str (\<lambda>key e. (env_var key, e)) path ())"

subsection \<open>Debug output\<close>

text \<open>\<^verbatim>\<open>Debug\<close> of a string (ASCII control characters, quotes and backslashes escaped) and of a struct.\<close>

definition lower_hex :: "nat \<Rightarrow> string" where
  "lower_hex n = map (\<lambda>c. if of_char c < (65 :: nat) then c else char_of (of_char c + 32 :: nat)) (upper_hex n)"

definition debug_char :: "char \<Rightarrow> string" where
  "debug_char c =
     (if c = CHR 34 \<or> c = CHR 92 then [CHR 92, c]
      else if c = CHR 10 then [CHR 92, CHR ''n'']
      else if c = CHR 13 then [CHR 92, CHR ''r'']
      else if c = CHR 9 then [CHR 92, CHR ''t'']
      else if c = CHR 0x00 then [CHR 92, CHR ''0'']
      else if of_char c < (32 :: nat) \<or> of_char c = (127 :: nat)
      then CHR 92 # ''u{'' @ lower_hex (of_char c) @ ''}''
      else [c])"

definition debug_str :: "string \<Rightarrow> string" where
  "debug_str s = dquote (concat (map debug_char s))"

definition debug_struct :: "string \<Rightarrow> (string \<times> string) list \<Rightarrow> string" where
  "debug_struct name fs =
     name @ '' { '' @ join_with '', '' (map (\<lambda>(k, v). k @ '': '' @ v) fs) @ '' }''"

definition server_config_debug :: "server_config \<Rightarrow> string" where
  "server_config_debug c =
     debug_struct ''ServerConfig''
       [(''host'', debug_str (sc_host c)), (''port'', dec (unat (sc_port c))),
        (''max_connections'', dec (sc_max_connections c))]"

definition postgres_config_debug :: "postgres_config \<Rightarrow> string" where
  "postgres_config_debug c =
     debug_struct ''PostgresConfig''
       [(''url'', debug_str ''[REDACTED]''), (''max_pool_size'', dec (unat (pc_max_pool_size c)))]"

fun auth_config_debug :: "auth_config \<Rightarrow> string" where
  "auth_config_debug (Hmac secret) = debug_struct ''Hmac'' [(''secret'', debug_str ''[REDACTED]'')]"
| "auth_config_debug (Jwks jwks_url) = debug_struct ''Jwks'' [(''jwks_url'', debug_str jwks_url)]"

definition config_debug :: "config \<Rightarrow> string" where
  "config_debug c =
     debug_struct ''Config''
       [(''server'', server_config_debug (cf_server c)),
        (''postgres'', postgres_config_debug (cf_postgres c)),
        (''auth'', auth_config_debug (cf_auth c)),
        (''sync_rules'', debug_struct ''SyncRulesConfig'' [(''path'', debug_str (cf_sync_rules_path c))]),
        (''metrics'', debug_struct ''MetricsConfig'' [(''port'', dec (unat (cf_metrics_port c)))]),
        (''oplog'', debug_struct ''OplogConfig''
           [(''compaction_ttl_days'', dec (unat (oc_compaction_ttl_days (cf_oplog c)))),
            (''data_dir'', debug_str (oc_data_dir (cf_oplog c)))])]"

text \<open>The \<^verbatim>\<open>Debug\<close> output of a configuration does not depend on the Postgres URL or on the HMAC
  secret: two configurations that differ only in these print the same.\<close>

theorem debug_redacts_secrets:
  "config_debug (c\<lparr>cf_postgres := (cf_postgres c)\<lparr>pc_url := u\<rparr>, cf_auth := Hmac s\<rparr>) =
   config_debug (c\<lparr>cf_postgres := (cf_postgres c)\<lparr>pc_url := u'\<rparr>, cf_auth := Hmac s'\<rparr>)"
  by (simp add: config_debug_def postgres_config_debug_def)

subsection \<open>A value cannot leave its string\<close>

text \<open>How TOML reads the rest of a basic string: up to the first quote that is not escaped, with the
  escapes the configuration uses; raw control characters other than tab are malformed.\<close>

function read_basic_string :: "string \<Rightarrow> (string \<times> string) option" where
  "read_basic_string [] = None"
| "read_basic_string (c # s) =
     (if c = CHR 34 then Some ([], s)
      else if c = CHR 92 then
        (case s of
           [] \<Rightarrow> None
         | d # s' \<Rightarrow>
             if d = CHR 34 \<or> d = CHR 92 then map_option (apfst (Cons d)) (read_basic_string s')
             else if d = CHR ''n'' then map_option (apfst (Cons (CHR 10))) (read_basic_string s')
             else if d = CHR ''r'' then map_option (apfst (Cons (CHR 13))) (read_basic_string s')
             else if d = CHR ''t'' then map_option (apfst (Cons (CHR 9))) (read_basic_string s')
             else if d = CHR ''u'' \<and> 4 \<le> length s' \<and> of_radix 16 (take 4 s') < 128
             then map_option (apfst (Cons (char_of (of_radix 16 (take 4 s'))))) (read_basic_string (drop 4 s'))
             else None)
      else if of_char c < (32 :: nat) \<and> c \<noteq> CHR 9 \<or> of_char c = (127 :: nat) then None
      else map_option (apfst (Cons c)) (read_basic_string s))"
  by pat_completeness auto
termination
  by (relation "measure length") auto

lemma unicode_escape_value:
  assumes "n < 256"
  shows "of_radix 16 [CHR ''0'', CHR ''0'', digit_char (n div 16), digit_char (n mod 16)] = n"
proof -
  have "digit_value (digit_char (n div 16)) = n div 16" "digit_value (digit_char (n mod 16)) = n mod 16"
    using assms by (simp_all add: digit_value_char)
  moreover have "digit_value (CHR ''0'') = 0" by (simp add: digit_value_def)
  ultimately show ?thesis by (simp add: of_radix_def)
qed

lemma read_escape_char: "read_basic_string (escape_char c @ s) = map_option (apfst (Cons c)) (read_basic_string s)"
proof (cases "(of_char c < (32 :: nat) \<or> of_char c = (127 :: nat)) \<and> c \<notin> {CHR 10, CHR 13, CHR 9}")
  case True
  then have "c \<noteq> CHR 92" "c \<noteq> CHR 34" by auto
  then have "escape_char c = [CHR 92, CHR ''u'', CHR ''0'', CHR ''0'', digit_char (of_char c div 16), digit_char (of_char c mod 16)]"
    using True by (simp add: escape_char_def)
  moreover have "(of_char c :: nat) < 128" using True by auto
  ultimately show ?thesis
    using unicode_escape_value [OF of_char_lt, of c] by (simp del: of_char_lt)
next
  case False
  then show ?thesis by (auto simp: escape_char_def)
qed

text \<open>Whatever an environment variable holds, a TOML reader that meets its escaped form inside a
  basic string reads back exactly that value and goes on behind the string's own closing
  quote: an interpolated value cannot end its string or add structure to the
  configuration.\<close>

theorem escape_roundtrip:
  "read_basic_string (escape_toml_basic_string v @ CHR 34 # rest) = Some (v, rest)"
  by (induction v) (simp_all add: escape_toml_basic_string_def read_escape_char del: read_basic_string.simps(2)
      split del: if_split, simp)

subsection \<open>What interpolation computes\<close>

text \<open>The text as literal pieces and references, and the replacement of each.\<close>

datatype piece = Lit string | Var string

function pieces :: "string \<Rightarrow> piece list" where
  "pieces rest =
     (case split_marker rest of
        None \<Rightarrow> [Lit rest]
      | Some (before, after_marker) \<Rightarrow>
          (case split_brace after_marker of
             None \<Rightarrow> [Lit rest]
           | Some (var_name, rest') \<Rightarrow> Lit before # Var var_name # pieces rest'))"
  by pat_completeness auto
termination
  by (relation "measure length") (auto dest!: split_marker_Some split_brace_Some)

declare pieces.simps [simp del]

fun piece_source :: "piece \<Rightarrow> string" where
  "piece_source (Lit s) = s"
| "piece_source (Var v) = ''${'' @ v @ ''}''"

fun piece_text :: "(string \<Rightarrow> string option) \<Rightarrow> piece \<Rightarrow> config_error + string" where
  "piece_text env (Lit s) = Inr s"
| "piece_text env (Var v) = map_sum id escape_toml_basic_string (ok_or (MissingEnvVar v) (env v))"

definition piece_vars :: "piece list \<Rightarrow> string set" where
  "piece_vars ps = {v. Var v \<in> set ps}"

lemma pieces_source: "concat (map piece_source (pieces s)) = s"
proof (induction s rule: pieces.induct)
  case (1 rest)
  then show ?case
    by (subst pieces.simps) (auto split: option.split dest!: split_marker_Some split_brace_Some)
qed

text \<open>The cache agrees with the environment, and holds exactly the variables looked up.\<close>

definition cache_ok :: "(string \<Rightarrow> string option) \<Rightarrow> (string, string) hmap \<Rightarrow> string list \<Rightarrow> bool" where
  "cache_ok env cache looked_up \<longleftrightarrow>
     (\<forall>k v. hm_get cache k = Some v \<longrightarrow> env k = Some v) \<and> dom (hm_get cache) = set looked_up \<and> distinct looked_up"

abbreviation recording :: "(string \<Rightarrow> string option) \<Rightarrow> string list env_lookup" where
  "recording env \<equiv> \<lambda>key looked_up. (env key, looked_up @ [key])"

lemma lookup_var_recording:
  assumes "cache_ok env cache looked_up"
  shows "case lookup_var (recording env) v cache looked_up of
      (Inl err, looked_up') \<Rightarrow> env v = None \<and> err = MissingEnvVar v \<and> distinct looked_up' \<and>
        set looked_up' = insert v (set looked_up)
    | (Inr (x, cache'), looked_up') \<Rightarrow> env v = Some x \<and> cache_ok env cache' looked_up' \<and>
        set looked_up' = insert v (set looked_up)"
proof (cases "hm_get cache v")
  case None
  then have "v \<notin> set looked_up" using assms by (auto simp: cache_ok_def)
  with None assms show ?thesis
    by (auto simp: lookup_var_def cache_ok_def split: option.split)
next
  case (Some x)
  then have "v \<in> set looked_up" using assms by (auto simp: cache_ok_def)
  with Some assms show ?thesis by (auto simp: lookup_var_def cache_ok_def)
qed

lemma interpolate_loop_literal:
  "split_marker rest = None \<Longrightarrow> interpolate_loop env_lookup rest cache out e = (Inr (out @ rest), e)"
  by (simp add: interpolate_loop.simps [where rest = rest])

lemma interpolate_loop_unclosed:
  assumes "split_marker rest = Some (before, after)" "split_brace after = None"
  shows "interpolate_loop env_lookup rest cache out e = (Inr (out @ rest), e)"
proof -
  have "interpolate_loop env_lookup rest cache out e = (Inr (out @ before @ ''${'' @ after), e)"
    by (simp add: interpolate_loop.simps [where rest = rest] assms)
  then show ?thesis by (simp only: split_marker_Some [OF assms(1)])
qed

lemma interpolate_loop_reference:
  assumes "split_marker rest = Some (before, after)" "split_brace after = Some (v, rest')"
  shows "interpolate_loop env_lookup rest cache out e =
    (case lookup_var env_lookup v cache e of
       (Inl err, e') \<Rightarrow> (Inl err, e')
     | (Inr (x, cache'), e') \<Rightarrow>
         interpolate_loop env_lookup rest' cache' (out @ before @ escape_toml_basic_string x) e')"
  by (simp add: interpolate_loop.simps [where rest = rest] assms)

lemma pieces_literal:
  "split_marker rest = None \<Longrightarrow> pieces rest = [Lit rest]"
  "split_marker rest = Some (before, after) \<Longrightarrow> split_brace after = None \<Longrightarrow> pieces rest = [Lit rest]"
  by (simp_all add: pieces.simps [of rest])

lemma pieces_reference:
  "split_marker rest = Some (before, after) \<Longrightarrow> split_brace after = Some (v, rest') \<Longrightarrow>
   pieces rest = Lit before # Var v # pieces rest'"
  by (simp add: pieces.simps [of rest])

lemma pieces_cases:
  obtains (literal) "pieces rest = [Lit rest]"
      "\<And>(lk :: string list env_lookup) cache out e. interpolate_loop lk rest cache out e = (Inr (out @ rest), e)"
    | (reference) before after v rest' where "split_marker rest = Some (before, after)"
      "split_brace after = Some (v, rest')"
  using pieces_literal interpolate_loop_literal interpolate_loop_unclosed
  by (metis option.exhaust surj_pair)

definition interpolated :: "(string \<Rightarrow> string option) \<Rightarrow> string \<Rightarrow> string \<Rightarrow> string list \<Rightarrow>
    (config_error + string) \<times> string list \<Rightarrow> bool" where
  "interpolated env rest out looked_up = (\<lambda>(r, looked_up').
     r = map_sum id (\<lambda>ts. out @ concat ts) (try_map (piece_text env) (pieces rest)) \<and>
     distinct looked_up' \<and> set looked_up' \<subseteq> set looked_up \<union> piece_vars (pieces rest))"

lemma interpolate_loop_spec:
  assumes "cache_ok env cache looked_up"
  shows "interpolated env rest out looked_up (interpolate_loop (recording env) rest cache out looked_up)"
  using assms
proof (induction "length rest" arbitrary: rest cache out looked_up rule: less_induct)
  case less
  show ?case
  proof (rule pieces_cases [of rest])
    assume literal: "pieces rest = [Lit rest]"
      "\<And>(lk :: string list env_lookup) cache out e. interpolate_loop lk rest cache out e = (Inr (out @ rest), e)"
    from less.prems have "distinct looked_up" unfolding cache_ok_def by blast
    then show ?thesis by (simp add: literal interpolated_def)
  next
    fix before after v rest'
    assume reference: "split_marker rest = Some (before, after)" "split_brace after = Some (v, rest')"
    note ps = pieces_reference [OF reference]
      and run = interpolate_loop_reference [OF reference, of "recording env" cache out looked_up]
    have shorter: "length rest' < length rest"
      using split_marker_Some [OF reference(1)] split_brace_Some [OF reference(2)] by simp
    note lk = lookup_var_recording [OF less.prems, of v]
    show ?thesis
    proof (cases "lookup_var (recording env) v cache looked_up")
      case (Pair res l1)
      show ?thesis
      proof (cases res)
        case (Inl err)
        with lk Pair show ?thesis by (auto simp: interpolated_def run ps piece_vars_def)
      next
        case (Inr xc)
        obtain x cache' where xc: "xc = (x, cache')" by (rule prod.exhaust)
        from lk have env: "env v = Some x" and ok: "cache_ok env cache' l1"
          and l1: "set l1 = insert v (set looked_up)" by (simp_all add: Pair Inr xc)
        from less.hyps [OF shorter ok, of "out @ before @ escape_toml_basic_string x"]
        show ?thesis
          using l1 env
          by (cases "try_map (piece_text env) (pieces rest')")
            (auto simp: interpolated_def run Pair Inr xc ps piece_vars_def)
      qed
    qed
  qed
qed

text \<open>C32: interpolation replaces exactly the references. For every text and environment it ends; the
  text splits into literal pieces and \<^verbatim>\<open>${NAME}\<close> references that make it up in order; the result
  is the literals unchanged with each reference replaced by the escaped value, or the error
  for the first reference whose variable is not set; no variable is looked up twice, and
  none that is not referenced.\<close>

theorem interpolation_correct:
  "case interpolate_env_vars (recording env) input [] of (r, looked_up) \<Rightarrow>
     r = map_sum id concat (try_map (piece_text env) (pieces input)) \<and>
     concat (map piece_source (pieces input)) = input \<and>
     distinct looked_up \<and> set looked_up \<subseteq> piece_vars (pieces input)"
  using interpolate_loop_spec [where env = env and cache = "[]" and looked_up = "[]" and rest = input and out = "[]"]
  by (auto simp: interpolate_env_vars_def interpolated_def pieces_source cache_ok_def)

end
