(* ===== verification/Gateway_Server.thy ===== *)
theory Gateway_Server
  imports PES_Prelude
begin

section \<open>The accept loop (\<^verbatim>\<open>pes-gateway: server.rs\<close>)\<close>

text \<open>
  \<^verbatim>\<open>GatewayServer\<close>: its configuration, the shared connection counter, and \<^verbatim>\<open>run\<close>, whose accept
  loop and spawned connection tasks interleave: each rule of \<open>server_step\<close> is one atomic
  action of the loop or of a task. A task counts itself in, upgrades the socket, runs the
  connection handler and counts itself out. \<open>gs_peak\<close> is a ghost field: the largest number of
  tasks that were spawned but had not yet counted themselves.
\<close>

record gateway_config =
  gc_max_connections :: nat
  gc_keepalive_interval :: duration
  gc_delta_poll_interval :: duration

definition default_gateway_config :: gateway_config where
  "default_gateway_config =
     \<lparr>gc_max_connections = 10000, gc_keepalive_interval = from_secs 30,
      gc_delta_poll_interval = 100 * 1000000\<rparr>"

datatype connection_task = Spawned | Upgrading | Handling

datatype accept_loop = Accepting | Stopped "string + unit"

record gateway_server =
  gs_config :: gateway_config
  gs_connection_count :: nat
  gs_loop :: accept_loop
  gs_shutdown :: bool
  gs_tasks :: "connection_task list"
  gs_peak :: nat

definition server_bind :: "(string \<Rightarrow> string + unit) \<Rightarrow> string \<Rightarrow> gateway_config \<Rightarrow> string + gateway_server" where
  "server_bind tcp_bind addr config =
     and_then (tcp_bind addr) (\<lambda>_.
     Inr \<lparr>gs_config = config, gs_connection_count = 0, gs_loop = Accepting, gs_shutdown = False,
          gs_tasks = [], gs_peak = 0\<rparr>)"

definition uncounted :: "gateway_server \<Rightarrow> nat" where
  "uncounted g = length (filter (\<lambda>t. t = Spawned) (gs_tasks g))"

definition on_accept :: "gateway_server \<Rightarrow> gateway_server" where
  "on_accept g =
     (if gs_connection_count g \<ge> gc_max_connections (gs_config g) then g
      else g\<lparr>gs_tasks := gs_tasks g @ [Spawned], gs_peak := max (gs_peak g) (uncounted g + 1)\<rparr>)"

inductive server_step :: "gateway_server \<Rightarrow> gateway_server \<Rightarrow> bool" where
  accepted: "gs_loop g = Accepting \<Longrightarrow> server_step g (on_accept g)"
| accept_failed: "gs_loop g = Accepting \<Longrightarrow> server_step g (g\<lparr>gs_loop := Stopped (Inl e)\<rparr>)"
| cancelled: "\<not> gs_shutdown g \<Longrightarrow> server_step g (g\<lparr>gs_shutdown := True\<rparr>)"
| loop_ends: "gs_loop g = Accepting \<Longrightarrow> gs_shutdown g \<Longrightarrow>
    server_step g (g\<lparr>gs_loop := Stopped (Inr ())\<rparr>)"
| counted_in: "gs_tasks g = xs @ Spawned # ys \<Longrightarrow>
    server_step g (g\<lparr>gs_tasks := xs @ Upgrading # ys, gs_connection_count := gs_connection_count g + 1\<rparr>)"
| upgraded: "gs_tasks g = xs @ Upgrading # ys \<Longrightarrow> server_step g (g\<lparr>gs_tasks := xs @ Handling # ys\<rparr>)"
| upgrade_failed: "gs_tasks g = xs @ Upgrading # ys \<Longrightarrow>
    server_step g (g\<lparr>gs_tasks := xs @ ys, gs_connection_count := gs_connection_count g - 1\<rparr>)"
| handled: "gs_tasks g = xs @ Handling # ys \<Longrightarrow>
    server_step g (g\<lparr>gs_tasks := xs @ ys, gs_connection_count := gs_connection_count g - 1\<rparr>)"

inductive_cases server_stepE: "server_step g g'"

subsection \<open>Counting\<close>

definition counted :: "gateway_server \<Rightarrow> nat" where
  "counted g = length (filter (\<lambda>t. t \<noteq> Spawned) (gs_tasks g))"

definition server_inv :: "nat \<Rightarrow> gateway_server \<Rightarrow> bool" where
  "server_inv limit g \<longleftrightarrow>
     gc_max_connections (gs_config g) = limit \<and>
     gs_connection_count g = counted g \<and>
     uncounted g \<le> gs_peak g \<and>
     counted g + uncounted g \<le> limit + (gs_peak g - 1)"

lemma server_inv_step: "server_step g g' \<Longrightarrow> server_inv limit g \<Longrightarrow> server_inv limit g'"
proof (induction rule: server_step.induct)
  case (accepted g)
  then show ?case by (auto simp: server_inv_def on_accept_def counted_def uncounted_def)
next
  case (counted_in g xs ys)
  then show ?case by (auto simp: server_inv_def counted_def uncounted_def)
next
  case (upgraded g xs ys)
  then show ?case by (auto simp: server_inv_def counted_def uncounted_def)
next
  case (upgrade_failed g xs ys)
  then show ?case by (auto simp: server_inv_def counted_def uncounted_def)
next
  case (handled g xs ys)
  then show ?case by (auto simp: server_inv_def counted_def uncounted_def)
qed (auto simp: server_inv_def counted_def uncounted_def)

lemma server_inv_reachable:
  assumes "server_bind tcp_bind addr config = Inr g0" and "server_step\<^sup>*\<^sup>* g0 g"
  shows "server_inv (gc_max_connections config) g"
  using assms(2)
proof (induction rule: rtranclp_induct)
  case base
  show ?case using assms(1)
    by (auto simp: server_bind_def result_simps server_inv_def counted_def uncounted_def)
next
  case (step v w)
  then show ?case using server_inv_step by blast
qed

text \<open>C30: the connection counter is exact and bounded. In every reachable state it equals the number
  of connection tasks that have counted themselves in and not out, so it never underflows
  and reaches zero exactly when the last one has ended; and it exceeds the configured limit
  by at most the largest number of tasks, less one, that were ever spawned and not yet
  counted: if no connection is accepted while a task is still uncounted, the limit
  holds.\<close>

theorem connection_count_exact:
  assumes "server_bind tcp_bind addr config = Inr g0" and "server_step\<^sup>*\<^sup>* g0 g"
  shows "gs_connection_count g = counted g \<and>
    gs_connection_count g \<le> gc_max_connections config + (gs_peak g - 1) \<and>
    (gs_peak g \<le> 1 \<longrightarrow> gs_connection_count g \<le> gc_max_connections config)"
  using server_inv_reachable [OF assms] by (auto simp: server_inv_def)

definition sample_server :: gateway_server where
  "sample_server =
     \<lparr>gs_config = default_gateway_config\<lparr>gc_max_connections := 1\<rparr>, gs_connection_count = 0, gs_loop = Accepting,
      gs_shutdown = False, gs_tasks = [], gs_peak = 0\<rparr>"

lemma sample_server_bind:
  "server_bind (\<lambda>_. Inr ()) ''0.0.0.0:8080'' (default_gateway_config\<lparr>gc_max_connections := 1\<rparr>) = Inr sample_server"
  by (simp add: server_bind_def sample_server_def)

theorem connection_count_exact_witness: "gs_connection_count (on_accept sample_server) = counted (on_accept sample_server)"
proof -
  have "server_step\<^sup>*\<^sup>* sample_server (on_accept sample_server)"
    by (rule r_into_rtranclp, rule server_step.accepted) (simp add: sample_server_def)
  from connection_count_exact [OF sample_server_bind this] show ?thesis by blast
qed

subsection \<open>The limit under a burst\<close>

text \<open>The limit is read before the task is spawned and the counter raised only inside the task: any
  number of connections accepted before the first of them runs pass the check.\<close>

definition burst_server :: "connection_task list \<Rightarrow> nat \<Rightarrow> nat \<Rightarrow> gateway_server" where
  "burst_server ts n peak = sample_server\<lparr>gs_tasks := ts, gs_connection_count := n, gs_peak := peak\<rparr>"

lemma burst_accepts: "server_step\<^sup>*\<^sup>* sample_server (burst_server (replicate n Spawned) 0 n)"
proof (induction n)
  case 0
  show ?case by (simp add: burst_server_def sample_server_def)
next
  case (Suc n)
  have "server_step (burst_server (replicate n Spawned) 0 n) (on_accept (burst_server (replicate n Spawned) 0 n))"
    by (rule server_step.accepted) (simp add: burst_server_def sample_server_def)
  moreover have "on_accept (burst_server (replicate n Spawned) 0 n) = burst_server (replicate (Suc n) Spawned) 0 (Suc n)"
    by (simp add: on_accept_def burst_server_def sample_server_def uncounted_def replicate_append_same)
  ultimately show ?case using Suc by (simp add: rtranclp.rtrancl_into_rtrancl)
qed

lemma burst_counts:
  "server_step\<^sup>*\<^sup>* (burst_server (replicate n Spawned) 0 p) (burst_server (replicate k Upgrading @ replicate (n - k) Spawned) k p)"
  if "k \<le> n"
  using that
proof (induction k)
  case 0
  show ?case by simp
next
  case (Suc k)
  let ?g = "burst_server (replicate k Upgrading @ replicate (n - k) Spawned) k p"
  have "gs_tasks ?g = replicate k Upgrading @ Spawned # replicate (n - Suc k) Spawned"
    using Suc.prems by (simp add: burst_server_def Suc_diff_Suc flip: replicate_Suc)
  from server_step.counted_in [OF this]
  have "server_step ?g (burst_server (replicate (Suc k) Upgrading @ replicate (n - Suc k) Spawned) (Suc k) p)"
    by (simp add: burst_server_def sample_server_def replicate_app_Cons_same)
  with Suc show ?case by (simp add: rtranclp.rtrancl_into_rtrancl)
qed

text \<open>The connection limit can be passed by any amount. With the limit at one connection, for
  every number \<open>n\<close> there is a run of the server in which \<open>n\<close> connections are open and counted
  at once: the check reads the counter, but the task that raises it starts later.\<close>

theorem connection_limit_race:
  "\<exists>g. server_step\<^sup>*\<^sup>* sample_server g \<and> gc_max_connections (gs_config g) = 1 \<and>
     gs_connection_count g = n \<and> counted g = n"
proof -
  let ?g = "burst_server (replicate n Upgrading) n n"
  have "server_step\<^sup>*\<^sup>* sample_server ?g"
    using burst_accepts [of n] burst_counts [of n n n] by simp
  moreover have "gc_max_connections (gs_config ?g) = 1 \<and> gs_connection_count ?g = n \<and> counted ?g = n"
    by (simp add: burst_server_def sample_server_def counted_def)
  ultimately show ?thesis by blast
qed

subsection \<open>Draining after shutdown\<close>

definition task_work :: "connection_task \<Rightarrow> nat" where
  "task_work t = (case t of Spawned \<Rightarrow> 3 | Upgrading \<Rightarrow> 2 | Handling \<Rightarrow> 1)"

definition drain_work :: "gateway_server \<Rightarrow> nat" where
  "drain_work g = sum_list (map task_work (gs_tasks g))"

lemma task_work_pos: "0 < task_work t"
  by (simp add: task_work_def split: connection_task.split)

lemma drain_work_step:
  assumes "server_step g g'" and "gs_loop g \<noteq> Accepting" and "gs_shutdown g"
  shows "drain_work g' < drain_work g \<and> gs_loop g' = gs_loop g \<and> gs_shutdown g'"
  using assms by (induction rule: server_step.induct) (auto simp: drain_work_def task_work_def)

lemma drain_progress:
  assumes "gs_tasks g \<noteq> []"
  shows "\<exists>g'. server_step g g'"
proof -
  obtain t ts where tasks: "gs_tasks g = [] @ t # ts" using assms by (cases "gs_tasks g") auto
  show ?thesis
    using server_step.counted_in [of g "[]" ts] server_step.upgraded [of g "[]" ts]
      server_step.handled [of g "[]" ts] tasks
    by (cases t) auto
qed

lemma drain_runs_bounded:
  "(server_step ^^ n) g g' \<Longrightarrow> gs_loop g \<noteq> Accepting \<Longrightarrow> gs_shutdown g \<Longrightarrow>
    n + drain_work g' \<le> drain_work g \<and> gs_loop g' = gs_loop g \<and> gs_shutdown g'"
proof (induction n arbitrary: g')
  case (Suc n)
  then obtain h where "(server_step ^^ n) g h" "server_step h g'" by auto
  with Suc.IH [of h] Suc.prems drain_work_step [of h g'] show ?case by auto
qed simp


definition draining_server :: "connection_task list \<Rightarrow> nat \<Rightarrow> gateway_server" where
  "draining_server ts n =
     sample_server\<lparr>gs_tasks := ts, gs_connection_count := n, gs_peak := 1, gs_shutdown := True,
       gs_loop := Stopped (Inr ())\<rparr>"

lemma draining_reachable: "server_step\<^sup>*\<^sup>* sample_server (draining_server [Spawned] 0)"
proof -
  let ?g1 = "on_accept sample_server"
  have "server_step sample_server ?g1"
    by (rule server_step.accepted) (simp add: sample_server_def)
  moreover have "server_step ?g1 (?g1\<lparr>gs_shutdown := True\<rparr>)"
    by (rule server_step.cancelled) (simp add: on_accept_def sample_server_def default_gateway_config_def)
  moreover have "server_step (?g1\<lparr>gs_shutdown := True\<rparr>) (?g1\<lparr>gs_shutdown := True, gs_loop := Stopped (Inr ())\<rparr>)"
    by (rule server_step.loop_ends) (simp_all add: on_accept_def sample_server_def default_gateway_config_def)
  moreover have "?g1\<lparr>gs_shutdown := True, gs_loop := Stopped (Inr ())\<rparr> = draining_server [Spawned] 0"
    by (simp add: on_accept_def sample_server_def default_gateway_config_def draining_server_def uncounted_def)
  ultimately show ?thesis by (metis r_into_rtranclp rtranclp.rtrancl_into_rtrancl)
qed


end
