(* ===== verification/Pes_Server.thy ===== *)
theory Pes_Server
  imports "HOL-Library.Sublist" Effects Router Auth Server_Config Gateway_Server
begin

section \<open>The server binary (\<^verbatim>\<open>pes-server: main.rs, health.rs, shutdown.rs\<close>)\<close>

text \<open>
  What the binary does around the components: \<^verbatim>\<open>main\<close> loads the configuration, \<^verbatim>\<open>run\<close> connects,
  validates, opens and binds in order, spawns the four tasks, waits for the signal and
  drains. The libraries it calls are the record \<open>server_lib\<close>; what it does to the outside is
  recorded as a list of \<open>server_event\<close>s. The drain loop polls the gateway's connection
  counter, which other tasks change meanwhile: it is a function of time, as is the moment
  a sleep returns. The loop is a partial function, so not returning is \<open>None\<close>. The
  health handlers are functions of the shared state they read.
\<close>

subsection \<open>Health, readiness and metrics\<close>

record health_state =
  hs_connection_count :: nat
  hs_router_metrics :: router_metrics
  hs_wal_replication_active :: bool
  hs_lag_ms :: int

record http_response =
  hr_status :: nat
  hr_headers :: "(string \<times> string) list"
  hr_body :: string

text \<open>\<^verbatim>\<open>HealthResponse\<close> with its derived serializer, and the handlers. \<^verbatim>\<open>Json(..)\<close> sets the content
  type; rendering the metrics is the \<^verbatim>\<open>prometheus\<close> library's.\<close>

definition health_response :: "string \<Rightarrow> nat \<Rightarrow> int \<Rightarrow> string" where
  "health_response status connections lag_ms =
     ''{'' @ dquote ''status'' @ '':'' @ dquote status @ '','' @
     dquote ''connections'' @ '':'' @ dec connections @ '','' @
     dquote ''lag_ms'' @ '':'' @ dec_int lag_ms @ ''}''"

definition health :: "health_state \<Rightarrow> http_response" where
  "health state =
     \<lparr>hr_status = 200, hr_headers = [(''content-type'', ''application/json'')],
      hr_body = health_response ''healthy'' (hs_connection_count state) (hs_lag_ms state)\<rparr>"

definition ready :: "health_state \<Rightarrow> http_response" where
  "ready state =
     \<lparr>hr_status = (if hs_wal_replication_active state then 200 else 503), hr_headers = [], hr_body = ''''\<rparr>"

definition metrics :: "(router_metrics \<Rightarrow> string) \<Rightarrow> health_state \<Rightarrow> http_response" where
  "metrics render_metrics state =
     \<lparr>hr_status = 200, hr_headers = [(''content-type'', ''text/plain; version=0.0.4'')],
      hr_body = render_metrics (hs_router_metrics state)\<rparr>"

definition health_router ::
  "(router_metrics \<Rightarrow> string) \<Rightarrow> health_state \<Rightarrow> (string \<times> http_response) list" where
  "health_router render_metrics state =
     [(''/health'', health state), (''/ready'', ready state), (''/metrics'', metrics render_metrics state)]"

subsection \<open>Startup\<close>

definition WAL_CHANNEL_PATH :: string where
  "WAL_CHANNEL_PATH = ''entity/changes''"

definition REPLICATION_SLOT_NAME :: string where
  "REPLICATION_SLOT_NAME = ''pes_server_slot''"

definition PUBLICATION_NAME :: string where
  "PUBLICATION_NAME = ''pes_pub''"

definition SHUTDOWN_DRAIN_TIMEOUT :: duration where
  "SHUTDOWN_DRAIN_TIMEOUT = from_secs 30"

datatype startup_error =
    ConnectFailed string
  | RulesFailed parse_error
  | CreateDirFailed string
  | OplogFailed op_log_error
  | BindFailed string
  | SignalFailed string
  | Panicked

datatype server_task = CdcConsumer string string string string | RouterTask | GatewayTask | HealthTask

datatype server_event =
    PoolConnected "32 word" string
  | DirectoryCreated string
  | OplogOpened string
  | TaskSpawned server_task
  | Slept duration
  | Listening string
  | GatewayCancelled
  | CdcShutdownSent
  | TaskAborted server_task

text \<open>\<^verbatim>\<open>wait_for_sigterm\<close> on Unix: registering the SIGTERM handler may fail; after that, whichever branch of the
  \<^verbatim>\<open>select!\<close> completes first ends the wait, also a \<^verbatim>\<open>ctrl_c()\<close> that could not install its handler.\<close>

datatype wakeup = SigtermReceived | CtrlC "string + unit"

definition wait_for_sigterm :: "string + unit \<Rightarrow> wakeup \<Rightarrow> string + unit" where
  "wait_for_sigterm sigterm first =
     and_then sigterm (\<lambda>_. case first of SigtermReceived \<Rightarrow> Inr () | CtrlC _ \<Rightarrow> Inr ())"

record 'db server_lib =
  sl_connect :: "32 word \<Rightarrow> string \<Rightarrow> string + unit"
  sl_read_rules :: "string \<Rightarrow> io_error + string"
  sl_parse_rules :: "string \<Rightarrow> toml_error + toml_document"
  sl_create_dir_all :: "string \<Rightarrow> string + unit"
  sl_database_create :: "string \<Rightarrow> string + 'db"
  sl_tcp_bind :: "string \<Rightarrow> string + unit"
  sl_sigterm :: "string + unit"
  sl_wakeup :: wakeup

definition sl_signal :: "'db server_lib \<Rightarrow> string + unit" where
  "sl_signal L = wait_for_sigterm (sl_sigterm L) (sl_wakeup L)"

record ('db, 'key) running =
  rn_assigner :: assigner
  rn_oplog :: "'db bucket_op_log"
  rn_jwt_validator :: "'key jwt_validator"
  rn_broker :: in_process_broker
  rn_gateway :: gateway_server
  rn_health :: health_state
  rn_cdc :: server_task

text \<open>A fallible library call that leaves an event when it succeeds.\<close>

definition perform :: "'f + 'a \<Rightarrow> ('f \<Rightarrow> startup_error) \<Rightarrow> server_event \<Rightarrow> (server_event list, startup_error, 'a) action" where
  "perform r err ev = (\<lambda>w. case r of Inl e \<Rightarrow> (Inl (err e), w) | Inr x \<Rightarrow> (Inr x, w @ [ev]))"

definition emit :: "server_event \<Rightarrow> (server_event list, startup_error, unit) action" where
  "emit ev = (\<lambda>w. (Inr (), w @ [ev]))"

text \<open>\<^verbatim>\<open>PathBuf::join\<close> with a relative file name.\<close>

definition path_join :: "string \<Rightarrow> string \<Rightarrow> string" where
  "path_join dir file = (if dir = '''' \<or> last dir = CHR ''/'' then dir @ file else dir @ ''/'' @ file)"

text \<open>The multiplication is on \<^verbatim>\<open>u64\<close> and wraps in a release build.\<close>

definition compaction_ttl :: "u64 \<Rightarrow> duration" where
  "compaction_ttl days = from_secs (unat (days * 24 * 60 * 60))"

fun jwt_config_of :: "auth_config \<Rightarrow> jwt_validation_config" where
  "jwt_config_of (Hmac secret) = HmacSha256 secret"
| "jwt_config_of (Jwks jwks_url) = Rs256Jwks jwks_url"

definition socket_addr :: "string \<Rightarrow> u16 \<Rightarrow> string" where
  "socket_addr host port = host @ '':'' @ dec (unat port)"

definition gateway_config_of :: "config \<Rightarrow> gateway_config" where
  "gateway_config_of config =
     default_gateway_config\<lparr>gc_max_connections := sc_max_connections (cf_server config)\<rparr>"

definition cdc_consumer :: "config \<Rightarrow> server_task" where
  "cdc_consumer config =
     CdcConsumer (pc_url (cf_postgres config)) REPLICATION_SLOT_NAME PUBLICATION_NAME WAL_CHANNEL_PATH"

definition load_rules :: "'db server_lib \<Rightarrow> string \<Rightarrow> startup_error + sync_rule_set" where
  "load_rules L path =
     (case parse_sync_rules (sl_read_rules L) (sl_parse_rules L) path of
        None \<Rightarrow> Inl Panicked
      | Some r \<Rightarrow> map_err RulesFailed r)"

definition startup ::
  "('db, 'wt, 'rt) log_env \<Rightarrow> 'db server_lib \<Rightarrow> config \<Rightarrow>
   (server_event list, startup_error, ('db, 'key) running) action" where
  "startup E L config =
     seq (perform (sl_connect L (pc_max_pool_size (cf_postgres config)) (pc_url (cf_postgres config))) ConnectFailed
            (PoolConnected (pc_max_pool_size (cf_postgres config)) (pc_url (cf_postgres config)))) (\<lambda>_.
     seq (lift_result (load_rules L (cf_sync_rules_path config))) (\<lambda>rule_set.
     seq (lift_result (map_err RulesFailed (new_assigner rule_set (from_secs 3600)))) (\<lambda>assigner.
     seq (perform (sl_create_dir_all L (oc_data_dir (cf_oplog config))) CreateDirFailed
            (DirectoryCreated (oc_data_dir (cf_oplog config)))) (\<lambda>_.
     let oplog_path = path_join (oc_data_dir (cf_oplog config)) ''oplog.redb'' in
     seq (perform (open_log E (sl_database_create L) oplog_path (compaction_ttl (oc_compaction_ttl_days (cf_oplog config))))
            OplogFailed (OplogOpened oplog_path)) (\<lambda>oplog.
     let jwt_validator = new_jwt_validator (jwt_config_of (cf_auth config)) in
     seq (emit (TaskSpawned (cdc_consumer config))) (\<lambda>_.
     seq (emit (TaskSpawned RouterTask)) (\<lambda>_.
     seq (emit (Slept (500 * 1000000))) (\<lambda>_.
     let gateway_addr = socket_addr (sc_host (cf_server config)) (sc_port (cf_server config)) in
     seq (perform (server_bind (sl_tcp_bind L) gateway_addr (gateway_config_of config)) BindFailed
            (Listening gateway_addr)) (\<lambda>gateway_server.
     seq (emit (TaskSpawned GatewayTask)) (\<lambda>_.
     let metrics_addr = socket_addr (sc_host (cf_server config)) (cf_metrics_port config) in
     seq (perform (sl_tcp_bind L metrics_addr) BindFailed (Listening metrics_addr)) (\<lambda>_.
     seq (emit (TaskSpawned HealthTask)) (\<lambda>_.
     ret \<lparr>rn_assigner = assigner, rn_oplog = oplog, rn_jwt_validator = jwt_validator, rn_broker = new_broker,
          rn_gateway = gateway_server,
          rn_health = \<lparr>hs_connection_count = gs_connection_count gateway_server, hs_router_metrics = new_metrics,
                       hs_wal_replication_active = True, hs_lag_ms = 0\<rparr>,
          rn_cdc = cdc_consumer config\<rparr>))))))))))))"

subsection \<open>Shutdown\<close>

text \<open>\<open>conns t\<close> is the connection counter at time \<open>t\<close>, \<open>wake t\<close> the time at which a sleep of
  100 ms begun at \<open>t\<close> returns; \<open>slept\<close> counts the sleeps.\<close>

definition drain_interval :: duration where
  "drain_interval = 100 * 1000000"

partial_function (option) drain_connections ::
  "(instant \<Rightarrow> nat) \<Rightarrow> (instant \<Rightarrow> instant) \<Rightarrow> instant \<Rightarrow> instant \<Rightarrow> nat \<Rightarrow> (instant \<times> nat) option" where
  "drain_connections conns wake drain_deadline now slept =
     (if conns now > 0 \<and> now < drain_deadline
      then drain_connections conns wake drain_deadline (wake now) (slept + 1)
      else Some (now, slept))"

record drain_report =
  dr_remaining :: nat
  dr_finished :: instant
  dr_sleeps :: nat

definition server_run ::
  "('db, 'wt, 'rt) log_env \<Rightarrow> 'db server_lib \<Rightarrow> (instant \<Rightarrow> nat) \<Rightarrow> (instant \<Rightarrow> instant) \<Rightarrow> instant \<Rightarrow> config \<Rightarrow>
   server_event list \<Rightarrow> ((startup_error + ('db, 'key) running \<times> drain_report) \<times> server_event list) option" where
  "server_run E L conns wake signalled config w =
     (case startup E L config w of
        (Inl e, w') \<Rightarrow> Some (Inl e, w')
      | (Inr r, w') \<Rightarrow>
          (case sl_signal L of
             Inl e \<Rightarrow> Some (Inl (SignalFailed e), w')
           | Inr _ \<Rightarrow>
               (case drain_connections conns wake (signalled + SHUTDOWN_DRAIN_TIMEOUT) signalled 0 of
                  None \<Rightarrow> None
                | Some (now, slept) \<Rightarrow>
                    Some (Inr (r, \<lparr>dr_remaining = conns now, dr_finished = now, dr_sleeps = slept\<rparr>),
                          w' @ [GatewayCancelled, CdcShutdownSent] @
                          replicate slept (Slept drain_interval) @
                          map TaskAborted [HealthTask, GatewayTask, RouterTask, rn_cdc r]))))"

text \<open>\<^verbatim>\<open>main\<close>: a configuration error is printed and the process exits with status 1; otherwise
  \<^verbatim>\<open>run\<close>'s result is the process's.\<close>

datatype 'r main_outcome = ExitedWith nat string | RuntimeFailed string | Ran "'r"

definition main ::
  "(string \<Rightarrow> string + string) \<Rightarrow> (string \<Rightarrow> string + config) \<Rightarrow> (string \<Rightarrow> string option) \<Rightarrow> (string + unit) \<Rightarrow>
   (config \<Rightarrow> 'r) \<Rightarrow> 'r main_outcome" where
  "main read_to_string toml_from_str env_var runtime_new run =
     (let config_path = (case env_var ''PES_CONFIG_PATH'' of Some p \<Rightarrow> p | None \<Rightarrow> ''./config.toml'') in
      case load_config read_to_string toml_from_str env_var config_path of
        Inl e \<Rightarrow>
          ExitedWith 1 (''pes-server: failed to load config from '' @ [CHR 39] @ config_path @ [CHR 39] @ '': '' @
                        config_error_display e)
      | Inr config \<Rightarrow>
          (case runtime_new of Inl e \<Rightarrow> RuntimeFailed e | Inr _ \<Rightarrow> Ran (run config)))"

subsection \<open>Startup in order\<close>

text \<open>The events of a startup that succeeds.\<close>

definition startup_events :: "config \<Rightarrow> server_event list" where
  "startup_events config =
     [PoolConnected (pc_max_pool_size (cf_postgres config)) (pc_url (cf_postgres config)),
      DirectoryCreated (oc_data_dir (cf_oplog config)),
      OplogOpened (path_join (oc_data_dir (cf_oplog config)) ''oplog.redb''),
      TaskSpawned (cdc_consumer config), TaskSpawned RouterTask, Slept (500 * 1000000),
      Listening (socket_addr (sc_host (cf_server config)) (sc_port (cf_server config))),
      TaskSpawned GatewayTask,
      Listening (socket_addr (sc_host (cf_server config)) (cf_metrics_port config)),
      TaskSpawned HealthTask]"

definition validated :: "('db, 'wt, 'rt) log_env \<Rightarrow> 'db server_lib \<Rightarrow> config \<Rightarrow> sync_rule_set \<Rightarrow> 'db bucket_op_log \<Rightarrow> bool" where
  "validated E L config rule_set oplog \<longleftrightarrow>
     parse_sync_rules (sl_read_rules L) (sl_parse_rules L) (cf_sync_rules_path config) = Some (Inr rule_set) \<and>
     validate rule_set = Inr () \<and>
     open_log E (sl_database_create L) (path_join (oc_data_dir (cf_oplog config)) ''oplog.redb'')
       (compaction_ttl (oc_compaction_ttl_days (cf_oplog config))) = Inr oplog"

lemma load_rules_Inr [result_simps]:
  "load_rules L path = Inr rules \<longleftrightarrow> parse_sync_rules (sl_read_rules L) (sl_parse_rules L) path = Some (Inr rules)"
  by (auto simp: load_rules_def result_simps split: option.split)

lemma new_assigner_Inr [result_simps]:
  "new_assigner rules ttl = Inr a \<longleftrightarrow>
     validate rules = Inr () \<and> a = \<lparr>as_rule_set = rules, as_cache = [], as_cache_ttl = ttl\<rparr>"
  by (auto simp: new_assigner_def result_simps)

lemma compaction_ttl_exact:
  "compaction_ttl days = from_secs (unat days * 86400) \<longleftrightarrow> unat days * 86400 < 2 ^ 64"
proof -
  have "days * 24 * 60 * 60 = days * 86400" by simp
  then have "unat (days * 24 * 60 * 60) = unat days * 86400 mod 2 ^ 64"
    by (simp add: unat_word_ariths mult.commute)
  moreover have "from_secs a = from_secs b \<longleftrightarrow> a = b" for a b
    by (simp add: from_secs_def nanos_per_sec_def)
  moreover have "n mod 2 ^ 64 = n \<longleftrightarrow> n < 2 ^ 64" for n :: nat
    by (metis mod_less mod_less_divisor zero_less_numeral zero_less_power)
  ultimately show ?thesis by (simp only: compaction_ttl_def)
qed

lemma perform_Inr [result_simps]: "perform r err ev w = (Inr x, w') \<longleftrightarrow> r = Inr x \<and> w' = w @ [ev]"
  by (auto simp: perform_def split: sum.split)

lemma perform_Inl [result_simps]: "perform r err ev w = (Inl e, w') \<longleftrightarrow> w' = w \<and> (\<exists>x. r = Inl x \<and> e = err x)"
  by (auto simp: perform_def split: sum.split)

lemma emit_run [simp]: "emit ev w = (Inr (), w @ [ev])"
  by (simp add: emit_def)

lemma startup_Inr:
  assumes "startup E L config [] = (Inr r, w)"
  shows "w = startup_events config \<and> validated E L config (as_rule_set (rn_assigner r)) (rn_oplog r) \<and>
    as_cache (rn_assigner r) = [] \<and> rn_cdc r = cdc_consumer config \<and>
    server_bind (sl_tcp_bind L) (socket_addr (sc_host (cf_server config)) (sc_port (cf_server config)))
      (gateway_config_of config) = Inr (rn_gateway r) \<and>
    rn_jwt_validator r = new_jwt_validator (jwt_config_of (cf_auth config)) \<and>
    hs_wal_replication_active (rn_health r)"
  using assms by (auto simp: startup_def Let_def result_simps startup_events_def validated_def)

lemma startup_Inl:
  assumes "startup E L config [] = (Inl e, w)"
  shows "strict_prefix w (startup_events config) \<and>
    (Listening a \<in> set w \<longrightarrow> (\<exists>rule_set oplog. validated E L config rule_set oplog))"
  using assms
  by (auto simp: startup_def Let_def result_simps startup_events_def validated_def strict_prefix_def)

text \<open>C22: clients are served only under validated rules. The effects of a startup are always a prefix of
  one fixed sequence, the whole of it exactly when the startup succeeds; a socket is
  listening only if the rule file was parsed, every rule passed validation and the op log
  was opened, in that order before it; and a server that started has the limit and the authentication of
  its configuration, an empty assignment cache over those rules, and answers ready.\<close>

theorem startup_serves_validated_rules:
  assumes "startup E L config [] = (res, w)"
  shows "prefix w (startup_events config) \<and> ((\<exists>r. res = Inr r) \<longleftrightarrow> w = startup_events config) \<and>
    (Listening a \<in> set w \<longrightarrow> (\<exists>rule_set oplog. validated E L config rule_set oplog)) \<and>
    (\<forall>r. res = Inr r \<longrightarrow>
       validated E L config (as_rule_set (rn_assigner r)) (rn_oplog r) \<and> as_cache (rn_assigner r) = [] \<and>
       gc_max_connections (gs_config (rn_gateway r)) = sc_max_connections (cf_server config) \<and>
       jv_config (rn_jwt_validator r) = jwt_config_of (cf_auth config) \<and>
       hr_status (ready (rn_health r)) = 200)"
proof (cases res)
  case (Inl e)
  with assms startup_Inl [of E L config e w a] show ?thesis by (auto simp: strict_prefix_def)
next
  case (Inr r)
  with assms have "startup E L config [] = (Inr r, w)" by simp
  note started = startup_Inr [OF this]
  then have "gs_config (rn_gateway r) = gateway_config_of config"
    by (elim conjE, simp only: server_bind_def result_simps) (elim exE conjE, drule sym, simp)
  with started show ?thesis
    by (auto simp: Inr gateway_config_of_def new_jwt_validator_def ready_def)
qed

subsection \<open>The drain\<close>

lemma drain_connections_returns:
  assumes wake: "\<And>t. t + drain_interval \<le> wake t" "\<And>t. wake t \<le> t + drain_interval + late"
    and "deadline \<le> now + n * drain_interval"
  shows "\<exists>now' k. drain_connections conns wake deadline now slept = Some (now', slept + k) \<and> k \<le> n \<and>
    now \<le> now' \<and> (conns now' = 0 \<or> deadline \<le> now') \<and> now' \<le> max now (deadline + drain_interval + late)"
  using assms(3)
proof (induction n arbitrary: now slept)
  case 0
  then show ?case by (subst drain_connections.simps) auto
next
  case (Suc n)
  show ?case
  proof (cases "conns now > 0 \<and> now < deadline")
    case False
    then show ?thesis by (subst drain_connections.simps) auto
  next
    case True
    have "deadline \<le> wake now + n * drain_interval" using Suc.prems wake(1) [of now] by simp
    from Suc.IH [OF this, of "slept + 1"] obtain now' k where
      rest: "drain_connections conns wake deadline (wake now) (slept + 1) = Some (now', slept + 1 + k)"
      and bounds: "k \<le> n" "wake now \<le> now'" "conns now' = 0 \<or> deadline \<le> now'"
        "now' \<le> max (wake now) (deadline + drain_interval + late)" by blast
    have "drain_connections conns wake deadline now slept = Some (now', slept + Suc k)"
      using rest True by (subst drain_connections.simps) simp
    moreover have "wake now \<le> deadline + drain_interval + late" using wake(2) [of now] True by simp
    ultimately show ?thesis using bounds wake(1) [of now] by (intro exI [of _ now'] exI [of _ "Suc k"]) auto
  qed
qed

text \<open>C28: the server process ends. If a sleep of 100 ms returns no earlier than that and at most
  \<open>late\<close> later, \<^verbatim>\<open>run\<close> returns after the signal whatever the connections do: after at most 300
  sleeps, within the 30 s of the drain and one sleep; before the deadline only when the
  counter has reached zero; and it then aborts exactly the tasks it spawned. \<close>

theorem server_run_ends:
  fixes E :: "('db, 'wt, 'rt) log_env"
  assumes "\<And>t. t + drain_interval \<le> wake t" and "\<And>t. wake t \<le> t + drain_interval + late"
  shows "\<exists>(res :: startup_error + ('db, 'key) running \<times> drain_report) w. server_run E L conns wake signalled config [] = Some (res, w) \<and>
    (case res of
       Inl e \<Rightarrow> True
     | Inr (r, d) \<Rightarrow>
         dr_sleeps d \<le> 300 \<and> dr_finished d \<le> signalled + SHUTDOWN_DRAIN_TIMEOUT + drain_interval + late \<and>
         (dr_remaining d > 0 \<longrightarrow> signalled + SHUTDOWN_DRAIN_TIMEOUT \<le> dr_finished d) \<and>
         (\<forall>t. TaskSpawned t \<in> set w \<longleftrightarrow> TaskAborted t \<in> set w))"
proof -
  obtain res :: "startup_error + ('db, 'key) running" and w where start: "startup E L config [] = (res, w)" by (rule prod.exhaust)
  have "signalled + SHUTDOWN_DRAIN_TIMEOUT \<le> signalled + 300 * drain_interval"
    by (simp add: SHUTDOWN_DRAIN_TIMEOUT_def drain_interval_def from_secs_def nanos_per_sec_def)
  from drain_connections_returns [OF assms this, of conns 0] obtain now k where
    drain: "drain_connections conns wake (signalled + SHUTDOWN_DRAIN_TIMEOUT) signalled 0 = Some (now, k)"
    and k: "k \<le> 300" "conns now = 0 \<or> signalled + SHUTDOWN_DRAIN_TIMEOUT \<le> now"
      "now \<le> signalled + SHUTDOWN_DRAIN_TIMEOUT + drain_interval + late" by auto
  show ?thesis
  proof (cases "\<exists>r x. res = Inr r \<and> sl_signal L = Inr x")
    case False
    then show ?thesis by (cases res; cases "sl_signal L") (auto simp: server_run_def start)
  next
    case True
    then obtain r x where r: "res = Inr r" "sl_signal L = Inr x" by blast
    from startup_Inr [OF start [unfolded r]] have w: "w = startup_events config" "rn_cdc r = cdc_consumer config"
      by simp_all
    show ?thesis using k by (auto simp: server_run_def start r drain w startup_events_def)
  qed
qed

text \<open>A clean exit leaves no connection behind. When the drain ends with a counter of zero, no
  task of the gateway has a connection open: the only ones left, if any, are accepted sockets
  whose task has not run yet.\<close>

theorem clean_exit_no_open_connection:
  assumes "server_run E L (\<lambda>t. gs_connection_count (g t)) wake signalled config [] = Some (Inr (r, d), w)"
    and "\<And>t. server_step\<^sup>*\<^sup>* (rn_gateway r) (g t)" and "dr_remaining d = 0"
  shows "\<forall>task \<in> set (gs_tasks (g (dr_finished d))). task = Spawned"
proof -
  from assms(1) obtain w' where "startup E L config [] = (Inr r, w')"
    and "dr_remaining d = gs_connection_count (g (dr_finished d))"
    by (auto simp: server_run_def split: prod.splits sum.splits option.splits)
  with startup_Inr have "server_inv (gc_max_connections (gateway_config_of config)) (g (dr_finished d))"
    and zero: "gs_connection_count (g (dr_finished d)) = 0"
    using server_inv_reachable assms(2, 3) by (blast, simp)
  then have "counted (g (dr_finished d)) = 0" by (simp add: server_inv_def)
  then show ?thesis by (auto simp: counted_def filter_empty_conv)
qed

subsection \<open>A sample server\<close>

definition sample_config :: config where
  "sample_config =
     \<lparr>cf_server = \<lparr>sc_host = ''0.0.0.0'', sc_port = 8080, sc_max_connections = 2\<rparr>,
      cf_postgres = \<lparr>pc_url = ''postgres://db'', pc_max_pool_size = 10\<rparr>, cf_auth = Hmac ''s'',
      cf_sync_rules_path = ''rules.toml'', cf_metrics_port = 9090,
      cf_oplog = \<lparr>oc_compaction_ttl_days = 7, oc_data_dir = ''data''\<rparr>\<rparr>"

definition sample_lib :: "mem_db server_lib" where
  "sample_lib =
     \<lparr>sl_connect = (\<lambda>_ _. Inr ()), sl_read_rules = (\<lambda>_. Inr ''''),
      sl_parse_rules = (\<lambda>_. Inr \<lparr>td_version = None, td_buckets = None\<rparr>), sl_create_dir_all = (\<lambda>_. Inr ()),
      sl_database_create = (\<lambda>_. Inr mem_empty), sl_tcp_bind = (\<lambda>_. Inr ()), sl_sigterm = Inr (),
      sl_wakeup = SigtermReceived\<rparr>"

definition sample_running :: "(mem_db, unit) running" where
  "sample_running =
     \<lparr>rn_assigner = \<lparr>as_rule_set = \<lparr>rs_version = ''1'', rs_rules = []\<rparr>, as_cache = [], as_cache_ttl = from_secs 3600\<rparr>,
      rn_oplog = \<lparr>ol_db = mem_empty, ol_compaction_ttl = compaction_ttl 7\<rparr>,
      rn_jwt_validator = new_jwt_validator (HmacSha256 ''s''), rn_broker = new_broker,
      rn_gateway = \<lparr>gs_config = gateway_config_of sample_config, gs_connection_count = 0, gs_loop = Accepting,
                    gs_shutdown = False, gs_tasks = [], gs_peak = 0\<rparr>,
      rn_health = \<lparr>hs_connection_count = 0, hs_router_metrics = new_metrics, hs_wal_replication_active = True,
                   hs_lag_ms = 0\<rparr>,
      rn_cdc = cdc_consumer sample_config\<rparr>"

lemma sample_startup:
  "startup mem_env sample_lib sample_config [] = (Inr sample_running, startup_events sample_config)"
  by (simp add: startup_def Let_def result_simps sample_lib_def sample_running_def startup_events_def
      sample_config_def load_rules_def parse_sync_rules_def parse_sync_rules_str_def fill_document_def
      or_default_def default_version_def validate_def open_log_def from_database_def mem_env_def server_bind_def)

theorem startup_serves_validated_rules_witness:
  "hr_status (ready (rn_health sample_running)) = 200 \<and>
   (\<exists>rule_set oplog. validated mem_env sample_lib sample_config rule_set oplog)"
  using startup_serves_validated_rules [OF sample_startup, of "''0.0.0.0:8080''"] by blast

theorem server_run_ends_witness:
  "\<exists>(res :: startup_error + (mem_db, unit) running \<times> drain_report) w.
     server_run mem_env sample_lib (\<lambda>t. 1) (\<lambda>t. t + drain_interval) 0 sample_config [] = Some (res, w)"
  using server_run_ends [where wake = "\<lambda>t. t + drain_interval" and late = 0 and E = mem_env and L = sample_lib
      and conns = "\<lambda>t. 1" and signalled = 0 and config = sample_config] by auto

theorem clean_exit_no_open_connection_witness:
  "filter (\<lambda>task. task \<noteq> Spawned) (gs_tasks (on_accept (rn_gateway sample_running))) = []"
proof -
  let ?g = "on_accept (rn_gateway sample_running)"
  have accepted: "server_step\<^sup>*\<^sup>* (rn_gateway sample_running) ?g"
    by (rule r_into_rtranclp, rule server_step.accepted) (simp add: sample_running_def)
  have "gs_connection_count ?g = 0" by (simp add: on_accept_def sample_running_def)
  then have "server_run mem_env sample_lib (\<lambda>t. gs_connection_count ?g) id 0 sample_config [] =
    Some (Inr (sample_running, \<lparr>dr_remaining = 0, dr_finished = 0, dr_sleeps = 0\<rparr>),
          startup_events sample_config @ [GatewayCancelled, CdcShutdownSent] @
          map TaskAborted [HealthTask, GatewayTask, RouterTask, rn_cdc sample_running])"
    by (subst server_run_def, subst drain_connections.simps)
      (simp add: sample_startup, simp add: sample_lib_def sl_signal_def wait_for_sigterm_def)
  from clean_exit_no_open_connection [OF this accepted] show ?thesis by (simp add: filter_empty_conv)
qed

end
