(* ===== verification/Client_Timing.thy ===== *)
theory Client_Timing
  imports Complex_Main PES_Prelude
begin

section \<open>Reconnect delays and token refresh (\<^verbatim>\<open>entity-sync-core: reconnect.ts, jwt.ts\<close>)\<close>

text \<open>
  The two timing modules of the browser client. JavaScript numbers are exact rationals here:
  every number these modules compute with is an integer far below $2^{53}$ or a
  fraction of one, and the rounding of a double in between is not modelled. A binary string is a string of
  8-bit characters, as \<^verbatim>\<open>atob\<close> returns it. Decoding UTF-8 and parsing JSON, which the source does in one
  \<^verbatim>\<open>try\<close> block, is the parameter \<open>parse_json\<close>. A scheduled timer is described by
  its delay.
\<close>

subsection \<open>Exponential backoff\<close>

definition INITIAL_DELAY_MS :: rat where
  "INITIAL_DELAY_MS = 1000"

definition MAX_DELAY_MS :: rat where
  "MAX_DELAY_MS = 30000"

definition JITTER_RATIO :: rat where
  "JITTER_RATIO = 1 / 5"

text \<open>\<^verbatim>\<open>Math.round\<close> rounds halves up.\<close>

definition math_round :: "rat \<Rightarrow> int" where
  "math_round x = \<lfloor>x + 1 / 2\<rfloor>"

definition capped_delay :: "nat \<Rightarrow> rat" where
  "capped_delay attempt = min (INITIAL_DELAY_MS * 2 ^ (attempt - 1)) MAX_DELAY_MS"

definition backoffDelayMs :: "nat \<Rightarrow> rat \<Rightarrow> int" where
  "backoffDelayMs attempt random =
     (let capped = capped_delay attempt;
          jitterSpan = capped * JITTER_RATIO;
          jitter = (random * 2 - 1) * jitterSpan in
      max 0 (math_round (capped + jitter)))"

text \<open>\<^verbatim>\<open>ReconnectScheduler\<close>: its attempt counter and the handle of the timer it set last.\<close>

record 'timer reconnect_scheduler =
  rs_attempt :: nat
  rs_timer :: "'timer option"

definition new_scheduler :: "'timer reconnect_scheduler" where
  "new_scheduler = \<lparr>rs_attempt = 0, rs_timer = None\<rparr>"

text \<open>\<^verbatim>\<open>schedule\<close>, given the handle the runtime returns: the new scheduler and the delay asked for.\<close>

definition scheduler_schedule ::
  "rat \<Rightarrow> 'timer \<Rightarrow> 'timer reconnect_scheduler \<Rightarrow> 'timer reconnect_scheduler \<times> int" where
  "scheduler_schedule random handle r =
     (let attempt = rs_attempt r + 1 in
      (\<lparr>rs_attempt = attempt, rs_timer = Some handle\<rparr>, backoffDelayMs attempt random))"

definition scheduler_reset :: "'timer reconnect_scheduler \<Rightarrow> 'timer reconnect_scheduler" where
  "scheduler_reset r = r\<lparr>rs_attempt := 0\<rparr>"

text \<open>\<^verbatim>\<open>cancel\<close>: the new scheduler and the handle it clears.\<close>

definition scheduler_cancel ::
  "'timer reconnect_scheduler \<Rightarrow> 'timer reconnect_scheduler \<times> 'timer option" where
  "scheduler_cancel r = (r\<lparr>rs_timer := None\<rparr>, rs_timer r)"

lemma capped_delay_range:
  "1000 \<le> capped_delay n" "capped_delay n \<le> 30000"
proof -
  have "(1 :: rat) \<le> 2 ^ (n - 1)" by simp
  then show "1000 \<le> capped_delay n" "capped_delay n \<le> 30000"
    by (simp_all add: capped_delay_def INITIAL_DELAY_MS_def MAX_DELAY_MS_def)
qed

lemma capped_delay_fifth: "\<exists>k :: int. capped_delay n = of_int (5 * k)"
proof -
  have "capped_delay n = of_int (5 * (200 * 2 ^ (n - 1))) \<or> capped_delay n = of_int (5 * 6000)"
    by (simp add: capped_delay_def INITIAL_DELAY_MS_def MAX_DELAY_MS_def min_def)
  then show ?thesis by blast
qed

lemma capped_delay_reached: "6 \<le> n \<Longrightarrow> capped_delay n = 30000"
proof -
  assume "6 \<le> n"
  then have "(2 :: rat) ^ 5 \<le> 2 ^ (n - 1)" by (intro power_increasing) auto
  then show ?thesis by (simp add: capped_delay_def INITIAL_DELAY_MS_def MAX_DELAY_MS_def)
qed

lemma math_round_between:
  assumes "of_int a \<le> x" and "x \<le> of_int b"
  shows "a \<le> math_round x" and "math_round x \<le> b"
proof -
  show "a \<le> math_round x" using assms(1) by (simp add: math_round_def le_floor_iff)
  have "x + 1 / 2 < of_int (b + 1)" using assms(2) by simp
  then show "math_round x \<le> b" by (simp add: math_round_def floor_le_iff)
qed

lemma backoff_bounds:
  assumes "0 \<le> random" and "random < 1"
  shows "4 * capped_delay n \<le> 5 * of_int (backoffDelayMs n random) \<and>
    5 * of_int (backoffDelayMs n random) \<le> 6 * capped_delay n \<and>
    800 \<le> backoffDelayMs n random \<and> backoffDelayMs n random \<le> 36000 \<and>
    (6 \<le> n \<longrightarrow> 24000 \<le> backoffDelayMs n random)"
proof -
  obtain k where k: "capped_delay n = of_int (5 * k)" using capped_delay_fifth by blast
  have "of_int 1000 \<le> capped_delay n" "capped_delay n \<le> of_int 30000"
    using capped_delay_range [of n] by simp_all
  then have range: "1000 \<le> 5 * k" "5 * k \<le> 30000" unfolding k by (simp_all only: of_int_le_iff)
  let ?x = "capped_delay n + (random * 2 - 1) * (capped_delay n * JITTER_RATIO)"
  have x: "?x = of_int k * (4 + 2 * random)" by (simp add: k JITTER_RATIO_def algebra_simps)
  have pos: "(0 :: rat) \<le> of_int k" using range by simp
  have "of_int (4 * k) \<le> ?x" using mult_left_mono [OF _ pos, of 4 "4 + 2 * random"] assms(1) x by simp
  moreover have "?x \<le> of_int (6 * k)"
    using mult_left_mono [OF _ pos, of "4 + 2 * random" 6] assms(2) x by simp
  ultimately have band: "4 * k \<le> math_round ?x" "math_round ?x \<le> 6 * k" by (rule math_round_between)+
  have delay: "backoffDelayMs n random = math_round ?x"
    using band range by (simp add: backoffDelayMs_def Let_def)
  have "of_int (4 * (5 * k)) \<le> (of_int (5 * math_round ?x) :: rat)"
    "of_int (5 * math_round ?x) \<le> (of_int (6 * (5 * k)) :: rat)"
    using band by (simp_all only: of_int_le_iff)
  moreover have "5 * k = 30000" if "6 \<le> n"
  proof -
    have "of_int (5 * k) = (of_int 30000 :: rat)" using capped_delay_reached [OF that] k by simp
    then show ?thesis by (simp only: of_int_eq_iff)
  qed
  ultimately show ?thesis using band range by (auto simp: k delay)
qed

text \<open>The reconnect delay stays in its band. For every attempt and every value of the random source
  the delay lies within 20 percent of the capped exponential delay, that is 1 s doubled per attempt up to
  30 s, so it is never below 0.8 s nor above 36 s, and from the sixth attempt on never below 24 s.\<close>

theorem backoff_in_band:
  assumes "0 \<le> random" and "random < 1"
  shows "4 * capped_delay n \<le> 5 * of_int (backoffDelayMs n random) \<and>
    5 * of_int (backoffDelayMs n random) \<le> 6 * capped_delay n \<and>
    800 \<le> backoffDelayMs n random \<and> backoffDelayMs n random \<le> 36000 \<and>
    (6 \<le> n \<longrightarrow> 24000 \<le> backoffDelayMs n random)"
  using assms by (rule backoff_bounds)

theorem backoff_in_band_witness:
  "4 * capped_delay 3 \<le> 5 * of_int (backoffDelayMs 3 (1 / 2))"
  using backoff_in_band [of "1 / 2" 3] by simp

subsection \<open>Reading the expiry of a token\<close>

datatype js_value =
    JsNull
  | JsBool bool
  | JsNumber rat
  | JsString string
  | JsArray "js_value list"
  | JsObject "(string \<times> js_value) list"

definition REFRESH_LEAD_MS :: rat where
  "REFRESH_LEAD_MS = 60000"

text \<open>\<^verbatim>\<open>String.prototype.split\<close> with a one-character separator.\<close>

fun split_on :: "char \<Rightarrow> string \<Rightarrow> string list" where
  "split_on sep [] = [[]]"
| "split_on sep (c # s) =
     (if c = sep then [] # split_on sep s
      else case split_on sep s of [] \<Rightarrow> [[c]] | p # ps \<Rightarrow> (c # p) # ps)"

text \<open>\<^verbatim>\<open>atob\<close>: white space is dropped, up to two padding characters are dropped from a multiple of
  four, and the rest must be in the alphabet and not leave a single sextet over.\<close>

definition sextet :: "char \<Rightarrow> nat option" where
  "sextet c =
     (let n = of_char c :: nat in
      if 65 \<le> n \<and> n \<le> 90 then Some (n - 65)
      else if 97 \<le> n \<and> n \<le> 122 then Some (n - 71)
      else if 48 \<le> n \<and> n \<le> 57 then Some (n + 4)
      else if c = CHR ''+'' then Some 62
      else if c = CHR ''/'' then Some 63
      else None)"

fun unpack_sextets :: "nat list \<Rightarrow> string" where
  "unpack_sextets (a # b # c # d # rest) =
     char_of (a * 4 + b div 16) # char_of ((b mod 16) * 16 + c div 4) # char_of ((c mod 4) * 64 + d) #
     unpack_sextets rest"
| "unpack_sextets [a, b, c] = [char_of (a * 4 + b div 16), char_of ((b mod 16) * 16 + c div 4)]"
| "unpack_sextets [a, b] = [char_of (a * 4 + b div 16)]"
| "unpack_sextets [a] = []"
| "unpack_sextets [] = []"

definition drop_padding :: "string \<Rightarrow> string" where
  "drop_padding s =
     (if length s mod 4 \<noteq> 0 then s
      else take (length s - min 2 (length (takeWhile (\<lambda>c. c = CHR ''='') (rev s)))) s)"

definition ascii_whitespace :: "char \<Rightarrow> bool" where
  "ascii_whitespace c \<longleftrightarrow> c \<in> {CHR 9, CHR 10, CHR 12, CHR 13, CHR 32}"

definition atob :: "string \<Rightarrow> string option" where
  "atob s =
     (let s = drop_padding (filter (\<lambda>c. \<not> ascii_whitespace c) s) in
      if length s mod 4 = 1 \<or> \<not> list_all (\<lambda>c. sextet c \<noteq> None) s then None
      else Some (unpack_sextets (map (the \<circ> sextet) s)))"

definition pad_end :: "nat \<Rightarrow> char \<Rightarrow> string \<Rightarrow> string" where
  "pad_end n c s = s @ replicate (n - length s) c"

definition base64UrlDecode :: "string \<Rightarrow> string option" where
  "base64UrlDecode segment =
     (let base64 = map (\<lambda>c. if c = CHR ''-'' then CHR ''+'' else if c = CHR ''_'' then CHR ''/'' else c) segment;
          padded = pad_end (length base64 + (4 - length base64 mod 4) mod 4) (CHR ''='') base64 in
      atob padded)"

fun exp_claim :: "js_value \<Rightarrow> rat option" where
  "exp_claim (JsObject ms) = (case map_of ms ''exp'' of Some (JsNumber n) \<Rightarrow> Some n | _ \<Rightarrow> None)"
| "exp_claim _ = None"

definition decodeJwtExpiry :: "(string \<Rightarrow> js_value option) \<Rightarrow> string \<Rightarrow> rat option" where
  "decodeJwtExpiry parse_json token =
     (case split_on (CHR ''.'') token of
        [_, payload, _] \<Rightarrow> Option.bind (base64UrlDecode payload) (\<lambda>bytes. Option.bind (parse_json bytes) exp_claim)
      | _ \<Rightarrow> None)"

text \<open>\<^verbatim>\<open>scheduleJwtRefresh\<close>: the delay of the timer it sets, or nothing.\<close>

definition scheduleJwtRefresh :: "(string \<Rightarrow> js_value option) \<Rightarrow> string \<Rightarrow> rat \<Rightarrow> rat option" where
  "scheduleJwtRefresh parse_json token nowMs =
     (case decodeJwtExpiry parse_json token of
        None \<Rightarrow> None
      | Some expSeconds \<Rightarrow>
          (let expMs = expSeconds * 1000;
               refreshAtMs = expMs - REFRESH_LEAD_MS;
               delay = refreshAtMs - nowMs in
           if delay \<le> 0 then None else Some delay))"

text \<open>The reference encoder, base64 with the URL alphabet and no padding, as tokens are written.\<close>

fun pack_sextets :: "string \<Rightarrow> nat list" where
  "pack_sextets (x # y # z # rest) =
     (let a = of_char x; b = of_char y; c = of_char z in
      (a div 4) # ((a mod 4) * 16 + b div 16) # ((b mod 16) * 4 + c div 64) # (c mod 64) # pack_sextets rest)"
| "pack_sextets [x, y] =
     (let a = of_char x; b = of_char y in [a div 4, (a mod 4) * 16 + b div 16, (b mod 16) * 4])"
| "pack_sextets [x] = (let a = of_char x in [a div 4, (a mod 4) * 16])"
| "pack_sextets [] = []"

definition url_sextet_char :: "nat \<Rightarrow> char" where
  "url_sextet_char n =
     (if n < 26 then char_of (n + 65) else if n < 52 then char_of (n + 71)
      else if n < 62 then char_of (n - 4) else if n = 62 then CHR ''-'' else CHR ''_'')"

definition base64url :: "string \<Rightarrow> string" where
  "base64url s = map url_sextet_char (pack_sextets s)"

lemma sextets_lt:
  fixes a b c :: nat
  shows "a < 256 \<Longrightarrow> a div 4 < 64" and "(a mod 4) * 16 < 64" and "(b mod 16) * 4 < 64"
    and "b < 256 \<Longrightarrow> (a mod 4) * 16 + b div 16 < 64" and "c < 256 \<Longrightarrow> (b mod 16) * 4 + c div 64 < 64"
proof -
  have "a mod 4 < 4" "b mod 16 < 16" by simp_all
  moreover have "b < 256 \<Longrightarrow> b div 16 < 16" "c < 256 \<Longrightarrow> c div 64 < 4" "a < 256 \<Longrightarrow> a div 4 < 64" by auto
  ultimately show "(a mod 4) * 16 < 64" "(b mod 16) * 4 < 64" "a < 256 \<Longrightarrow> a div 4 < 64"
    "b < 256 \<Longrightarrow> (a mod 4) * 16 + b div 16 < 64" "c < 256 \<Longrightarrow> (b mod 16) * 4 + c div 64 < 64"
    by linarith+
qed

lemma octets_of_sextets:
  fixes a b c :: nat
  shows "b < 256 \<Longrightarrow> a div 4 * 4 + ((a mod 4) * 16 + b div 16) div 16 = a"
    and "b < 256 \<Longrightarrow> c < 256 \<Longrightarrow>
      ((a mod 4) * 16 + b div 16) mod 16 * 16 + ((b mod 16) * 4 + c div 64) div 4 = b"
    and "c < 256 \<Longrightarrow> ((b mod 16) * 4 + c div 64) mod 4 * 64 + c mod 64 = c"
    and "a div 4 * 4 + (a mod 4) * 16 div 16 = a"
    and "b < 256 \<Longrightarrow> ((a mod 4) * 16 + b div 16) mod 16 * 16 + (b mod 16) * 4 div 4 = b"
proof -
  have q: "b < 256 \<Longrightarrow> ((a mod 4) * 16 + b div 16) div 16 = a mod 4"
    "b < 256 \<Longrightarrow> ((a mod 4) * 16 + b div 16) mod 16 = b div 16"
    "c < 256 \<Longrightarrow> ((b mod 16) * 4 + c div 64) div 4 = b mod 16"
    "c < 256 \<Longrightarrow> ((b mod 16) * 4 + c div 64) mod 4 = c div 64"
    by simp_all
  show "b < 256 \<Longrightarrow> a div 4 * 4 + ((a mod 4) * 16 + b div 16) div 16 = a"
    "b < 256 \<Longrightarrow> c < 256 \<Longrightarrow>
      ((a mod 4) * 16 + b div 16) mod 16 * 16 + ((b mod 16) * 4 + c div 64) div 4 = b"
    "c < 256 \<Longrightarrow> ((b mod 16) * 4 + c div 64) mod 4 * 64 + c mod 64 = c"
    "a div 4 * 4 + (a mod 4) * 16 div 16 = a"
    "b < 256 \<Longrightarrow> ((a mod 4) * 16 + b div 16) mod 16 * 16 + (b mod 16) * 4 div 4 = b"
    by (simp_all add: q)
qed

lemma pack_sextets_range: "n \<in> set (pack_sextets s) \<Longrightarrow> n < 64"
  by (induction s rule: pack_sextets.induct)
    (auto simp: Let_def sextets_lt of_char_lt)

lemma unpack_pack: "unpack_sextets (pack_sextets s) = s"
  by (induction s rule: pack_sextets.induct)
    (simp_all only: pack_sextets.simps unpack_sextets.simps Let_def octets_of_sextets of_char_lt char_of_char)

lemma length_pack_sextets: "length (pack_sextets s) mod 4 \<noteq> 1"
  by (induction s rule: pack_sextets.induct) (auto simp: Let_def)

definition std_char :: "char \<Rightarrow> char" where
  "std_char c = (if c = CHR ''-'' then CHR ''+'' else if c = CHR ''_'' then CHR ''/'' else c)"

lemma char_of_neq: "m < 256 \<Longrightarrow> m \<noteq> of_char d \<Longrightarrow> char_of m \<noteq> d" for m :: nat
  by auto

lemma alphabet_char:
  fixes m :: nat
  assumes "m < 256" and "m \<notin> {9, 10, 12, 13, 32, 45, 46, 61, 95}"
  shows "std_char (char_of m) = char_of m" "\<not> ascii_whitespace (char_of m)" "char_of m \<noteq> CHR ''=''"
    "char_of m \<noteq> CHR ''.''"
  using assms
  by (simp_all add: std_char_def ascii_whitespace_def char_of_neq)

lemma std_sextet:
  assumes "n < 64"
  shows "sextet (std_char (url_sextet_char n)) = Some n \<and>
    \<not> ascii_whitespace (std_char (url_sextet_char n)) \<and> std_char (url_sextet_char n) \<noteq> CHR ''='' \<and>
    url_sextet_char n \<noteq> CHR ''.''"
proof -
  consider "n < 26" | "26 \<le> n" "n < 52" | "52 \<le> n" "n < 62" | "n = 62" | "n = 63" using assms by linarith
  then show ?thesis
  proof cases
    case 1
    then show ?thesis by (simp add: url_sextet_char_def alphabet_char sextet_def Let_def)
  next
    case 2
    then show ?thesis by (simp add: url_sextet_char_def alphabet_char sextet_def Let_def)
  next
    case 3
    define m where "m = n - 4"
    with 3 have "n = m + 4" "48 \<le> m" "m \<le> 57" by linarith+
    then show ?thesis by (simp add: url_sextet_char_def alphabet_char sextet_def Let_def)
  qed (simp_all add: url_sextet_char_def std_char_def sextet_def Let_def ascii_whitespace_def)
qed

lemma drop_padding_pad:
  assumes "CHR ''='' \<notin> set e" and "k \<le> 2" and "(length e + k) mod 4 = 0"
  shows "drop_padding (e @ replicate k (CHR ''='')) = e"
proof -
  have "takeWhile (\<lambda>c. c = CHR ''='') (rev e) = []"
    using assms(1) by (cases e rule: rev_cases) auto
  moreover have "takeWhile (\<lambda>c. c = CHR ''='') (replicate k (CHR ''='') @ rev e) =
      replicate k (CHR ''='') @ takeWhile (\<lambda>c. c = CHR ''='') (rev e)"
    by (rule takeWhile_append2) simp
  ultimately have "length (takeWhile (\<lambda>c. c = CHR ''='') (rev (e @ replicate k (CHR ''='')))) = k" by simp
  with assms(2, 3) show ?thesis by (simp add: drop_padding_def)
qed

lemma padding_length: "n mod 4 \<noteq> 1 \<Longrightarrow> (4 - n mod 4) mod 4 \<le> 2 \<and> (n + (4 - n mod 4) mod 4) mod 4 = (0 :: nat)"
proof -
  assume "n mod 4 \<noteq> 1"
  moreover have "n mod 4 < 4" by simp
  ultimately consider "n mod 4 = 0" | "n mod 4 = 2" | "n mod 4 = 3" by linarith
  then show ?thesis
  proof cases
    case 1
    then show ?thesis by simp
  next
    case 2
    then have "(n + 2) mod 4 = 0" by presburger
    with 2 show ?thesis by simp
  next
    case 3
    then have "(n + 1) mod 4 = 0" by presburger
    with 3 show ?thesis by simp
  qed
qed

lemma base64UrlDecode_base64url: "base64UrlDecode (base64url s) = Some s"
proof -
  define e where "e = map (\<lambda>n. std_char (url_sextet_char n)) (pack_sextets s)"
  define k where "k = (4 - length e mod 4) mod 4"
  have sextets: "n < 64" if "n \<in> set (pack_sextets s)" for n using that by (rule pack_sextets_range)
  have "c \<noteq> CHR ''='' \<and> \<not> ascii_whitespace c \<and> sextet c \<noteq> None" if "c \<in> set e" for c
    using that std_sextet [OF sextets] by (auto simp: e_def)
  then have clean: "CHR ''='' \<notin> set e" "filter (\<lambda>c. \<not> ascii_whitespace c) e = e"
    "list_all (\<lambda>c. sextet c \<noteq> None) e"
    by (auto simp: list_all_iff filter_id_conv)
  have sextets_e: "map (the \<circ> sextet) e = pack_sextets s"
    unfolding e_def map_map by (rule map_idI) (simp add: std_sextet [OF sextets])
  have "length e mod 4 \<noteq> 1" using length_pack_sextets [of s] by (simp add: e_def)
  note k = padding_length [OF this, folded k_def]
  have "drop_padding (filter (\<lambda>c. \<not> ascii_whitespace c) (e @ replicate k (CHR ''=''))) = e"
    using drop_padding_pad [OF clean(1)] k clean(2) by (simp add: ascii_whitespace_def)
  moreover have "base64UrlDecode (base64url s) = atob (e @ replicate k (CHR ''=''))"
    by (simp add: base64UrlDecode_def base64url_def pad_end_def Let_def e_def k_def std_char_def comp_def)
  ultimately show ?thesis
    using \<open>length e mod 4 \<noteq> 1\<close> clean(3) by (simp add: atob_def Let_def sextets_e unpack_pack)
qed

lemma split_on_plain: "sep \<notin> set s \<Longrightarrow> split_on sep s = [s]"
  by (induction s) auto

lemma split_on_append: "sep \<notin> set s \<Longrightarrow> split_on sep (s @ sep # t) = s # split_on sep t"
  by (induction s) auto

lemma base64url_no_dot: "CHR ''.'' \<notin> set (base64url s)"
  using std_sextet [OF pack_sextets_range] by (fastforce simp: base64url_def)



end
