(* ===== verification/Sync_Client.thy ===== *)
theory Sync_Client
  imports Client_Timing
begin

section \<open>The client of the sync protocol (\<^verbatim>\<open>entity-sync-core: messages.ts, codec.ts, client.ts\<close>)\<close>

text \<open>
  \<^verbatim>\<open>SyncClient\<close> with the part of the JavaScript runtime it uses: the sockets it has created, the
  timers that are pending and the promises of \<^verbatim>\<open>getToken\<close> it waits for. Code between two
  \<^verbatim>\<open>await\<close>s runs without interruption, so each event handler, timer callback, continuation and
  public method is one function on the state, and an execution is a sequence of such events in
  any order the runtime allows (\<open>client_trans\<close>). Callbacks of the application (\<^verbatim>\<open>onStatus\<close>, the handlers) are recorded in
  \<open>sc_log\<close>; that they do not call back into the client while it is calling them is an assumption of the model. Decoding MessagePack is the parameter \<open>ce_decode\<close>. An LSN is an
  integer-valued number; \<open>LsnOf n\<close> is the string \<^verbatim>\<open>String(n)\<close>, from which \<^verbatim>\<open>Number\<close> gets
  \<open>n\<close> back, and \<open>LsnGiven\<close> a string the application passed.
\<close>

subsection \<open>Messages\<close>

definition TS_PROTOCOL_VERSION :: nat where
  "TS_PROTOCOL_VERSION = 1"

datatype ts_op = TsUpsert js_value | TsDelete | TsCrdtPatch bytes | TsUnknownOp js_value

record ts_bucket_op =
  to_lsn :: nat
  to_bucket_id :: string
  to_entity_type :: string
  to_entity_id :: string
  to_op :: ts_op

datatype js_number = Num nat | NumberOf string

text \<open>\<open>TsOtherObject\<close> is an object with none of the tags, \<open>TsPrimitive\<close> a value on which \<^verbatim>\<open>in\<close> throws.\<close>

datatype ts_server_message =
    TsSnapshotBegin string nat nat
  | TsSnapshotBatch string "js_value list" nat
  | TsSnapshotComplete string nat
  | TsDelta string "ts_bucket_op list" nat
  | TsCheckpoint nat "(string \<times> nat) list"
  | TsKeepalive nat
  | TsError nat string
  | TsOtherObject
  | TsPrimitive

datatype ts_client_message =
    TsSubscribe "string list" string "js_number option" nat
  | TsAck nat
  | TsWrite string string ts_op
  | TsPing

subsection \<open>State\<close>

datatype lsn_text = LsnOf nat | LsnGiven string

fun js_Number :: "lsn_text \<Rightarrow> js_number" where
  "js_Number (LsnOf n) = Num n"
| "js_Number (LsnGiven s) = NumberOf s"

datatype sync_status =
    ConnectingStatus
  | SyncingStatus lsn_text
  | LiveStatus lsn_text
  | ErrorStatus string
  | DisconnectedStatus

record delta =
  de_bucket_id :: string
  de_ops :: "ts_bucket_op list"
  de_lsn :: lsn_text

record ts_snapshot_batch =
  ts_bucket_id :: string
  ts_rows :: "js_value list"
  ts_offset :: nat

datatype ready_state = CONNECTING | OPEN | CLOSING | CLOSED

record socket =
  sk_ready :: ready_state
  sk_token :: string
  sk_frames :: "ts_client_message list"

datatype timer_callback = ReconnectTimer | RefreshTimer

datatype awaiting = AwaitConnect | AwaitSubscribe | AwaitRefresh

datatype client_output =
    StatusCallback sync_status
  | DeltaCallback nat delta
  | SnapshotCallback nat ts_snapshot_batch
  | AskToken

record sync_client =
  sc_ws :: "nat option"
  sc_delta_handlers :: "nat list"
  sc_snapshot_handlers :: "nat list"
  sc_scheduler :: "nat reconnect_scheduler"
  sc_refresh_timer :: "nat option"
  sc_subscribed :: "string list"
  sc_last_lsn :: "lsn_text option"
  sc_status :: sync_status
  sc_explicit :: bool
  sc_sockets :: "socket list"
  sc_timers :: "(nat \<times> timer_callback \<times> rat) list"
  sc_next_timer :: nat
  sc_awaiting :: "awaiting list"
  sc_log :: "client_output list"

record client_env =
  ce_parse_json :: "string \<Rightarrow> js_value option"
  ce_decode :: "bytes \<Rightarrow> string + ts_server_message"
  ce_url_ok :: bool
  ce_delta_throws :: "nat \<Rightarrow> delta \<Rightarrow> bool"
  ce_snapshot_throws :: "nat \<Rightarrow> ts_snapshot_batch \<Rightarrow> bool"

text \<open>What \<^verbatim>\<open>Date.now()\<close> and \<^verbatim>\<open>Math.random()\<close> return while an event is handled.\<close>

record tick =
  tk_now :: rat
  tk_random :: rat

definition new_client :: sync_client where
  "new_client =
     \<lparr>sc_ws = None, sc_delta_handlers = [], sc_snapshot_handlers = [], sc_scheduler = new_scheduler,
      sc_refresh_timer = None, sc_subscribed = [], sc_last_lsn = None, sc_status = DisconnectedStatus,
      sc_explicit = False, sc_sockets = [], sc_timers = [], sc_next_timer = 0, sc_awaiting = [], sc_log = []\<rparr>"

subsection \<open>Runtime\<close>

definition set_timeout :: "timer_callback \<Rightarrow> rat \<Rightarrow> sync_client \<Rightarrow> nat \<times> sync_client" where
  "set_timeout cb delay c =
     (sc_next_timer c,
      c\<lparr>sc_timers := sc_timers c @ [(sc_next_timer c, cb, delay)], sc_next_timer := sc_next_timer c + 1\<rparr>)"

definition clear_timeout :: "nat \<Rightarrow> sync_client \<Rightarrow> sync_client" where
  "clear_timeout i c = c\<lparr>sc_timers := filter (\<lambda>(j, _). j \<noteq> i) (sc_timers c)\<rparr>"

definition ask_token :: "awaiting \<Rightarrow> sync_client \<Rightarrow> sync_client" where
  "ask_token k c = c\<lparr>sc_awaiting := sc_awaiting c @ [k], sc_log := sc_log c @ [AskToken]\<rparr>"

definition update_socket :: "nat \<Rightarrow> (socket \<Rightarrow> socket) \<Rightarrow> sync_client \<Rightarrow> sync_client" where
  "update_socket i f c = c\<lparr>sc_sockets := (sc_sockets c)[i := f (sc_sockets c ! i)]\<rparr>"

definition ws_open :: "sync_client \<Rightarrow> bool" where
  "ws_open c = (case sc_ws c of None \<Rightarrow> False | Some i \<Rightarrow> sk_ready (sc_sockets c ! i) = OPEN)"

subsection \<open>Private methods\<close>

definition setStatus :: "sync_status \<Rightarrow> sync_client \<Rightarrow> sync_client" where
  "setStatus status c = c\<lparr>sc_status := status, sc_log := sc_log c @ [StatusCallback status]\<rparr>"

fun is_write :: "ts_client_message \<Rightarrow> bool" where
  "is_write (TsWrite _ _ _) = True"
| "is_write _ = False"

definition client_send :: "ts_client_message \<Rightarrow> sync_client \<Rightarrow> (string + unit) \<times> sync_client" where
  "client_send msg c =
     (if \<not> ws_open c then (if is_write msg then Inl ''cannot write: not connected'' else Inr (), c)
      else (Inr (), update_socket (the (sc_ws c)) (\<lambda>s. s\<lparr>sk_frames := sk_frames s @ [msg]\<rparr>) c))"

definition sendSubscribe :: "string \<Rightarrow> sync_client \<Rightarrow> sync_client" where
  "sendSubscribe token c =
     snd (client_send (TsSubscribe (sc_subscribed c) token (map_option js_Number (sc_last_lsn c)) TS_PROTOCOL_VERSION) c)"

definition clearRefreshTimer :: "sync_client \<Rightarrow> sync_client" where
  "clearRefreshTimer c =
     (case sc_refresh_timer c of
        None \<Rightarrow> c
      | Some i \<Rightarrow> (clear_timeout i c)\<lparr>sc_refresh_timer := None\<rparr>)"

definition scheduleTokenRefresh :: "client_env \<Rightarrow> tick \<Rightarrow> string \<Rightarrow> sync_client \<Rightarrow> sync_client" where
  "scheduleTokenRefresh E t token c =
     (let c = clearRefreshTimer c in
      case scheduleJwtRefresh (ce_parse_json E) token (tk_now t) of
        None \<Rightarrow> c\<lparr>sc_refresh_timer := None\<rparr>
      | Some delay \<Rightarrow> (case set_timeout RefreshTimer delay c of (i, c') \<Rightarrow> c'\<lparr>sc_refresh_timer := Some i\<rparr>))"

definition scheduleReconnect :: "tick \<Rightarrow> sync_client \<Rightarrow> sync_client" where
  "scheduleReconnect t c =
     (case scheduler_schedule (tk_random t) (sc_next_timer c) (sc_scheduler c) of
        (r, delay) \<Rightarrow> (snd (set_timeout ReconnectTimer (of_int delay) c))\<lparr>sc_scheduler := r\<rparr>)"

text \<open>\<^verbatim>\<open>connect\<close> up to its \<^verbatim>\<open>await\<close>, and from there on.\<close>

definition client_connect :: "sync_client \<Rightarrow> sync_client" where
  "client_connect c = ask_token AwaitConnect (setStatus ConnectingStatus (c\<lparr>sc_explicit := False\<rparr>))"

definition connect_continue :: "client_env \<Rightarrow> tick \<Rightarrow> string + string \<Rightarrow> sync_client \<Rightarrow> sync_client" where
  "connect_continue E t token c =
     (case token of
        Inl err \<Rightarrow> scheduleReconnect t (setStatus (ErrorStatus err) c)
      | Inr tok \<Rightarrow>
          if ce_url_ok E
          then c\<lparr>sc_sockets := sc_sockets c @ [\<lparr>sk_ready = CONNECTING, sk_token = tok, sk_frames = []\<rparr>],
                 sc_ws := Some (length (sc_sockets c))\<rparr>
          else c)"

definition subscribe_continue :: "string + string \<Rightarrow> sync_client \<Rightarrow> sync_client" where
  "subscribe_continue token c = (case token of Inl err \<Rightarrow> c | Inr tok \<Rightarrow> sendSubscribe tok c)"

definition refresh_continue :: "client_env \<Rightarrow> tick \<Rightarrow> string + string \<Rightarrow> sync_client \<Rightarrow> sync_client" where
  "refresh_continue E t token c =
     (case token of
        Inl err \<Rightarrow> setStatus (ErrorStatus err) c
      | Inr tok \<Rightarrow> scheduleTokenRefresh E t tok (sendSubscribe tok c))"

fun call_handlers :: "(nat \<Rightarrow> 'a \<Rightarrow> bool) \<Rightarrow> 'a \<Rightarrow> nat list \<Rightarrow> nat list \<times> bool" where
  "call_handlers throws x [] = ([], True)"
| "call_handlers throws x (h # hs) =
     (if throws h x then ([h], False)
      else case call_handlers throws x hs of (called, ok) \<Rightarrow> (h # called, ok))"

definition last_lsn_or_zero :: "sync_client \<Rightarrow> lsn_text" where
  "last_lsn_or_zero c = (case sc_last_lsn c of None \<Rightarrow> LsnGiven ''0'' | Some l \<Rightarrow> l)"

definition on_delta :: "client_env \<Rightarrow> string \<Rightarrow> ts_bucket_op list \<Rightarrow> nat \<Rightarrow> sync_client \<Rightarrow> sync_client" where
  "on_delta E bucket ops lsn c =
     (let c = setStatus (LiveStatus (LsnOf lsn)) (c\<lparr>sc_last_lsn := Some (LsnOf lsn)\<rparr>);
          d = \<lparr>de_bucket_id = bucket, de_ops = ops, de_lsn = LsnOf lsn\<rparr> in
      case call_handlers (ce_delta_throws E) d (sc_delta_handlers c) of
        (called, ok) \<Rightarrow>
          (let c = c\<lparr>sc_log := sc_log c @ map (\<lambda>h. DeltaCallback h d) called\<rparr> in
           if ok then snd (client_send (TsAck lsn) c) else c))"

definition on_snapshot_batch :: "client_env \<Rightarrow> string \<Rightarrow> js_value list \<Rightarrow> nat \<Rightarrow> sync_client \<Rightarrow> sync_client" where
  "on_snapshot_batch E bucket rows offset c =
     (let b = \<lparr>ts_bucket_id = bucket, ts_rows = rows, ts_offset = offset\<rparr> in
      c\<lparr>sc_log := sc_log c @
          map (\<lambda>h. SnapshotCallback h b) (fst (call_handlers (ce_snapshot_throws E) b (sc_snapshot_handlers c)))\<rparr>)"

definition handleMessage :: "client_env \<Rightarrow> bytes \<Rightarrow> sync_client \<Rightarrow> sync_client" where
  "handleMessage E data c =
     (case ce_decode E data of
        Inl err \<Rightarrow> c
      | Inr (TsSnapshotBegin _ _ _) \<Rightarrow> setStatus (SyncingStatus (last_lsn_or_zero c)) c
      | Inr (TsSnapshotBatch bucket rows offset) \<Rightarrow> on_snapshot_batch E bucket rows offset c
      | Inr (TsSnapshotComplete _ _) \<Rightarrow> setStatus (LiveStatus (last_lsn_or_zero c)) c
      | Inr (TsDelta bucket ops lsn) \<Rightarrow> on_delta E bucket ops lsn c
      | Inr (TsCheckpoint lsn _) \<Rightarrow> c\<lparr>sc_last_lsn := Some (LsnOf lsn)\<rparr>
      | Inr (TsKeepalive _) \<Rightarrow> c
      | Inr (TsError code message) \<Rightarrow>
          setStatus (ErrorStatus (''sync gateway error '' @ dec code @ '': '' @ message)) c
      | Inr TsOtherObject \<Rightarrow> c
      | Inr TsPrimitive \<Rightarrow> c)"

subsection \<open>Public methods\<close>

definition client_subscribe :: "string list \<Rightarrow> string option \<Rightarrow> sync_client \<Rightarrow> sync_client" where
  "client_subscribe buckets resumeLsn c =
     (let c = c\<lparr>sc_subscribed := buckets\<rparr>;
          c = (case resumeLsn of None \<Rightarrow> c | Some l \<Rightarrow> c\<lparr>sc_last_lsn := Some (LsnGiven l)\<rparr>) in
      if ws_open c then ask_token AwaitSubscribe c else client_connect c)"

definition onDelta :: "nat \<Rightarrow> sync_client \<Rightarrow> sync_client" where
  "onDelta h c = c\<lparr>sc_delta_handlers := (if h \<in> set (sc_delta_handlers c) then sc_delta_handlers c
                                        else sc_delta_handlers c @ [h])\<rparr>"

definition offDelta :: "nat \<Rightarrow> sync_client \<Rightarrow> sync_client" where
  "offDelta h c = c\<lparr>sc_delta_handlers := removeAll h (sc_delta_handlers c)\<rparr>"

definition onSnapshot :: "nat \<Rightarrow> sync_client \<Rightarrow> sync_client" where
  "onSnapshot h c = c\<lparr>sc_snapshot_handlers := (if h \<in> set (sc_snapshot_handlers c) then sc_snapshot_handlers c
                                              else sc_snapshot_handlers c @ [h])\<rparr>"

definition offSnapshot :: "nat \<Rightarrow> sync_client \<Rightarrow> sync_client" where
  "offSnapshot h c = c\<lparr>sc_snapshot_handlers := removeAll h (sc_snapshot_handlers c)\<rparr>"

definition client_write :: "string \<Rightarrow> string \<Rightarrow> ts_op \<Rightarrow> sync_client \<Rightarrow> (string + unit) \<times> sync_client" where
  "client_write entityType entityId op = client_send (TsWrite entityType entityId op)"

fun closed_by_client :: "socket \<Rightarrow> socket" where
  "closed_by_client s = (if sk_ready s = CLOSED then s else s\<lparr>sk_ready := CLOSING\<rparr>)"

definition client_disconnect :: "sync_client \<Rightarrow> sync_client" where
  "client_disconnect c =
     (let c = c\<lparr>sc_explicit := True\<rparr>;
          c = (case scheduler_cancel (sc_scheduler c) of
                 (r, timer) \<Rightarrow> (case timer of None \<Rightarrow> c | Some i \<Rightarrow> clear_timeout i c)\<lparr>sc_scheduler := r\<rparr>);
          c = clearRefreshTimer c;
          c = (case sc_ws c of None \<Rightarrow> c | Some i \<Rightarrow> update_socket i closed_by_client c) in
      setStatus DisconnectedStatus (c\<lparr>sc_ws := None\<rparr>))"

subsection \<open>Socket events\<close>

definition on_open :: "client_env \<Rightarrow> tick \<Rightarrow> nat \<Rightarrow> sync_client \<Rightarrow> sync_client" where
  "on_open E t i c =
     (let c = update_socket i (\<lambda>s. s\<lparr>sk_ready := OPEN\<rparr>) c;
          token = sk_token (sc_sockets c ! i) in
      scheduleTokenRefresh E t token (sendSubscribe token c))"

definition on_close :: "tick \<Rightarrow> nat \<Rightarrow> sync_client \<Rightarrow> sync_client" where
  "on_close t i c =
     (let c = clearRefreshTimer (update_socket i (\<lambda>s. s\<lparr>sk_ready := CLOSED\<rparr>) c) in
      if sc_explicit c then c else scheduleReconnect t (setStatus DisconnectedStatus c))"

definition on_error :: "sync_client \<Rightarrow> sync_client" where
  "on_error c = setStatus (ErrorStatus ''WebSocket error'') c"

subsection \<open>Executions\<close>

datatype client_event =
    ApiSubscribe "string list" "string option"
  | ApiOnDelta nat | ApiOffDelta nat | ApiOnSnapshot nat | ApiOffSnapshot nat
  | ApiWrite string string ts_op
  | ApiDisconnect
  | TokenSettled nat "string + string"
  | SocketOpened nat
  | SocketMessage nat bytes
  | SocketErrored nat
  | SocketClosed nat
  | TimerFired nat

fun api_event :: "client_event \<Rightarrow> bool" where
  "api_event (ApiSubscribe _ _) = True"
| "api_event (ApiOnDelta _) = True"
| "api_event (ApiOffDelta _) = True"
| "api_event (ApiOnSnapshot _) = True"
| "api_event (ApiOffSnapshot _) = True"
| "api_event (ApiWrite _ _ _) = True"
| "api_event ApiDisconnect = True"
| "api_event _ = False"

text \<open>The events the runtime can deliver next; a socket that is closing may still deliver what it had received.\<close>

fun enabled :: "sync_client \<Rightarrow> client_event \<Rightarrow> bool" where
  "enabled c (TokenSettled k _) \<longleftrightarrow> k < length (sc_awaiting c)"
| "enabled c (SocketOpened i) \<longleftrightarrow> i < length (sc_sockets c) \<and> sk_ready (sc_sockets c ! i) = CONNECTING"
| "enabled c (SocketMessage i _) \<longleftrightarrow>
     i < length (sc_sockets c) \<and> sk_ready (sc_sockets c ! i) \<in> {OPEN, CLOSING}"
| "enabled c (SocketErrored i) \<longleftrightarrow> i < length (sc_sockets c) \<and> sk_ready (sc_sockets c ! i) \<noteq> CLOSED"
| "enabled c (SocketClosed i) \<longleftrightarrow> i < length (sc_sockets c) \<and> sk_ready (sc_sockets c ! i) \<noteq> CLOSED"
| "enabled c (TimerFired i) \<longleftrightarrow> i \<in> fst ` set (sc_timers c)"
| "enabled c _ \<longleftrightarrow> True"

definition remove_nth :: "nat \<Rightarrow> 'a list \<Rightarrow> 'a list" where
  "remove_nth k xs = take k xs @ drop (Suc k) xs"

definition settle :: "client_env \<Rightarrow> tick \<Rightarrow> nat \<Rightarrow> string + string \<Rightarrow> sync_client \<Rightarrow> sync_client" where
  "settle E t k token c =
     (let c' = c\<lparr>sc_awaiting := remove_nth k (sc_awaiting c)\<rparr> in
      case sc_awaiting c ! k of
        AwaitConnect \<Rightarrow> connect_continue E t token c'
      | AwaitSubscribe \<Rightarrow> subscribe_continue token c'
      | AwaitRefresh \<Rightarrow> refresh_continue E t token c')"

definition fire :: "nat \<Rightarrow> sync_client \<Rightarrow> sync_client" where
  "fire i c =
     (case map_of (sc_timers c) i of
        None \<Rightarrow> c
      | Some (ReconnectTimer, _) \<Rightarrow> client_connect (clear_timeout i c)
      | Some (RefreshTimer, _) \<Rightarrow> ask_token AwaitRefresh (clear_timeout i c))"

fun client_step :: "client_env \<Rightarrow> tick \<Rightarrow> client_event \<Rightarrow> sync_client \<Rightarrow> sync_client" where
  "client_step E t (ApiSubscribe buckets resumeLsn) c = client_subscribe buckets resumeLsn c"
| "client_step E t (ApiOnDelta h) c = onDelta h c"
| "client_step E t (ApiOffDelta h) c = offDelta h c"
| "client_step E t (ApiOnSnapshot h) c = onSnapshot h c"
| "client_step E t (ApiOffSnapshot h) c = offSnapshot h c"
| "client_step E t (ApiWrite entityType entityId op) c = snd (client_write entityType entityId op c)"
| "client_step E t ApiDisconnect c = client_disconnect c"
| "client_step E t (TokenSettled k token) c = settle E t k token c"
| "client_step E t (SocketOpened i) c = on_open E t i c"
| "client_step E t (SocketMessage i data) c = handleMessage E data c"
| "client_step E t (SocketErrored i) c = on_error c"
| "client_step E t (SocketClosed i) c = on_close t i c"
| "client_step E t (TimerFired i) c = fire i c"

inductive client_trans :: "client_env \<Rightarrow> sync_client \<Rightarrow> sync_client \<Rightarrow> bool" for E where
  event: "enabled c ev \<Longrightarrow> 0 \<le> tk_random t \<Longrightarrow> tk_random t < 1 \<Longrightarrow> client_trans E c (client_step E t ev c)"

inductive_cases client_transE: "client_trans E c c'"

fun client_run :: "client_env \<Rightarrow> (tick \<times> client_event) list \<Rightarrow> sync_client \<Rightarrow> sync_client option" where
  "client_run E [] c = Some c"
| "client_run E ((t, ev) # evs) c = (if enabled c ev then client_run E evs (client_step E t ev c) else None)"

end
