(* ===== verification/Client_Properties.thy ===== *)
theory Client_Properties
  imports Sync_Client
begin

section \<open>Properties of the client\<close>

text \<open>
  Invariants over every execution of the client, the recovery after a lost connection, and
  what \<^verbatim>\<open>disconnect\<close> does and does not stop. Each operation changes few fields: the
  collection \<open>client_defs\<close> unfolds them, and an invariant is kept by an operation that leaves the fields it reads.
\<close>

named_theorems client_defs \<open>operations of the client\<close>

declare setStatus_def [client_defs] ask_token_def [client_defs] set_timeout_def [client_defs]
  clear_timeout_def [client_defs] update_socket_def [client_defs] client_send_def [client_defs]
  sendSubscribe_def [client_defs] clearRefreshTimer_def [client_defs]
  scheduleTokenRefresh_def [client_defs] scheduleReconnect_def [client_defs]
  scheduler_schedule_def [client_defs] scheduler_cancel_def [client_defs] client_connect_def [client_defs]
  connect_continue_def [client_defs] subscribe_continue_def [client_defs] refresh_continue_def [client_defs]
  on_delta_def [client_defs] on_snapshot_batch_def [client_defs] handleMessage_def [client_defs]
  client_subscribe_def [client_defs] onDelta_def [client_defs] offDelta_def [client_defs]
  onSnapshot_def [client_defs] offSnapshot_def [client_defs] client_write_def [client_defs]
  client_disconnect_def [client_defs] on_open_def [client_defs] on_close_def [client_defs]
  on_error_def [client_defs] settle_def [client_defs] fire_def [client_defs]

subsection \<open>The first frame of every socket\<close>

definition socket_ok :: "bool \<Rightarrow> socket \<Rightarrow> bool" where
  "socket_ok current s \<longleftrightarrow>
     (sk_frames s = [] \<or> (\<exists>buckets lsn. hd (sk_frames s) = TsSubscribe buckets (sk_token s) lsn TS_PROTOCOL_VERSION)) \<and>
     (sk_ready s = CONNECTING \<longrightarrow> sk_frames s = []) \<and>
     (current \<and> sk_ready s = OPEN \<longrightarrow> sk_frames s \<noteq> [])"

definition sockets_ok :: "sync_client \<Rightarrow> bool" where
  "sockets_ok c \<longleftrightarrow>
     (\<forall>i. sc_ws c = Some i \<longrightarrow> i < length (sc_sockets c)) \<and>
     (\<forall>i < length (sc_sockets c). socket_ok (sc_ws c = Some i) (sc_sockets c ! i))"

text \<open>The operations that touch neither the current socket nor the list of sockets.\<close>

definition same_sockets :: "sync_client \<Rightarrow> sync_client \<Rightarrow> bool" where
  "same_sockets c c' \<longleftrightarrow> sc_ws c' = sc_ws c \<and> sc_sockets c' = sc_sockets c"

lemma same_sockets_ops [simp]:
  "same_sockets c c" "same_sockets c (setStatus st c)" "same_sockets c (ask_token k c)"
  "same_sockets c (clear_timeout i c)" "same_sockets c (snd (set_timeout cb d c))"
  "same_sockets c (clearRefreshTimer c)" "same_sockets c (scheduleTokenRefresh E t token c)"
  "same_sockets c (scheduleReconnect t c)" "same_sockets c (client_connect c)"
  "same_sockets c (on_snapshot_batch E b rows offset c)" "same_sockets c (on_error c)" "same_sockets c (fire i c)"
  by (auto simp: same_sockets_def client_defs Let_def split: option.splits prod.splits timer_callback.splits)

lemma same_sockets_trans: "same_sockets a b \<Longrightarrow> same_sockets b c \<Longrightarrow> same_sockets a c"
  by (simp add: same_sockets_def)

lemma sockets_ok_same: "same_sockets c c' \<Longrightarrow> sockets_ok c \<Longrightarrow> sockets_ok c'"
  by (simp add: same_sockets_def sockets_ok_def)

lemma sockets_ok_update:
  assumes "sockets_ok c" and "i < length (sc_sockets c) \<Longrightarrow>
    socket_ok (sc_ws c = Some i) (sc_sockets c ! i) \<Longrightarrow> socket_ok (sc_ws c = Some i) (f (sc_sockets c ! i))"
  shows "sockets_ok (update_socket i f c)"
proof (cases "i < length (sc_sockets c)")
  case True
  then show ?thesis using assms by (auto simp: sockets_ok_def update_socket_def nth_list_update)
next
  case False
  then show ?thesis using assms(1) by (simp add: sockets_ok_def update_socket_def)
qed

lemma sockets_ok_send:
  assumes "sockets_ok c"
  shows "sockets_ok (snd (client_send msg c))"
proof (cases "ws_open c")
  case False
  with assms show ?thesis by (simp add: client_send_def)
next
  case True
  then obtain i where i: "sc_ws c = Some i" "sk_ready (sc_sockets c ! i) = OPEN"
    by (auto simp: ws_open_def split: option.splits)
  have "sockets_ok (update_socket i (\<lambda>s. s\<lparr>sk_frames := sk_frames s @ [msg]\<rparr>) c)"
    using i by (intro sockets_ok_update assms) (auto simp: socket_ok_def)
  with True i show ?thesis by (simp add: client_send_def)
qed

lemma sockets_ok_open:
  assumes "sockets_ok c" and "enabled c (SocketOpened i)"
  shows "sockets_ok (on_open E t i c)"
proof -
  let ?c = "update_socket i (\<lambda>s. s\<lparr>sk_ready := OPEN\<rparr>) c"
  have i: "i < length (sc_sockets c)" "sk_ready (sc_sockets c ! i) = CONNECTING" "sk_frames (sc_sockets c ! i) = []"
    using assms by (auto simp: sockets_ok_def socket_ok_def)
  have token: "sk_token (sc_sockets ?c ! i) = sk_token (sc_sockets c ! i)" using i by (simp add: update_socket_def)
  have "sockets_ok (sendSubscribe (sk_token (sc_sockets c ! i)) ?c)"
  proof (cases "sc_ws c = Some i")
    case True
    then have "sendSubscribe (sk_token (sc_sockets c ! i)) ?c =
      update_socket i (\<lambda>s. s\<lparr>sk_ready := OPEN, sk_frames := [TsSubscribe (sc_subscribed c) (sk_token s)
        (map_option js_Number (sc_last_lsn c)) TS_PROTOCOL_VERSION]\<rparr>) c"
      using i by (simp add: sendSubscribe_def client_send_def ws_open_def update_socket_def)
    moreover have "sockets_ok \<dots>" by (intro sockets_ok_update assms) (simp add: socket_ok_def)
    ultimately show ?thesis by simp
  next
    case False
    then have "sockets_ok ?c" using i by (intro sockets_ok_update assms) (auto simp: socket_ok_def)
    then show ?thesis unfolding sendSubscribe_def by (rule sockets_ok_send)
  qed
  then show ?thesis
    unfolding on_open_def Let_def token by (rule sockets_ok_same [OF same_sockets_ops(7)])
qed

lemma sockets_ok_close:
  assumes "sockets_ok c" and "r \<noteq> CONNECTING" and "r \<noteq> OPEN"
  shows "sockets_ok (update_socket i (\<lambda>s. s\<lparr>sk_ready := r\<rparr>) c)"
  using assms by (intro sockets_ok_update) (auto simp: socket_ok_def)

lemma sockets_ok_disconnect: "sockets_ok c \<Longrightarrow> sockets_ok (client_disconnect c)"
proof -
  assume ok: "sockets_ok c"
  have no_ws: "sockets_ok (c'\<lparr>sc_ws := None\<rparr>)" if "sockets_ok c'" for c'
    using that by (auto simp: sockets_ok_def socket_ok_def)
  have closed: "sockets_ok (update_socket i closed_by_client c')" if "sockets_ok c'" for i c'
    using that by (intro sockets_ok_update) (auto simp: socket_ok_def)
  let ?c = "clearRefreshTimer (case scheduler_cancel (sc_scheduler (c\<lparr>sc_explicit := True\<rparr>)) of
    (r, timer) \<Rightarrow> (case timer of None \<Rightarrow> c\<lparr>sc_explicit := True\<rparr>
       | Some i \<Rightarrow> clear_timeout i (c\<lparr>sc_explicit := True\<rparr>))\<lparr>sc_scheduler := r\<rparr>)"
  have "same_sockets c ?c"
    by (auto simp: same_sockets_def client_defs split: option.splits prod.splits)
  then have "sockets_ok ?c" using ok by (rule sockets_ok_same)
  then have "sockets_ok ((case sc_ws ?c of None \<Rightarrow> ?c | Some i \<Rightarrow> update_socket i closed_by_client ?c)\<lparr>sc_ws := None\<rparr>)"
    by (intro no_ws) (auto split: option.split intro: closed)
  then show ?thesis
    unfolding client_disconnect_def Let_def by (rule sockets_ok_same [OF same_sockets_ops(2)])
qed

lemma sockets_ok_settle: "sockets_ok c \<Longrightarrow> sockets_ok (settle E t k token c)"
proof -
  assume "sockets_ok c"
  then have ok: "sockets_ok (c\<lparr>sc_awaiting := a\<rparr>)" for a by (simp add: sockets_ok_def)
  have connect: "sockets_ok (connect_continue E t token c')" if "sockets_ok c'" for token c'
  proof (cases token)
    case (Inl err)
    have "same_sockets c' (scheduleReconnect t (setStatus (ErrorStatus err) c'))"
      by (rule same_sockets_trans [of _ "setStatus (ErrorStatus err) c'"]) simp_all
    with Inl that show ?thesis by (simp add: connect_continue_def sockets_ok_same)
  next
    case (Inr tok)
    with that show ?thesis
      by (auto simp: connect_continue_def sockets_ok_def socket_ok_def nth_append less_Suc_eq)
  qed
  have subscribe: "sockets_ok (sendSubscribe tok c')" if "sockets_ok c'" for tok c'
    unfolding sendSubscribe_def using that by (rule sockets_ok_send)
  show ?thesis
    by (auto simp: settle_def Let_def subscribe_continue_def refresh_continue_def ok
        split: awaiting.split sum.split
        intro!: connect subscribe sockets_ok_same [OF same_sockets_ops(7)] sockets_ok_same [OF same_sockets_ops(2)])
qed

lemma sockets_ok_message: "sockets_ok c \<Longrightarrow> sockets_ok (handleMessage E data c)"
proof -
  assume ok: "sockets_ok c"
  have "sockets_ok (c\<lparr>sc_last_lsn := l, sc_status := st, sc_log := lg\<rparr>)" for l st lg
    using ok by (simp add: sockets_ok_def)
  then have "sockets_ok (on_delta E bucket ops lsn c)" for bucket ops lsn
    unfolding on_delta_def Let_def setStatus_def by (auto split: prod.split intro!: sockets_ok_send)
  moreover have "sockets_ok (c\<lparr>sc_last_lsn := l\<rparr>)" for l using ok by (simp add: sockets_ok_def)
  ultimately show ?thesis
    using ok by (auto simp: handleMessage_def split: sum.split ts_server_message.split
        intro: sockets_ok_same [OF same_sockets_ops(2)] sockets_ok_same [OF same_sockets_ops(10)])
qed

lemma sockets_ok_subscribe: "sockets_ok c \<Longrightarrow> sockets_ok (client_subscribe buckets lsn c)"
proof -
  assume "sockets_ok c"
  then have "sockets_ok (case lsn of None \<Rightarrow> c\<lparr>sc_subscribed := buckets\<rparr>
      | Some l \<Rightarrow> c\<lparr>sc_subscribed := buckets, sc_last_lsn := Some (LsnGiven l)\<rparr>)"
    by (auto simp: sockets_ok_def split: option.split)
  then show ?thesis
    unfolding client_subscribe_def Let_def
    by (auto intro: sockets_ok_same [OF same_sockets_ops(3)] sockets_ok_same [OF same_sockets_ops(9)])
qed

lemma sockets_ok_on_close: "sockets_ok c \<Longrightarrow> sockets_ok (on_close t i c)"
proof -
  assume "sockets_ok c"
  then have "sockets_ok (clearRefreshTimer (update_socket i (\<lambda>s. s\<lparr>sk_ready := CLOSED\<rparr>) c))"
    by (intro sockets_ok_same [OF same_sockets_ops(6)] sockets_ok_close) simp_all
  then show ?thesis
    unfolding on_close_def Let_def
    by (auto intro: sockets_ok_same [OF same_sockets_ops(8)] sockets_ok_same [OF same_sockets_ops(2)])
qed

lemma sockets_ok_step:
  assumes "sockets_ok c" and "enabled c ev"
  shows "sockets_ok (client_step E t ev c)"
  using assms
proof (cases ev)
  case (SocketOpened i)
  with assms show ?thesis by (simp add: sockets_ok_open)
next
  case (TimerFired i)
  with assms show ?thesis by (simp add: sockets_ok_same [OF same_sockets_ops(12)])
next
  case (SocketErrored i)
  with assms show ?thesis by (simp add: sockets_ok_same [OF same_sockets_ops(11)])
qed (auto simp: client_write_def sockets_ok_send sockets_ok_disconnect sockets_ok_settle sockets_ok_message
    sockets_ok_subscribe sockets_ok_on_close, auto simp: sockets_ok_def client_defs)

lemma sockets_ok_reachable:
  assumes "(client_trans E)\<^sup>*\<^sup>* new_client c"
  shows "sockets_ok c"
  using assms
proof (induction rule: rtranclp_induct)
  case base
  show ?case by (simp add: sockets_ok_def new_client_def)
next
  case (step b c)
  from step.hyps(2) step.IH show ?case by (auto elim: client_transE intro: sockets_ok_step)
qed

text \<open>C19: every connection opens with the handshake the gateway requires. In every execution, on every
  socket the client ever created, the first frame sent is a \<^verbatim>\<open>Subscribe\<close> with the token fetched for that socket
  and the current protocol version, and no frame is sent before the socket is open.\<close>

theorem client_subscribes_first:
  assumes "(client_trans E)\<^sup>*\<^sup>* new_client c" and "i < length (sc_sockets c)"
  shows "(sk_frames (sc_sockets c ! i) = [] \<or>
     (\<exists>buckets lsn rest. sk_frames (sc_sockets c ! i) =
        TsSubscribe buckets (sk_token (sc_sockets c ! i)) lsn TS_PROTOCOL_VERSION # rest)) \<and>
    (sk_ready (sc_sockets c ! i) = CONNECTING \<longrightarrow> sk_frames (sc_sockets c ! i) = [])"
  using sockets_ok_reachable [OF assms(1)] assms(2)
  by (cases "sk_frames (sc_sockets c ! i)") (auto simp: sockets_ok_def socket_ok_def)

subsection \<open>Timers\<close>

fun timer_ok :: "nat \<Rightarrow> nat option \<Rightarrow> nat \<times> timer_callback \<times> rat \<Rightarrow> bool" where
  "timer_ok n refresh (i, RefreshTimer, d) \<longleftrightarrow> i < n \<and> refresh = Some i"
| "timer_ok n refresh (i, ReconnectTimer, d) \<longleftrightarrow> i < n \<and> 800 \<le> d \<and> d \<le> 36000"

definition timers_ok :: "sync_client \<Rightarrow> bool" where
  "timers_ok c \<longleftrightarrow>
     distinct (map fst (sc_timers c)) \<and>
     (\<forall>x \<in> set (sc_timers c). timer_ok (sc_next_timer c) (sc_refresh_timer c) x)"

lemma timer_ok_fresh: "timer_ok n r x \<Longrightarrow> fst x < n"
  by (cases "(n, r, x)" rule: timer_ok.cases) auto

lemma timer_ok_other: "timer_ok n r x \<Longrightarrow> fst (snd x) \<noteq> RefreshTimer \<Longrightarrow> n \<le> n' \<Longrightarrow> timer_ok n' r' x"
  by (cases "(n, r, x)" rule: timer_ok.cases) auto

lemma timer_ok_later: "timer_ok n r x \<Longrightarrow> n \<le> n' \<Longrightarrow> timer_ok n' r x"
  by (cases "(n, r, x)" rule: timer_ok.cases) auto

definition same_timers :: "sync_client \<Rightarrow> sync_client \<Rightarrow> bool" where
  "same_timers c c' \<longleftrightarrow>
     sc_timers c' = sc_timers c \<and> sc_next_timer c' = sc_next_timer c \<and> sc_refresh_timer c' = sc_refresh_timer c"

lemma same_timers_ops [simp]:
  "same_timers c (setStatus st c)" "same_timers c (ask_token k c)" "same_timers c (snd (client_send msg c))"
  "same_timers c (sendSubscribe token c)" "same_timers c (update_socket i f c)" "same_timers c (client_connect c)"
  "same_timers c (handleMessage E data c)" "same_timers c (client_subscribe buckets lsn c)"
  "same_timers c (onDelta h c)" "same_timers c (offDelta h c)" "same_timers c (onSnapshot h c)"
  "same_timers c (offSnapshot h c)" "same_timers c (on_error c)"
  by (auto simp: same_timers_def client_defs Let_def
      split: option.splits prod.splits sum.splits ts_server_message.splits)

lemma timers_ok_same: "same_timers c c' \<Longrightarrow> timers_ok c \<Longrightarrow> timers_ok c'"
  by (simp add: same_timers_def timers_ok_def)

lemma timers_ok_clear: "timers_ok c \<Longrightarrow> timers_ok (clear_timeout i c)"
  by (auto simp: timers_ok_def clear_timeout_def distinct_map inj_on_def)

lemma timers_ok_no_refresh:
  assumes "timers_ok c"
  shows "timers_ok (clearRefreshTimer c)"
    and "x \<in> set (sc_timers (clearRefreshTimer c)) \<Longrightarrow> fst (snd x) \<noteq> RefreshTimer"
proof -
  have tracked: "sc_refresh_timer c = Some (fst x)"
    if "x \<in> set (sc_timers c)" "fst (snd x) = RefreshTimer" for x
    using assms that by (cases x) (force simp: timers_ok_def)
  have "timers_ok (clearRefreshTimer c) \<and> (\<forall>x \<in> set (sc_timers (clearRefreshTimer c)). fst (snd x) \<noteq> RefreshTimer)"
  proof (cases "sc_refresh_timer c")
    case None
    with assms tracked show ?thesis by (auto simp: clearRefreshTimer_def)
  next
    case (Some i)
    have left: "fst (snd x) \<noteq> RefreshTimer" if "x \<in> set (sc_timers (clear_timeout i c))" for x
      using that tracked [of x] Some by (auto simp: clear_timeout_def)
    moreover have "timers_ok ((clear_timeout i c)\<lparr>sc_refresh_timer := None\<rparr>)"
      using timers_ok_clear [OF assms, of i] left timer_ok_other by (fastforce simp: timers_ok_def)
    ultimately show ?thesis using Some by (simp add: clearRefreshTimer_def)
  qed
  then show "timers_ok (clearRefreshTimer c)"
    and "x \<in> set (sc_timers (clearRefreshTimer c)) \<Longrightarrow> fst (snd x) \<noteq> RefreshTimer" by blast+
qed

lemma timers_ok_set_timeout:
  assumes "timers_ok c" and "timer_ok (Suc (sc_next_timer c)) r (sc_next_timer c, cb, d)"
    and "\<And>x. x \<in> set (sc_timers c) \<Longrightarrow> timer_ok (sc_next_timer c) r x"
  shows "timers_ok ((snd (set_timeout cb d c))\<lparr>sc_refresh_timer := r\<rparr>)"
  using assms timer_ok_later [of "sc_next_timer c" r] timer_ok_fresh
  by (fastforce simp: timers_ok_def set_timeout_def)

lemma timers_ok_token_refresh:
  assumes "timers_ok c"
  shows "timers_ok (scheduleTokenRefresh E t token c)"
proof -
  let ?c = "clearRefreshTimer c"
  note ok = timers_ok_no_refresh(1) [OF assms]
  have any: "timer_ok (sc_next_timer ?c) r x" if "x \<in> set (sc_timers ?c)" for r x
    using ok timers_ok_no_refresh(2) [OF assms that] that timer_ok_other by (fastforce simp: timers_ok_def)
  show ?thesis
  proof (cases "scheduleJwtRefresh (ce_parse_json E) token (tk_now t)")
    case None
    have "timers_ok (?c\<lparr>sc_refresh_timer := None\<rparr>)" using ok any by (simp add: timers_ok_def)
    with None show ?thesis by (simp add: scheduleTokenRefresh_def)
  next
    case (Some d)
    have "timers_ok ((snd (set_timeout RefreshTimer d ?c))\<lparr>sc_refresh_timer := Some (sc_next_timer ?c)\<rparr>)"
      using any by (intro timers_ok_set_timeout ok) simp_all
    with Some show ?thesis by (simp add: scheduleTokenRefresh_def Let_def set_timeout_def)
  qed
qed

lemma timers_ok_reconnect:
  assumes "timers_ok c" and "0 \<le> tk_random t" and "tk_random t < 1"
  shows "timers_ok (scheduleReconnect t c)"
proof -
  let ?d = "of_int (backoffDelayMs (rs_attempt (sc_scheduler c) + 1) (tk_random t)) :: rat"
  have "800 \<le> backoffDelayMs n (tk_random t) \<and> backoffDelayMs n (tk_random t) \<le> 36000" for n
    using backoff_bounds [OF assms(2, 3)] by blast
  then have "800 \<le> ?d \<and> ?d \<le> 36000" by (metis of_int_le_iff of_int_numeral)
  then have "timers_ok ((snd (set_timeout ReconnectTimer ?d c))\<lparr>sc_refresh_timer := sc_refresh_timer c\<rparr>)"
    using assms(1) by (intro timers_ok_set_timeout) (simp_all add: timers_ok_def)
  then show ?thesis
    by (simp add: scheduleReconnect_def scheduler_schedule_def Let_def set_timeout_def timers_ok_def)
qed

lemma timers_ok_step:
  assumes ok: "timers_ok c" and "0 \<le> tk_random t" and "tk_random t < 1"
  shows "timers_ok (client_step E t ev c)"
proof (cases ev)
  case (TokenSettled k token)
  let ?c = "c\<lparr>sc_awaiting := remove_nth k (sc_awaiting c)\<rparr>"
  have c: "timers_ok ?c" using ok by (simp add: timers_ok_def)
  have connected: "timers_ok (connect_continue E t token ?c)"
  proof (cases token)
    case (Inl err)
    with timers_ok_reconnect [OF timers_ok_same [OF same_timers_ops(1) c] assms(2, 3)]
    show ?thesis by (simp add: connect_continue_def)
  next
    case (Inr tok)
    with c show ?thesis by (simp add: connect_continue_def timers_ok_def)
  qed
  have "timers_ok (sendSubscribe tok ?c)" for tok by (rule timers_ok_same [OF same_timers_ops(4) c])
  then have "timers_ok (refresh_continue E t token ?c)" "timers_ok (subscribe_continue token ?c)"
    using c timers_ok_token_refresh timers_ok_same [OF same_timers_ops(1) c]
    by (auto simp: refresh_continue_def subscribe_continue_def split: sum.split)
  with connected TokenSettled show ?thesis by (simp add: settle_def Let_def split: awaiting.split)
next
  case (SocketOpened i)
  have "timers_ok (scheduleTokenRefresh E t token (sendSubscribe token (update_socket i f c)))" for token f
    by (intro timers_ok_token_refresh timers_ok_same [OF same_timers_ops(4)] timers_ok_same [OF same_timers_ops(5)] ok)
  with SocketOpened show ?thesis by (simp add: on_open_def Let_def)
next
  case (SocketClosed i)
  have c: "timers_ok (clearRefreshTimer (update_socket i f c))" for f
    by (intro timers_ok_no_refresh timers_ok_same [OF same_timers_ops(5)] ok)
  from timers_ok_reconnect [OF timers_ok_same [OF same_timers_ops(1) c] assms(2, 3)] c SocketClosed
  show ?thesis by (simp add: on_close_def Let_def)
next
  case ApiDisconnect
  let ?c = "c\<lparr>sc_explicit := True\<rparr>"
  have c: "timers_ok ?c" using ok by (simp add: timers_ok_def)
  then have "timers_ok ((case rs_timer (sc_scheduler ?c) of None \<Rightarrow> ?c | Some i \<Rightarrow> clear_timeout i ?c)
      \<lparr>sc_scheduler := r\<rparr>)" for r
    using timers_ok_clear [OF c] by (auto simp: timers_ok_def split: option.split)
  note cleared = timers_ok_no_refresh(1) [OF this]
  have "timers_ok (setStatus DisconnectedStatus
      ((case sc_ws c' of None \<Rightarrow> c' | Some i \<Rightarrow> update_socket i closed_by_client c')\<lparr>sc_ws := None\<rparr>))"
    if "timers_ok c'" for c'
    using that by (auto simp: timers_ok_def setStatus_def update_socket_def split: option.split)
  from this [OF cleared] show ?thesis
    unfolding ApiDisconnect client_step.simps client_disconnect_def Let_def scheduler_cancel_def prod.case .
next
  case (TimerFired i)
  have "timers_ok (client_connect (clear_timeout i c))" "timers_ok (ask_token k (clear_timeout i c))" for k
    by (rule timers_ok_same [OF same_timers_ops(6) timers_ok_clear [OF ok]],
        rule timers_ok_same [OF same_timers_ops(2) timers_ok_clear [OF ok]])
  with ok TimerFired show ?thesis by (auto simp: fire_def split: option.split timer_callback.split)
qed (use ok in \<open>auto simp: client_write_def intro: timers_ok_same [rotated]\<close>)

lemma timers_ok_reachable:
  assumes "(client_trans E)\<^sup>*\<^sup>* new_client c"
  shows "timers_ok c"
  using assms
proof (induction rule: rtranclp_induct)
  case base
  show ?case by (simp add: timers_ok_def new_client_def)
next
  case (step b c)
  from step.hyps(2) step.IH show ?case by (auto elim: client_transE intro: timers_ok_step)
qed

text \<open>At most one refresh is pending. In every execution the pending timers have different handles,
  the only refresh timer that can be pending is the one whose handle the client keeps, and every
  pending reconnect was asked for with a delay between 0.8 s and 36 s.\<close>

theorem client_timers_wf:
  assumes "(client_trans E)\<^sup>*\<^sup>* new_client c"
  shows "distinct (map fst (sc_timers c)) \<and>
    (\<forall>i d. (i, RefreshTimer, d) \<in> set (sc_timers c) \<longrightarrow> sc_refresh_timer c = Some i) \<and>
    (\<forall>i d. (i, ReconnectTimer, d) \<in> set (sc_timers c) \<longrightarrow> 800 \<le> d \<and> d \<le> 36000)"
  using timers_ok_reachable [OF assms] by (force simp: timers_ok_def)

subsection \<open>After a lost connection\<close>

lemma clearRefreshTimer_fields [simp]:
  "sc_ws (clearRefreshTimer c) = sc_ws c" "sc_sockets (clearRefreshTimer c) = sc_sockets c"
  "sc_awaiting (clearRefreshTimer c) = sc_awaiting c" "sc_explicit (clearRefreshTimer c) = sc_explicit c"
  "sc_subscribed (clearRefreshTimer c) = sc_subscribed c" "sc_last_lsn (clearRefreshTimer c) = sc_last_lsn c"
  "sc_next_timer (clearRefreshTimer c) = sc_next_timer c" "sc_scheduler (clearRefreshTimer c) = sc_scheduler c"
  by (simp_all add: clearRefreshTimer_def clear_timeout_def split: option.split)

lemma fresh_timer:
  assumes "timers_ok c"
  shows "map_of (sc_timers (clearRefreshTimer c)) (sc_next_timer c) = None"
proof -
  have "fst x \<noteq> sc_next_timer c" if "x \<in> set (sc_timers (clearRefreshTimer c))" for x
    using timers_ok_no_refresh(1) [OF assms] that timer_ok_fresh by (fastforce simp: timers_ok_def)
  then show ?thesis by (metis imageE map_of_eq_None_iff)
qed

lemma scheduleTokenRefresh_fields [simp]:
  "sc_ws (scheduleTokenRefresh E t token c) = sc_ws c" "sc_sockets (scheduleTokenRefresh E t token c) = sc_sockets c"
  "sc_awaiting (scheduleTokenRefresh E t token c) = sc_awaiting c"
  "sc_explicit (scheduleTokenRefresh E t token c) = sc_explicit c"
  by (simp_all add: scheduleTokenRefresh_def set_timeout_def Let_def split: option.split)

text \<open>The client after its socket \<open>i\<close> closed: everything but status, timers and the socket's state is kept.\<close>

lemma on_close_lost:
  assumes "timers_ok c" and "\<not> sc_explicit c"
  shows "map_of (sc_timers (on_close t i c)) (sc_next_timer c) =
      Some (ReconnectTimer, of_int (backoffDelayMs (rs_attempt (sc_scheduler c) + 1) (tk_random t)))"
    and "sc_awaiting (on_close t i c) = sc_awaiting c" and "sc_subscribed (on_close t i c) = sc_subscribed c"
    and "sc_last_lsn (on_close t i c) = sc_last_lsn c"
    and "sc_sockets (on_close t i c) = (sc_sockets c)[i := (sc_sockets c ! i)\<lparr>sk_ready := CLOSED\<rparr>]"
proof -
  have "timers_ok (update_socket i f c)" for f by (rule timers_ok_same [OF same_timers_ops(5) assms(1)])
  note fresh = fresh_timer [OF this]
  have next_timer: "sc_next_timer (update_socket i f c) = sc_next_timer c" for f by (simp add: update_socket_def)
  show "map_of (sc_timers (on_close t i c)) (sc_next_timer c) =
      Some (ReconnectTimer, of_int (backoffDelayMs (rs_attempt (sc_scheduler c) + 1) (tk_random t)))"
    using fresh [unfolded next_timer] assms(2)
    by (simp add: on_close_def Let_def scheduleReconnect_def scheduler_schedule_def set_timeout_def setStatus_def
        next_timer map_add_Some_iff) (simp add: update_socket_def)
  show "sc_awaiting (on_close t i c) = sc_awaiting c" "sc_subscribed (on_close t i c) = sc_subscribed c"
    "sc_last_lsn (on_close t i c) = sc_last_lsn c"
    "sc_sockets (on_close t i c) = (sc_sockets c)[i := (sc_sockets c ! i)\<lparr>sk_ready := CLOSED\<rparr>]"
    using assms(2)
    by (simp_all add: on_close_def Let_def scheduleReconnect_def scheduler_schedule_def set_timeout_def
        setStatus_def update_socket_def)
qed


lemma rs_attempt_ops [simp]:
  "rs_attempt (sc_scheduler (clearRefreshTimer c)) = rs_attempt (sc_scheduler c)"
  "rs_attempt (sc_scheduler (scheduleTokenRefresh E t token c)) = rs_attempt (sc_scheduler c)"
  "sc_scheduler (snd (client_send msg c)) = sc_scheduler c" "sc_scheduler (sendSubscribe token c) = sc_scheduler c"
  "sc_scheduler (handleMessage E data c) = sc_scheduler c" "sc_scheduler (client_subscribe bs l c) = sc_scheduler c"
  "sc_scheduler (client_connect c) = sc_scheduler c" "sc_scheduler (setStatus st c) = sc_scheduler c"
  "sc_scheduler (update_socket i f c) = sc_scheduler c" "sc_scheduler (fire i c) = sc_scheduler c"
  by (simp_all add: client_defs Let_def
      split: option.splits prod.splits sum.splits ts_server_message.splits timer_callback.splits)

lemma attempts_step: "rs_attempt (sc_scheduler c) \<le> rs_attempt (sc_scheduler (client_step E t ev c))"
proof (cases ev)
  case (TokenSettled k token)
  have "rs_attempt (sc_scheduler c') \<le> rs_attempt (sc_scheduler (connect_continue E t token c'))"
    "rs_attempt (sc_scheduler (subscribe_continue token c')) = rs_attempt (sc_scheduler c')"
    "rs_attempt (sc_scheduler (refresh_continue E t token c')) = rs_attempt (sc_scheduler c')" for c'
    by (simp_all add: connect_continue_def subscribe_continue_def refresh_continue_def scheduleReconnect_def
        scheduler_schedule_def set_timeout_def Let_def split: sum.split)
  from this [of "c\<lparr>sc_awaiting := remove_nth k (sc_awaiting c)\<rparr>"] TokenSettled
  show ?thesis by (simp add: settle_def Let_def split: awaiting.split)
next
  case ApiDisconnect
  then show ?thesis
    by (simp add: client_disconnect_def Let_def scheduler_cancel_def clear_timeout_def split: option.split)
next
  case (SocketClosed i)
  then show ?thesis
    by (simp add: on_close_def Let_def scheduleReconnect_def scheduler_schedule_def set_timeout_def)
qed (simp_all add: on_open_def Let_def onDelta_def offDelta_def onSnapshot_def offSnapshot_def client_write_def
    on_error_def)

lemma attempts_mono: "(client_trans E)\<^sup>*\<^sup>* c c' \<Longrightarrow> rs_attempt (sc_scheduler c) \<le> rs_attempt (sc_scheduler c')"
proof (induction rule: rtranclp_induct)
  case (step a b)
  from step.hyps(2) have "rs_attempt (sc_scheduler a) \<le> rs_attempt (sc_scheduler b)"
    by (auto elim!: client_transE simp: attempts_step simp del: client_step.simps)
  with step.IH show ?case by (rule le_trans)
qed simp

text \<open>The backoff is never reset. Once a client has scheduled five reconnects in its lifetime, every
  later lost connection is retried no earlier than 24 s after it was lost, however long the connections in
  between were up.\<close>

theorem backoff_never_reset:
  assumes "(client_trans E)\<^sup>*\<^sup>* new_client c" and "5 \<le> rs_attempt (sc_scheduler c)"
    and "(client_trans E)\<^sup>*\<^sup>* c c'" and "\<not> sc_explicit c'" and "0 \<le> tk_random t" and "tk_random t < 1"
  shows "\<exists>d. map_of (sc_timers (on_close t i c')) (sc_next_timer c') = Some (ReconnectTimer, d) \<and> 24000 \<le> d"
proof -
  let ?n = "rs_attempt (sc_scheduler c') + 1"
  have "timers_ok c'" using assms(1, 3) by (intro timers_ok_reachable) (rule rtranclp_trans)
  note lost = on_close_lost(1) [OF this assms(4), of t i]
  have "6 \<le> ?n" using attempts_mono [OF assms(3)] assms(2) by simp
  then have "24000 \<le> backoffDelayMs ?n (tk_random t)" using backoff_bounds [OF assms(5, 6), of ?n] by blast
  then have "(of_int 24000 :: rat) \<le> of_int (backoffDelayMs ?n (tk_random t))" by (simp only: of_int_le_iff)
  with lost show ?thesis by simp
qed

subsection \<open>Disconnecting\<close>

text \<open>Nothing is left that could act for the client: the state \<^verbatim>\<open>disconnect\<close> means to reach.\<close>

definition quiet :: "sync_client \<Rightarrow> bool" where
  "quiet c \<longleftrightarrow> sc_explicit c \<and> sc_ws c = None \<and> sc_timers c = [] \<and> set (sc_awaiting c) \<subseteq> {AwaitSubscribe} \<and>
     (\<forall>s \<in> set (sc_sockets c). sk_ready s \<noteq> CONNECTING)"

text \<open>No connection attempt, refresh or untracked reconnect is under way.\<close>

definition settled :: "sync_client \<Rightarrow> bool" where
  "settled c \<longleftrightarrow>
     set (sc_awaiting c) \<subseteq> {AwaitSubscribe} \<and>
     (\<forall>i d. (i, ReconnectTimer, d) \<in> set (sc_timers c) \<longrightarrow> rs_timer (sc_scheduler c) = Some i) \<and>
     (\<forall>i < length (sc_sockets c). sk_ready (sc_sockets c ! i) = CONNECTING \<longrightarrow> sc_ws c = Some i)"

lemma send_quiet [simp]: "sc_ws c = None \<Longrightarrow> snd (client_send msg c) = c"
  by (simp add: client_send_def ws_open_def)

lemma subscribe_quiet [simp]: "sc_ws c = None \<Longrightarrow> sendSubscribe token c = c"
  by (simp add: sendSubscribe_def)

lemma set_remove_nth: "set (remove_nth k xs) \<subseteq> set xs"
  by (auto simp: remove_nth_def dest: in_set_takeD in_set_dropD)

definition frames :: "sync_client \<Rightarrow> ts_client_message list list" where
  "frames c = map sk_frames (sc_sockets c)"

lemma map_update_same [simp]: "(map f xs)[i := f (xs ! i)] = map f xs"
  by (metis length_map linorder_not_less list_update_beyond list_update_id nth_map)

lemma quiet_step:
  assumes "quiet c" and "enabled c ev" and "\<not> api_event ev"
  shows "quiet (client_step E t ev c) \<and> frames (client_step E t ev c) = frames c"
proof (cases ev)
  case (TokenSettled k token)
  then have "sc_awaiting c ! k \<in> set (sc_awaiting c)" using assms(2) by simp
  then have "sc_awaiting c ! k = AwaitSubscribe" using assms(1) by (auto simp: quiet_def)
  with TokenSettled assms(1) set_remove_nth [of k "sc_awaiting c"] show ?thesis
    by (auto simp: settle_def Let_def subscribe_continue_def quiet_def frames_def split: sum.split)
next
  case (SocketMessage i data)
  with assms(1) show ?thesis
    by (auto simp: handleMessage_def on_delta_def on_snapshot_batch_def setStatus_def Let_def quiet_def frames_def
        split: sum.split ts_server_message.split prod.split)
next
  case (SocketClosed i)
  with assms show ?thesis
    by (auto simp: on_close_def Let_def clearRefreshTimer_def clear_timeout_def update_socket_def quiet_def
        frames_def map_update dest!: set_update_subset_insert [THEN subsetD] split: option.split)
next
  case (SocketOpened i)
  with assms show ?thesis by (auto simp: quiet_def)
next
  case (TimerFired i)
  with assms show ?thesis by (auto simp: quiet_def)
qed (use assms in \<open>auto simp: on_error_def setStatus_def quiet_def frames_def\<close>)

lemma quiet_run:
  "quiet c \<Longrightarrow> list_all (\<lambda>(t, ev). \<not> api_event ev) evs \<Longrightarrow> client_run E evs c = Some c' \<Longrightarrow>
   quiet c' \<and> frames c' = frames c"
proof (induction evs arbitrary: c)
  case (Cons tev evs)
  obtain t ev where tev: "tev = (t, ev)" by (rule prod.exhaust)
  with Cons.prems have "enabled c ev" and rest: "client_run E evs (client_step E t ev c) = Some c'"
    by (auto split: if_splits)
  with quiet_step [OF Cons.prems(1) this(1), of E t] Cons.prems(2) tev
  have "quiet (client_step E t ev c)" "frames (client_step E t ev c) = frames c" by simp_all
  with Cons.IH [OF this(1) _ rest] Cons.prems(2) show ?case by simp
qed simp

lemma disconnect_quiet:
  assumes "timers_ok c" and "sockets_ok c" and "settled c"
  shows "quiet (client_disconnect c) \<and> frames (client_disconnect c) = frames c"
proof -
  define c1 where "c1 = (case rs_timer (sc_scheduler c) of None \<Rightarrow> c\<lparr>sc_explicit := True\<rparr>
    | Some i \<Rightarrow> clear_timeout i (c\<lparr>sc_explicit := True\<rparr>))\<lparr>sc_scheduler := (sc_scheduler c)\<lparr>rs_timer := None\<rparr>\<rparr>"
  have disc: "client_disconnect c = setStatus DisconnectedStatus
     ((case sc_ws c of None \<Rightarrow> clearRefreshTimer c1
       | Some i \<Rightarrow> update_socket i closed_by_client (clearRefreshTimer c1))\<lparr>sc_ws := None\<rparr>)"
    by (simp add: client_disconnect_def Let_def scheduler_cancel_def c1_def clear_timeout_def split: option.split)
  have ok: "timers_ok (c\<lparr>sc_explicit := True\<rparr>)" using assms(1) by (simp add: timers_ok_def)
  then have c1: "timers_ok c1" using timers_ok_clear [OF ok] by (auto simp: c1_def timers_ok_def split: option.split)
  have reconnect: "fst (snd x) \<noteq> ReconnectTimer" if "x \<in> set (sc_timers c1)" for x
  proof -
    obtain i cb d where "x = (i, cb, d)" by (rule prod_cases3)
    with that assms(3) show ?thesis by (auto simp: c1_def clear_timeout_def settled_def split: option.splits)
  qed
  have "x \<notin> set (sc_timers (clearRefreshTimer c1))" for x
  proof
    assume x: "x \<in> set (sc_timers (clearRefreshTimer c1))"
    then have "x \<in> set (sc_timers c1)" by (auto simp: clearRefreshTimer_def clear_timeout_def split: option.splits)
    from reconnect [OF this] timers_ok_no_refresh(2) [OF c1 x] show False by (cases "fst (snd x)") simp_all
  qed
  then have timers: "sc_timers (clearRefreshTimer c1) = []" by (metis list.set_intros(1) neq_Nil_conv)
  have same: "sc_sockets c1 = sc_sockets c" "sc_awaiting c1 = sc_awaiting c" "sc_explicit c1"
    by (simp_all add: c1_def clear_timeout_def split: option.split)
  have lonely: "sk_ready (sc_sockets c ! j) \<noteq> CONNECTING" if "j < length (sc_sockets c)" "sc_ws c \<noteq> Some j" for j
    using assms(3) that by (auto simp: settled_def)
  have closed: "sk_ready (closed_by_client s) \<noteq> CONNECTING" for s by simp
  have sockets: "sk_ready s \<noteq> CONNECTING"
    if "s \<in> set (case sc_ws c of None \<Rightarrow> sc_sockets c
      | Some i \<Rightarrow> (sc_sockets c)[i := closed_by_client (sc_sockets c ! i)])" for s
  proof (cases "sc_ws c")
    case None
    with that lonely show ?thesis by (auto simp: in_set_conv_nth)
  next
    case (Some i)
    with that obtain j where j: "j < length (sc_sockets c)" "s = (sc_sockets c)[i := closed_by_client (sc_sockets c ! i)] ! j"
      by (auto simp: in_set_conv_nth)
    show ?thesis
    proof (cases "j = i")
      case True
      with j show ?thesis by (simp del: closed_by_client.simps add: closed)
    next
      case False
      with j lonely [of j] Some show ?thesis by simp
    qed
  qed
  have kept: "map sk_frames ((sc_sockets c)[i := closed_by_client (sc_sockets c ! i)]) = map sk_frames (sc_sockets c)" for i
    by (simp add: map_update)
  have "set (sc_awaiting c) \<subseteq> {AwaitSubscribe}" using assms(3) by (simp add: settled_def)
  with timers same sockets kept show ?thesis
    unfolding disc quiet_def frames_def
    by (cases "sc_ws c") (simp_all add: setStatus_def update_socket_def del: closed_by_client.simps)
qed

text \<open>C20: a disconnect that finds nothing under way is final. If the client is not waiting for a token to connect
  or refresh, tracks every reconnect that is pending and has no second socket connecting, then after
  \<^verbatim>\<open>disconnect\<close>, whatever sockets, timers and promises still deliver, it sends no frame, opens no socket, sets
  no timer and asks for no token to connect, until the application calls it again.\<close>

theorem disconnect_is_final:
  assumes "(client_trans E)\<^sup>*\<^sup>* new_client c" and "settled c"
    and "list_all (\<lambda>(t, ev). \<not> api_event ev) evs" and "client_run E evs (client_disconnect c) = Some c'"
  shows "quiet c' \<and> frames c' = frames c"
  using quiet_run [OF _ assms(3, 4)]
    disconnect_quiet [OF timers_ok_reachable [OF assms(1)] sockets_ok_reachable [OF assms(1)] assms(2)]
  by simp

text \<open>A disconnect during a connection attempt is lost. When the application subscribes and disconnects
  before the token has arrived, the attempt goes on: the client then opens a socket and subscribes on it, and
  is connected although it was told to disconnect.\<close>

theorem disconnect_lost_while_connecting:
  assumes "ce_url_ok E"
  shows "\<exists>c. client_run E
      [(t1, ApiSubscribe buckets None), (t2, ApiDisconnect), (t3, TokenSettled 0 (Inr token)), (t4, SocketOpened 0)]
      new_client = Some c \<and> ws_open c \<and> sc_explicit c \<and>
    frames c = [[TsSubscribe buckets token None TS_PROTOCOL_VERSION]]"
  using assms
  by (simp add: new_client_def new_scheduler_def client_subscribe_def ws_open_def client_connect_def ask_token_def
      setStatus_def client_disconnect_def Let_def scheduler_cancel_def clearRefreshTimer_def settle_def remove_nth_def
      connect_continue_def on_open_def update_socket_def sendSubscribe_def client_send_def frames_def
      scheduleTokenRefresh_def set_timeout_def split: option.split)

subsection \<open>A sample execution\<close>

lemma run_reaches:
  "client_run E evs c = Some c' \<Longrightarrow> list_all (\<lambda>(t, ev). 0 \<le> tk_random t \<and> tk_random t < 1) evs \<Longrightarrow>
   (client_trans E)\<^sup>*\<^sup>* c c'"
proof (induction evs arbitrary: c)
  case (Cons tev evs)
  obtain t ev where tev: "tev = (t, ev)" by (rule prod.exhaust)
  with Cons.prems have "client_trans E c (client_step E t ev c)" and "client_run E evs (client_step E t ev c) = Some c'"
    by (auto split: if_splits intro: client_trans.event)
  with Cons.IH Cons.prems(2) show ?case by (auto intro: converse_rtranclp_into_rtranclp)
qed simp

definition sample_env :: client_env where
  "sample_env =
     \<lparr>ce_parse_json = (\<lambda>_. None), ce_decode = (\<lambda>_. Inr (TsDelta ''u'' [] 7)), ce_url_ok = True,
      ce_delta_throws = (\<lambda>_ _. False), ce_snapshot_throws = (\<lambda>_ _. False)\<rparr>"

definition sample_tick :: tick where
  "sample_tick = \<lparr>tk_now = 0, tk_random = 0\<rparr>"

definition sample_events :: "client_event list" where
  "sample_events =
     [ApiSubscribe [''u''] None, TokenSettled 0 (Inr ''token''), SocketOpened 0, SocketMessage 0 []]"

definition sample_client :: sync_client where
  "sample_client = the (client_run sample_env (map (Pair sample_tick) sample_events) new_client)"

lemma sample_client_run:
  "client_run sample_env (map (Pair sample_tick) sample_events) new_client = Some sample_client \<and>
   sc_sockets sample_client =
     [\<lparr>sk_ready = OPEN, sk_token = ''token'',
       sk_frames = [TsSubscribe [''u''] ''token'' None TS_PROTOCOL_VERSION, TsAck 7]\<rparr>] \<and>
   sc_ws sample_client = Some 0 \<and> \<not> sc_explicit sample_client \<and> sc_awaiting sample_client = [] \<and>
   sc_timers sample_client = [] \<and> sc_last_lsn sample_client = Some (LsnOf 7) \<and> sc_next_timer sample_client = 0 \<and>
   sc_subscribed sample_client = [''u'']"
  by (simp add: sample_client_def sample_events_def sample_env_def sample_tick_def new_client_def new_scheduler_def
      client_subscribe_def ws_open_def client_connect_def ask_token_def setStatus_def Let_def settle_def remove_nth_def
      connect_continue_def on_open_def update_socket_def sendSubscribe_def client_send_def clearRefreshTimer_def
      scheduleTokenRefresh_def scheduleJwtRefresh_def decodeJwtExpiry_def handleMessage_def on_delta_def
      split: option.split list.split)

lemma sample_client_reachable: "(client_trans sample_env)\<^sup>*\<^sup>* new_client sample_client"
  by (rule run_reaches [OF conjunct1 [OF sample_client_run]]) (simp add: sample_events_def sample_tick_def)

theorem client_subscribes_first_witness:
  "\<exists>buckets lsn rest. sk_frames (sc_sockets sample_client ! 0) =
     TsSubscribe buckets (sk_token (sc_sockets sample_client ! 0)) lsn TS_PROTOCOL_VERSION # rest"
  using client_subscribes_first [OF sample_client_reachable, of 0] sample_client_run by simp

theorem client_timers_wf_witness: "distinct (map fst (sc_timers sample_client))"
  using client_timers_wf [OF sample_client_reachable] by blast

lemma sample_env_url: "ce_url_ok sample_env"
  by (simp add: sample_env_def)


theorem disconnect_is_final_witness:
  "quiet (client_disconnect sample_client) \<and> frames (client_disconnect sample_client) = frames sample_client"
proof -
  have "settled sample_client" using sample_client_run by (simp add: settled_def)
  from disconnect_is_final [OF sample_client_reachable this, of "[]"] show ?thesis by simp
qed

theorem disconnect_lost_while_connecting_witness:
  "\<exists>c. client_run sample_env
      [(sample_tick, ApiSubscribe [''u''] None), (sample_tick, ApiDisconnect),
       (sample_tick, TokenSettled 0 (Inr ''token'')), (sample_tick, SocketOpened 0)] new_client = Some c \<and> ws_open c"
  using disconnect_lost_while_connecting [OF sample_env_url] by blast

text \<open>A client that could not get a token five times.\<close>

definition failing_events :: "client_event list" where
  "failing_events =
     ApiSubscribe [''u''] None # concat (map (\<lambda>n. [TokenSettled 0 (Inl ''offline''), TimerFired n]) [0..<5])"

definition failing_client :: sync_client where
  "failing_client = the (client_run sample_env (map (Pair sample_tick) failing_events) new_client)"

lemma failing_client_run:
  "client_run sample_env (map (Pair sample_tick) failing_events) new_client = Some failing_client \<and>
   rs_attempt (sc_scheduler failing_client) = 5 \<and> \<not> sc_explicit failing_client"
  by (simp add: failing_client_def failing_events_def upt_rec sample_env_def sample_tick_def new_client_def
      new_scheduler_def client_subscribe_def ws_open_def client_connect_def ask_token_def setStatus_def Let_def
      settle_def remove_nth_def connect_continue_def scheduleReconnect_def scheduler_schedule_def set_timeout_def
      fire_def clear_timeout_def)

theorem backoff_never_reset_witness:
  "\<exists>d. map_of (sc_timers (on_close sample_tick 0 failing_client)) (sc_next_timer failing_client) =
     Some (ReconnectTimer, d) \<and> 24000 \<le> d"
proof -
  have "(client_trans sample_env)\<^sup>*\<^sup>* new_client failing_client"
    by (rule run_reaches [OF conjunct1 [OF failing_client_run]]) (auto simp: list_all_iff sample_tick_def)
  from backoff_never_reset [OF this _ rtranclp.rtrancl_refl, of sample_tick 0] failing_client_run
  show ?thesis by (simp add: sample_tick_def)
qed

end
