(* ===== verification/Client_Gateway.thy ===== *)
theory Client_Gateway
  imports Client_Properties Connection_Delivery
begin

section \<open>The client against the gateway\<close>

text \<open>
  The client of \<^verbatim>\<open>entity-sync-core\<close> and the gateway's connection handler exchange MessagePack: what one
  side encodes the other decodes. \<open>ts_of\<close> and \<open>rust_of\<close> say what a message of one language is in the other; that
  the two libraries agree on a given message is the hypothesis \<open>client_reads\<close> or \<open>gateway_reads\<close>. MessagePack integers become
  JavaScript numbers, which are integers up to $2^{53} - 1$ (a larger one may be rounded and is encoded
  as a float, which the gateway does not read as an LSN): a message is \<open>lsn_safe\<close> within that.
\<close>

definition js_safe :: nat where
  "js_safe = 2 ^ 53 - 1"

definition ts_op_of :: "(json \<Rightarrow> js_value) \<Rightarrow> bucket_op \<Rightarrow> ts_bucket_op" where
  "ts_op_of conv op =
     \<lparr>to_lsn = unat (lsn_u64 (bo_lsn op)), to_bucket_id = bucket_name (bo_bucket_id op),
      to_entity_type = bo_entity_type op, to_entity_id = bo_entity_id op,
      to_op = (case bo_op op of Upsert v \<Rightarrow> TsUpsert (conv v) | Delete \<Rightarrow> TsDelete | CrdtPatch b \<Rightarrow> TsCrdtPatch b)\<rparr>"

fun ts_of :: "(json \<Rightarrow> js_value) \<Rightarrow> server_message \<Rightarrow> ts_server_message" where
  "ts_of conv (SnapshotBegin b n v) = TsSnapshotBegin (bucket_name b) (unat n) (unat v)"
| "ts_of conv (SnapshotBatchMsg b rows offset) = TsSnapshotBatch (bucket_name b) (map conv rows) (unat offset)"
| "ts_of conv (SnapshotComplete b s) = TsSnapshotComplete (bucket_name b) (unat (checksum_u64 s))"
| "ts_of conv (Delta b ops l) = TsDelta (bucket_name b) (map (ts_op_of conv) ops) (unat (lsn_u64 l))"
| "ts_of conv (Checkpoint l cs) =
     TsCheckpoint (unat (lsn_u64 l)) (map (\<lambda>(b, s). (bucket_name b, unat (checksum_u64 s))) cs)"
| "ts_of conv (Keepalive ms) = TsKeepalive (unat ms)"
| "ts_of conv (ErrorMsg code message) = TsError (unat code) message"

fun lsn_safe :: "server_message \<Rightarrow> bool" where
  "lsn_safe (Delta b ops l) \<longleftrightarrow> unat (lsn_u64 l) \<le> js_safe \<and> list_all (\<lambda>op. unat (lsn_u64 (bo_lsn op)) \<le> js_safe) ops"
| "lsn_safe (Checkpoint l _) \<longleftrightarrow> unat (lsn_u64 l) \<le> js_safe"
| "lsn_safe _ \<longleftrightarrow> True"

definition client_reads :: "client_env \<Rightarrow> wire_codec \<Rightarrow> (json \<Rightarrow> js_value) \<Rightarrow> server_message \<Rightarrow> bool" where
  "client_reads E W conv m \<longleftrightarrow>
     (\<forall>bs. to_vec_server W m = Inr bs \<longrightarrow> lsn_safe m \<longrightarrow> ce_decode E bs = Inr (ts_of conv m))"

fun rust_lsn :: "js_number option \<Rightarrow> pg_lsn option option" where
  "rust_lsn None = Some None"
| "rust_lsn (Some (Num n)) = (if n \<le> js_safe then Some (Some (PgLsn (word_of_nat n))) else None)"
| "rust_lsn (Some (NumberOf s)) = None"

definition gateway_reads :: "wire_codec \<Rightarrow> (ts_client_message \<Rightarrow> bytes) \<Rightarrow> string list \<Rightarrow> string \<Rightarrow> js_number option \<Rightarrow> bool" where
  "gateway_reads W mp_encode buckets token lsn \<longleftrightarrow>
     (\<forall>l. rust_lsn lsn = Some l \<longrightarrow>
        from_slice_client W (mp_encode (TsSubscribe buckets token lsn TS_PROTOCOL_VERSION)) =
          Inr (Subscribe buckets token l PROTOCOL_VERSION))"

subsection \<open>Resuming\<close>

lemma sorted_list_of_set_split:
  fixes A B :: "u64 set"
  assumes "\<And>a b. a \<in> A \<Longrightarrow> b \<in> B \<Longrightarrow> a < b"
  shows "sorted_list_of_set (A \<union> B) = sorted_list_of_set A @ sorted_list_of_set B"
proof (rule sorted_distinct_set_unique)
  have "finite A" "finite B" by simp_all
  then show "sorted (sorted_list_of_set A @ sorted_list_of_set B)" "distinct (sorted_list_of_set A @ sorted_list_of_set B)"
    using assms by (force simp: sorted_append less_imp_le)+
qed simp_all

text \<open>What a scan finds, split at a position up to which the log has not changed.\<close>

lemma drain_spec_split:
  assumes "\<And>k. k \<le> l \<Longrightarrow> m2 k = m1 k" and "\<And>k. k \<in> dom m1 \<Longrightarrow> f \<le> k \<Longrightarrow> k < U64_MAX \<Longrightarrow> k \<le> l"
    and "f \<le> l" and "l < U64_MAX"
  shows "drain_spec m2 f = drain_spec m1 f @ drain_spec m2 (l + 1)"
proof -
  let ?A = "{k \<in> dom m1. f \<le> k \<and> k < U64_MAX}" and ?B = "{k \<in> dom m2. l + 1 \<le> k \<and> k < U64_MAX}"
  have above: "l + 1 \<le> k \<longleftrightarrow> l < k" for k using word_Suc_le [OF assms(4)] by blast
  have below: "k \<in> ?A \<longleftrightarrow> k \<in> dom m2 \<and> f \<le> k \<and> k < U64_MAX \<and> k \<le> l" for k
  proof
    assume "k \<in> ?A"
    then have k: "k \<in> dom m1" "f \<le> k" "k < U64_MAX" by simp_all
    from assms(2) [OF this] have "k \<le> l" .
    with k assms(1) [OF this] show "k \<in> dom m2 \<and> f \<le> k \<and> k < U64_MAX \<and> k \<le> l" by (simp add: domIff)
  next
    assume k: "k \<in> dom m2 \<and> f \<le> k \<and> k < U64_MAX \<and> k \<le> l"
    with assms(1) [of k] show "k \<in> ?A" by (simp add: domIff)
  qed
  have "k \<in> {k \<in> dom m2. f \<le> k \<and> k < U64_MAX} \<longleftrightarrow> k \<in> ?A \<union> ?B" for k
  proof -
    have "k \<in> ?B \<longleftrightarrow> k \<in> dom m2 \<and> l < k \<and> k < U64_MAX" by (simp only: mem_Collect_eq above)
    moreover have "l < k \<Longrightarrow> f \<le> k" using assms(3) by (rule order_trans [OF _ less_imp_le])
    ultimately show ?thesis unfolding Un_iff below mem_Collect_eq using le_less_linear [of k l] by blast
  qed
  then have split: "{k \<in> dom m2. f \<le> k \<and> k < U64_MAX} = ?A \<union> ?B" by blast
  have order: "a < b" if "a \<in> ?A" "b \<in> ?B" for a b
  proof -
    have "a \<le> l" using that(1) unfolding below by blast
    moreover have "l < b" using that(2) unfolding mem_Collect_eq above by blast
    ultimately show ?thesis by (rule le_less_trans)
  qed
  have "sorted_list_of_set {k \<in> dom m2. f \<le> k \<and> k < U64_MAX} = sorted_list_of_set ?A @ sorted_list_of_set ?B"
    unfolding split by (rule sorted_list_of_set_split) (rule order)
  moreover have "m2 k = m1 k" if "k \<in> ?A" for k using that assms(1) unfolding below by blast
  then have "map (\<lambda>k. so_op (the (m2 k))) (sorted_list_of_set ?A) = map (\<lambda>k. so_op (the (m1 k))) (sorted_list_of_set ?A)"
    by (intro map_cong) (simp_all only: set_sorted_list_of_set [OF finite])
  ultimately show ?thesis unfolding drain_spec_def by (simp only: map_append)
qed

lemma handle_delta_lsn: "ce_decode E bs = Inr (TsDelta b ops l) \<Longrightarrow> sc_last_lsn (handleMessage E bs c) = Some (LsnOf l)"
  by (simp add: handleMessage_def on_delta_def client_send_def update_socket_def setStatus_def Let_def split: prod.split)

lemma handle_subscribed: "sc_subscribed (handleMessage E bs c) = sc_subscribed c"
  by (simp add: handleMessage_def on_delta_def on_snapshot_batch_def client_send_def update_socket_def setStatus_def Let_def
      split: prod.split sum.split ts_server_message.split)

lemma client_took_delta:
  assumes "client_reads E (gw_wire G) conv (delta_for s b ops)" and "lsn_safe (delta_for s b ops)"
    and "to_vec_server (gw_wire G) (delta_for s b ops) = Inr bs"
  shows "rust_lsn (map_option js_Number (sc_last_lsn (handleMessage E bs c))) = Some (Some (Max (set (map bo_lsn ops))))"
proof -
  have dec: "ce_decode E bs = Inr (TsDelta (bucket_name (wire_bucket s b))
      (map (ts_op_of conv) (map (\<lambda>op. op\<lparr>bo_bucket_id := wire_bucket s b\<rparr>) ops))
      (unat (lsn_u64 (Max (set (map bo_lsn ops))))))"
    using assms unfolding client_reads_def delta_for_def ts_of.simps by blast
  have "unat (lsn_u64 (Max (set (map bo_lsn ops)))) \<le> js_safe"
    using assms(2) unfolding delta_for_def lsn_safe.simps by blast
  then show ?thesis using handle_delta_lsn [OF dec] by (cases "Max (set (map bo_lsn ops))") simp
qed

lemma resumed_scan:
  assumes "b \<in> dom (hm_get (se_authorized (new_session requested asgs (Some l))))"
  shows "scan_from (new_session requested asgs (Some l)) b = PgLsn (lsn_u64 l + 1)"
  using assms new_session_spec(4) [of requested asgs "Some l" b] unfolding scan_from_def by simp

lemma drain_up_to_max:
  assumes "\<And>l s. m l = Some s \<Longrightarrow> bo_lsn (so_op s) = PgLsn l" and "drain_spec m f \<noteq> []"
  defines "l \<equiv> lsn_u64 (Max (set (map bo_lsn (drain_spec m f))))"
  shows "f \<le> l \<and> l < U64_MAX \<and> (\<forall>k. k \<in> dom m \<longrightarrow> f \<le> k \<longrightarrow> k < U64_MAX \<longrightarrow> k \<le> l)"
proof -
  let ?L = "set (map bo_lsn (drain_spec m f))" and ?A = "{l \<in> dom m. f \<le> l \<and> l < U64_MAX}"
  have img: "lsn_u64 ` ?L = ?A"
    using arg_cong [OF drain_spec_lsns [where m = m and f = f, OF assms(1)], of set] by (simp add: image_comp)
  have "Max ?L \<in> ?L" using assms(2) by (intro Max_in) simp_all
  then have "l \<in> lsn_u64 ` ?L" unfolding l_def by (rule imageI)
  then have "l \<in> ?A" unfolding img .
  moreover have "k \<le> l" if "k \<in> ?A" for k
  proof -
    from that obtain x where "x \<in> ?L" "k = lsn_u64 x" unfolding img [symmetric] by (rule imageE)
    then show ?thesis using Max_ge [of ?L x] unfolding l_def less_eq_pg_lsn_def by simp
  qed
  ultimately show ?thesis by blast
qed

text \<open>C11: reconnecting loses and repeats nothing of a single bucket. A client took the delta that a session's poll sent
  for a bucket; the connection drops, the bucket's log grows past that delta, and the client subscribes again
  with the LSN it holds. The gateway reads that LSN as the largest one of the delta, and what the new session will deliver
  is what the old session would still have had to deliver: the ops of the delta followed by it are all the
  ops the old session owed. This holds for LSNs a JavaScript number represents exactly.\<close>

theorem client_resume_lossless:
  fixes c :: sync_client
  assumes "log_labelled (log_at (gw_log G) V db)" and "bucket_id_fits (bucket_name b)"
    and "undelivered G V s db b \<noteq> []"
  defines "l \<equiv> Max (set (map bo_lsn (undelivered G V s db b)))"
  assumes "to_vec_server (gw_wire G) (delta_for s b (undelivered G V s db b)) = Inr bs"
    and "lsn_safe (delta_for s b (undelivered G V s db b))"
    and "client_reads E (gw_wire G) conv (delta_for s b (undelivered G V s db b))"
  defines "lsn \<equiv> map_option js_Number (sc_last_lsn (handleMessage E bs c))"
  assumes "gateway_reads (gw_wire G) enc (sc_subscribed c) token lsn"
    and "\<And>k. k \<le> lsn_u64 l \<Longrightarrow> log_at (gw_log G) V db' (bucket_name b) k = log_at (gw_log G) V db (bucket_name b) k"
    and "b \<in> dom (hm_get (se_authorized (new_session (sc_subscribed c) asgs (Some l))))"
  shows "decode_client (gw_wire G)
      (enc (TsSubscribe (sc_subscribed (handleMessage E bs c)) token lsn TS_PROTOCOL_VERSION)) =
        Inr (Subscribe (sc_subscribed c) token (Some l) PROTOCOL_VERSION) \<and>
    undelivered G V s db' b =
      undelivered G V s db b @ undelivered G V (new_session (sc_subscribed c) asgs (Some l)) db' b"
proof
  have "rust_lsn lsn = Some (Some l)"
    using client_took_delta [OF assms(7,6,5)] unfolding lsn_def l_def by blast
  then show "decode_client (gw_wire G)
      (enc (TsSubscribe (sc_subscribed (handleMessage E bs c)) token lsn TS_PROTOCOL_VERSION)) =
        Inr (Subscribe (sc_subscribed c) token (Some l) PROTOCOL_VERSION)"
    using assms(9) unfolding gateway_reads_def decode_client_def handle_subscribed by simp
  let ?m = "log_at (gw_log G) V db (bucket_name b)" and ?f = "lsn_u64 (scan_from s b)"
  have lab: "bo_lsn (so_op x) = PgLsn k" if "?m k = Some x" for k x
    using assms(1,2) that by (auto simp: log_labelled_def)
  have top: "?f \<le> lsn_u64 l \<and> lsn_u64 l < U64_MAX \<and>
      (\<forall>k. k \<in> dom ?m \<longrightarrow> ?f \<le> k \<longrightarrow> k < U64_MAX \<longrightarrow> k \<le> lsn_u64 l)"
    using drain_up_to_max [where m = ?m and f = ?f, OF lab] assms(3) unfolding l_def undelivered_def by blast
  then show "undelivered G V s db' b =
      undelivered G V s db b @ undelivered G V (new_session (sc_subscribed c) asgs (Some l)) db' b"
    using drain_spec_split [of "lsn_u64 l" "log_at (gw_log G) V db' (bucket_name b)" ?m ?f, OF assms(10)]
    unfolding undelivered_def resumed_scan [OF assms(11)] pg_lsn.sel by blast
qed


subsection \<open>Renewing the token\<close>

text \<open>C37: the proactive token refresh does not renew a session. When the client's refresh timer has produced a new token
  on an open connection, it sends a second \<^verbatim>\<open>Subscribe\<close>; the gateway accepts one only as the first frame, so it answers
  with the redacted protocol error, keeps the session as it was, and the client reports an error state.\<close>

theorem token_refresh_rejected:
  fixes t :: tick
  assumes "k < length (sc_awaiting c)" and "sc_awaiting c ! k = AwaitRefresh"
    and "sc_ws c = Some i" and "i < length (sc_sockets c)" and "sk_ready (sc_sockets c ! i) = OPEN"
    and "gateway_reads (gw_wire G) enc (sc_subscribed c) token (map_option js_Number (sc_last_lsn c))"
    and "rust_lsn (map_option js_Number (sc_last_lsn c)) = Some lsn"
    and "sends_ok G" and "to_vec_server (gw_wire G) (ErrorMsg 4003 ''protocol error'') = Inr bs"
    and "client_reads E (gw_wire G) conv (ErrorMsg 4003 ''protocol error'')"
  defines "frame \<equiv> TsSubscribe (sc_subscribed c) token (map_option js_Number (sc_last_lsn c)) TS_PROTOCOL_VERSION"
    and "c' \<equiv> client_step E t (TokenSettled k (Inr token)) c"
  shows "sk_frames (sc_sockets c' ! i) = sk_frames (sc_sockets c ! i) @ [frame] \<and>
    (\<exists>w'. handle_client_message G clock (enc frame) s w = (Inr (True, s), w') \<and>
       w_sent w' = w_sent w @ [ErrorMsg 4003 ''protocol error'']) \<and>
    sc_status (handleMessage E bs c') = ErrorStatus ''sync gateway error 4003: protocol error''"
proof (intro conjI)
  show "sk_frames (sc_sockets c' ! i) = sk_frames (sc_sockets c ! i) @ [frame]"
    using assms(1-5) by (simp add: c'_def frame_def settle_def refresh_continue_def sendSubscribe_def client_send_def
        ws_open_def update_socket_def)
  have "decode_client (gw_wire G) (enc frame) = Inr (Subscribe (sc_subscribed c) token lsn PROTOCOL_VERSION)"
    using assms(6,7) unfolding gateway_reads_def frame_def decode_client_def by simp
  moreover obtain ws' where "send_message G (ErrorMsg 4003 ''protocol error'') w =
      (Inr (), w\<lparr>w_ws := ws', w_sent := w_sent w @ [ErrorMsg 4003 ''protocol error'']\<rparr>)"
    using send_message_ok [OF assms(8)] by blast
  ultimately show "\<exists>w'. handle_client_message G clock (enc frame) s w = (Inr (True, s), w') \<and>
      w_sent w' = w_sent w @ [ErrorMsg 4003 ''protocol error'']"
    by (simp add: handle_client_message_def send_response_def send_error_def seq_def)
  have "ce_decode E bs = Inr (TsError 4003 ''protocol error'')"
    using assms(9,10) by (simp add: client_reads_def)
  moreover have "dec 4003 = ''4003''" by code_simp
  ultimately show "sc_status (handleMessage E bs c') = ErrorStatus ''sync gateway error 4003: protocol error''"
    by (simp add: handleMessage_def setStatus_def)
qed

subsection \<open>Examples\<close>

definition decoding :: "server_message \<Rightarrow> client_env" where
  "decoding m = sample_env\<lparr>ce_decode := (\<lambda>_. Inr (ts_of (\<lambda>_. JsNull) m))\<rparr>"

definition mine_client :: "awaiting list \<Rightarrow> sync_client" where
  "mine_client ks = sample_client\<lparr>sc_subscribed := [''mine''], sc_last_lsn := Some (LsnOf 5), sc_awaiting := ks\<rparr>"

definition mine_assignment :: bucket_assignment where
  "mine_assignment = todo_assignment\<lparr>ba_rule_id := ''mine''\<rparr>"

lemma decoding_reads: "client_reads (decoding m) W (\<lambda>_. JsNull) m"
  by (simp add: client_reads_def decoding_def)

lemma sample_reads: "gateway_reads (gw_wire (sample_gateway S)) (\<lambda>_. [0]) [''mine''] ''token'' (Some (Num 5))"
  by (simp add: gateway_reads_def sample_gateway_simps js_safe_def PROTOCOL_VERSION_def)

lemma mine_authorized:
  "BucketId ''u:1'' \<in> dom (hm_get (se_authorized (new_session [''mine''] [mine_assignment] (Some l))))"
  by (auto simp: new_session_spec(3) mine_assignment_def todo_assignment_def)

lemma sample_log:
  "log_labelled (log_at (gw_log (sample_gateway S)) mem_view sample_db)"
  "log_at (gw_log (sample_gateway S)) mem_view sample_db (bucket_name (BucketId ''u:1'')) 5 =
     Some \<lparr>so_op = sample_op ''u:1'' 5 ''a'', so_appended_at_unix_secs = unix_now_secs (Some 100)\<rparr>"
  "bucket_id_fits (bucket_name (BucketId ''u:1''))"
  by (simp_all add: sample_gateway_def sample_db_labelled sample_db_at)

theorem token_refresh_rejected_witness:
  "\<exists>w'. handle_client_message (sample_gateway scripted_sqlx) None [0] todo_session (sample_world [] []) =
      (Inr (True, todo_session), w') \<and> w_sent w' = [ErrorMsg 4003 ''protocol error'']"
proof -
  let ?c = "mine_client [AwaitRefresh]" and ?G = "sample_gateway scripted_sqlx"
  have awaiting: "0 < length (sc_awaiting ?c)" "sc_awaiting ?c ! 0 = AwaitRefresh"
    and socket: "sc_ws ?c = Some 0" "0 < length (sc_sockets ?c)" "sk_ready (sc_sockets ?c ! 0) = OPEN"
    using sample_client_run by (simp_all add: mine_client_def)
  have reads: "gateway_reads (gw_wire ?G) (\<lambda>_. [0]) (sc_subscribed ?c) ''token'' (map_option js_Number (sc_last_lsn ?c))"
    using sample_reads by (simp add: mine_client_def)
  have lsn: "rust_lsn (map_option js_Number (sc_last_lsn ?c)) = Some (Some (PgLsn 5))"
    by (simp add: mine_client_def js_safe_def)
  have "to_vec_server (gw_wire ?G) (ErrorMsg 4003 ''protocol error'') = Inr []"
    by (simp add: sample_gateway_simps)
  from token_refresh_rejected [OF awaiting socket reads lsn sends_ok_sample this decoding_reads,
      of sample_tick None todo_session "sample_world [] []"]
  show ?thesis by (simp add: sample_world_def)
qed

theorem client_resume_lossless_witness:
  "undelivered (sample_gateway scripted_sqlx) mem_view todo_session sample_db (BucketId ''u:1'') =
     [sample_op ''u:1'' 5 ''a''] @ undelivered (sample_gateway scripted_sqlx) mem_view
       (new_session [''mine''] [mine_assignment] (Some (PgLsn 5))) sample_db (BucketId ''u:1'')"
proof -
  let ?G = "sample_gateway scripted_sqlx" and ?b = "BucketId ''u:1''" and ?c = "mine_client []"
  let ?d = "delta_for todo_session ?b [sample_op ''u:1'' 5 ''a'']"
  have op: "undelivered ?G mem_view todo_session sample_db ?b = [sample_op ''u:1'' 5 ''a'']" by (rule todo_undelivered)
  have l: "Max (set (map bo_lsn [sample_op ''u:1'' 5 ''a''])) = PgLsn 5" by (simp add: sample_op_def)
  have "to_vec_server (gw_wire ?G) ?d = Inr []" by (simp add: sample_gateway_simps)
  moreover have "lsn_safe ?d" by (simp add: delta_for_def sample_op_def js_safe_def)
  moreover have "gateway_reads (gw_wire ?G) (\<lambda>_. [0]) (sc_subscribed ?c) ''token''
      (map_option js_Number (sc_last_lsn (handleMessage (decoding ?d) [] ?c)))"
    using sample_reads handle_delta_lsn [of "decoding ?d" "[]" _ _ 5 ?c]
    by (simp add: mine_client_def decoding_def delta_for_def sample_op_def)
  moreover have "?b \<in> dom (hm_get (se_authorized (new_session (sc_subscribed ?c) [mine_assignment] (Some (PgLsn 5)))))"
    using mine_authorized by (simp add: mine_client_def)
  ultimately have "[sample_op ''u:1'' 5 ''a''] = [sample_op ''u:1'' 5 ''a''] @
      undelivered ?G mem_view (new_session (sc_subscribed ?c) [mine_assignment] (Some (PgLsn 5))) sample_db ?b"
    using client_resume_lossless [OF sample_log(1,3), of scripted_sqlx todo_session "[]" "decoding ?d" "\<lambda>_. JsNull"
        "\<lambda>_. [0]" ?c "''token''" sample_db "[mine_assignment]", unfolded op l, OF list.distinct(2) _ _ decoding_reads _ refl]
    by blast
  then show ?thesis unfolding op by (simp add: mine_client_def)
qed


end
