(* ===== verification/Local_Apply.thy ===== *)
theory Local_Apply
  imports Sync_Client Effects
begin

section \<open>Applying ops to the local database (\<^verbatim>\<open>entity-sync-pglite: apply.ts\<close>)\<close>

text \<open>
  \<^verbatim>\<open>applyOps\<close> runs one statement per op inside a PGlite transaction. PGlite is the parameter \<open>pglite\<close>; what
  the package relies on, that a transaction whose body throws leaves the database as it was and what the three statements
  do to a table, is the locale \<open>pglite_store\<close>, and \<open>pglite_healthy\<close> adds that nothing fails. Both are interpreted on a store that
  reads the statements' text. \<^verbatim>\<open>JSON.stringify(v)\<close> is the parameter value \<open>JsonText v\<close>. An entity id is taken to be the text of its
  \<^verbatim>\<open>id\<close> column, so that \<^verbatim>\<open>id::text = $1\<close> finds what \<^verbatim>\<open>INSERT\<close> put there.
\<close>

subsection \<open>Statements\<close>

datatype pg_param =
    TextParam string
  | JsonText js_value
  | BytesParam bytes
  | ValueParam js_value
  | LikeParam string js_value string
  | NumberParam nat

record db_error =
  dbe_message :: string
  dbe_code :: "string option"

datatype thrown =
    UnsafeTableName string
  | UnsafeIdentifier string
  | UnrecognizedOp js_value
  | NotAnObject js_value
  | Aborted
  | NotConnected string
  | DatabaseError db_error

text \<open>The character classes of \<^verbatim>\<open>/^[a-zA-Z_][a-zA-Z0-9_]*$/\<close>.\<close>

definition ident_letters :: string where
  "ident_letters = ''abcdefghijklmnopqrstuvwxyzABCDEFGHIJKLMNOPQRSTUVWXYZ''"

fun ident_start :: "char \<Rightarrow> bool" where
  "ident_start c \<longleftrightarrow> c \<in> set ident_letters \<or> c = CHR ''_''"

fun ident_char :: "char \<Rightarrow> bool" where
  "ident_char c \<longleftrightarrow> ident_start c \<or> c \<in> set ''0123456789''"

fun plain_identifier :: "string \<Rightarrow> bool" where
  "plain_identifier [] \<longleftrightarrow> False"
| "plain_identifier (c # cs) \<longleftrightarrow> ident_start c \<and> list_all ident_char cs"

definition dquoted :: "string \<Rightarrow> string" where
  "dquoted name = CHR 0x22 # name @ [CHR 0x22]"

definition sql_identifier :: "string \<Rightarrow> thrown + string" where
  "sql_identifier name = (if plain_identifier name then Inr (dquoted name) else Inl (UnsafeTableName name))"

definition delete_statement :: "string \<Rightarrow> string" where
  "delete_statement table = ''DELETE FROM '' @ table @ '' WHERE id::text = $1''"

definition upsert_statement :: "string \<Rightarrow> string" where
  "upsert_statement table =
     ''INSERT INTO '' @ table @ '' (id, payload) VALUES ($1, $2) '' @
     ''ON CONFLICT (id) DO UPDATE SET payload = EXCLUDED.payload''"

definition crdt_statement :: "string \<Rightarrow> string" where
  "crdt_statement table =
     ''INSERT INTO '' @ table @ '' (id, crdt_state) VALUES ($1, $2) '' @
     ''ON CONFLICT (id) DO UPDATE SET crdt_state = EXCLUDED.crdt_state''"

type_synonym ('tx, 'row) query_fn = "string \<Rightarrow> pg_param list \<Rightarrow> ('tx, thrown, 'row list) action"

record ('db, 'tx, 'row) pglite =
  tx_query :: "('tx, 'row) query_fn"
  pg_transaction :: "('tx, thrown, unit) action \<Rightarrow> ('db, thrown, unit) action"
  pg_query :: "('db, 'row) query_fn"

definition applyUpsert :: "('tx, 'row) query_fn \<Rightarrow> string \<Rightarrow> string \<Rightarrow> js_value \<Rightarrow> ('tx, thrown, unit) action" where
  "applyUpsert query table entityId v = seq (query (upsert_statement table) [TextParam entityId, JsonText v]) (\<lambda>_. ret ())"

definition applyCrdtPatch :: "('tx, 'row) query_fn \<Rightarrow> string \<Rightarrow> string \<Rightarrow> bytes \<Rightarrow> ('tx, thrown, unit) action" where
  "applyCrdtPatch query table entityId patch =
     seq (query (crdt_statement table) [TextParam entityId, BytesParam patch]) (\<lambda>_. ret ())"

text \<open>A value that is neither a known string nor an object makes \<^verbatim>\<open>in\<close> throw; an object with neither key reaches \<^verbatim>\<open>assertNever\<close>.\<close>

fun unknown_op :: "js_value \<Rightarrow> thrown" where
  "unknown_op (JsObject kvs) = UnrecognizedOp (JsObject kvs)"
| "unknown_op (JsArray vs) = UnrecognizedOp (JsArray vs)"
| "unknown_op v = NotAnObject v"

definition applyOne :: "('tx, 'row) query_fn \<Rightarrow> ts_bucket_op \<Rightarrow> ('tx, thrown, unit) action" where
  "applyOne query bucketOp =
     seq (lift_result (sql_identifier (to_entity_type bucketOp))) (\<lambda>table.
     case to_op bucketOp of
       TsDelete \<Rightarrow> seq (query (delete_statement table) [TextParam (to_entity_id bucketOp)]) (\<lambda>_. ret ())
     | TsUpsert v \<Rightarrow> applyUpsert query table (to_entity_id bucketOp) v
     | TsCrdtPatch patch \<Rightarrow> applyCrdtPatch query table (to_entity_id bucketOp) patch
     | TsUnknownOp v \<Rightarrow> throw (unknown_op v))"

definition applyOps :: "('db, 'tx, 'row) pglite \<Rightarrow> ts_bucket_op list \<Rightarrow> ('db, thrown, unit) action" where
  "applyOps P ops = pg_transaction P (for_each (applyOne (tx_query P)) ops)"

subsection \<open>What is sent\<close>

fun applicable :: "ts_bucket_op \<Rightarrow> bool" where
  "applicable op \<longleftrightarrow> plain_identifier (to_entity_type op) \<and> (case to_op op of TsUnknownOp _ \<Rightarrow> False | _ \<Rightarrow> True)"

fun statement_of :: "ts_bucket_op \<Rightarrow> string \<times> pg_param list" where
  "statement_of op =
     (case to_op op of
        TsDelete \<Rightarrow> (delete_statement (dquoted (to_entity_type op)), [TextParam (to_entity_id op)])
      | TsUpsert v \<Rightarrow> (upsert_statement (dquoted (to_entity_type op)), [TextParam (to_entity_id op), JsonText v])
      | TsCrdtPatch p \<Rightarrow> (crdt_statement (dquoted (to_entity_type op)), [TextParam (to_entity_id op), BytesParam p])
      | TsUnknownOp v \<Rightarrow> ([], []))"

fun traced_query :: "('tx, 'row) query_fn \<Rightarrow> ('tx \<times> (string \<times> pg_param list) list, 'row) query_fn" where
  "traced_query query sql params (tx, sent) = (case query sql params tx of (r, tx') \<Rightarrow> (r, tx', sent @ [(sql, params)]))"

declare applicable.simps [simp del] statement_of.simps [simp del]

lemma applyOne_query:
  "applicable op \<Longrightarrow> applyOne query op = seq (case_prod query (statement_of op)) (\<lambda>_. ret ())"
  by (auto simp: applicable.simps statement_of.simps applyOne_def sql_identifier_def applyUpsert_def applyCrdtPatch_def seq_def fun_eq_iff split: ts_op.splits)

lemma applyOne_refused: "\<not> applicable op \<Longrightarrow> \<exists>e. applyOne query op = throw e"
  by (auto simp: applicable.simps applyOne_def sql_identifier_def seq_def fun_eq_iff split: ts_op.splits if_splits)

text \<open>What a batch sends. Applied to any database, the statements sent are those of a prefix of the batch, in order,
  one per op; every one of these ops names a plain identifier as its table, which stands quoted in one
  of three fixed texts, and its id and value are bound parameters. An op with another table name, or of an unknown kind,
  ends the batch with an error before anything is sent for it.\<close>

theorem apply_statements:
  assumes "for_each (applyOne (traced_query query)) ops (tx, sent) = (r, tx', sent')"
  shows "\<exists>n \<le> length ops. sent' = sent @ map statement_of (take n ops) \<and> filter applicable (take n ops) = take n ops \<and>
    (r = Inr () \<longrightarrow> n = length ops)"
  using assms
proof (induction ops arbitrary: tx sent)
  case Nil
  then show ?case by simp
next
  case (Cons op ops)
  show ?case
  proof (cases "applicable op")
    case False
    then obtain e where "applyOne (traced_query query) op = throw e" using applyOne_refused by blast
    with Cons.prems show ?thesis by (intro exI [of _ 0]) (auto simp: seq_def)
  next
    case True
    obtain sql params where st: "statement_of op = (sql, params)" by (meson surj_pair)
    obtain q tx1 where q: "query sql params tx = (q, tx1)" by (meson surj_pair)
    show ?thesis
    proof (cases q)
      case (Inl e)
      with Cons.prems True st q show ?thesis by (intro exI [of _ 1]) (auto simp: applyOne_query seq_def)
    next
      case (Inr rows)
      with Cons.prems True st q have "for_each (applyOne (traced_query query)) ops (tx1, sent @ [statement_of op]) = (r, tx', sent')"
        by (simp add: applyOne_query seq_def)
      from Cons.IH [OF this] obtain n where "n \<le> length ops"
        "sent' = sent @ map statement_of (take (Suc n) (op # ops))" "filter applicable (take n ops) = take n ops"
        "r = Inr () \<longrightarrow> n = length ops" by auto
      then show ?thesis using True by (intro exI [of _ "Suc n"]) simp
    qed
  qed
qed

subsection \<open>What is stored\<close>

record local_row =
  lr_payload :: "js_value option"
  lr_crdt_state :: "bytes option"

type_synonym local_tables = "string \<Rightarrow> string \<Rightarrow> local_row option"

definition set_row :: "string \<Rightarrow> string \<Rightarrow> local_row option \<Rightarrow> local_tables \<Rightarrow> local_tables" where
  "set_row table i r T = T(table := (T table)(i := r))"

definition row_or_new :: "local_row option \<Rightarrow> local_row" where
  "row_or_new r = (case r of None \<Rightarrow> \<lparr>lr_payload = None, lr_crdt_state = None\<rparr> | Some x \<Rightarrow> x)"

fun store_op :: "ts_op \<Rightarrow> local_row option \<Rightarrow> local_row option" where
  "store_op (TsUpsert v) r = Some ((row_or_new r)\<lparr>lr_payload := Some v\<rparr>)"
| "store_op (TsCrdtPatch p) r = Some ((row_or_new r)\<lparr>lr_crdt_state := Some p\<rparr>)"
| "store_op TsDelete r = None"
| "store_op (TsUnknownOp v) r = r"

definition local_apply :: "ts_bucket_op \<Rightarrow> local_tables \<Rightarrow> local_tables" where
  "local_apply op T =
     set_row (to_entity_type op) (to_entity_id op) (store_op (to_op op) (T (to_entity_type op) (to_entity_id op))) T"

text \<open>What is documented of PGlite and of the three statements: \<open>opened db\<close> is the state in which the body of a
  transaction starts and \<open>tables\<close> the contents of the tables in a state; a row of a query's result is \<open>row_of\<close> of the stored row.\<close>

locale pglite_store =
  fixes P :: "('db, 'tx, 'row) pglite" and opened :: "'db \<Rightarrow> 'tx" and tables :: "'tx \<Rightarrow> local_tables"
  assumes rolled_back: "body (opened db) = (Inl e, tx) \<Longrightarrow> pg_transaction P body db = (Inl e, db)"
    and committed: "body (opened db) = (Inr (), tx) \<Longrightarrow>
      (\<exists>e. pg_transaction P body db = (Inl (DatabaseError e), db)) \<or>
      (\<exists>db'. pg_transaction P body db = (Inr (), db') \<and> tables (opened db') = tables tx)"
    and deleted: "plain_identifier t \<Longrightarrow>
      tx_query P (delete_statement (dquoted t)) [TextParam i] tx = (Inr rows, tx') \<Longrightarrow>
      tables tx' = set_row t i None (tables tx)"
    and upserted: "plain_identifier t \<Longrightarrow>
      tx_query P (upsert_statement (dquoted t)) [TextParam i, JsonText v] tx = (Inr rows, tx') \<Longrightarrow>
      tables tx' = set_row t i (Some ((row_or_new (tables tx t i))\<lparr>lr_payload := Some v\<rparr>)) (tables tx)"
    and patched: "plain_identifier t \<Longrightarrow>
      tx_query P (crdt_statement (dquoted t)) [TextParam i, BytesParam p] tx = (Inr rows, tx') \<Longrightarrow>
      tables tx' = set_row t i (Some ((row_or_new (tables tx t i))\<lparr>lr_crdt_state := Some p\<rparr>)) (tables tx)"
begin

lemma apply_one_tables:
  assumes "applyOne (tx_query P) op tx = (Inr (), tx')"
  shows "applicable op \<and> tables tx' = local_apply op (tables tx)"
proof -
  have ok: "applicable op"
  proof (rule ccontr)
    assume "\<not> applicable op"
    then obtain e where "applyOne (tx_query P) op = throw e" using applyOne_refused by blast
    with assms show False by simp
  qed
  then obtain rows where run: "case_prod (tx_query P) (statement_of op) tx = (Inr rows, tx')" and t: "plain_identifier (to_entity_type op)"
    using assms by (auto simp: applyOne_query result_simps applicable.simps)
  show ?thesis
  proof (cases "to_op op")
    case (TsUpsert v)
    with run show ?thesis using upserted [OF t] ok by (simp add: local_apply_def statement_of.simps)
  next
    case TsDelete
    with run show ?thesis using deleted [OF t] ok by (simp add: local_apply_def statement_of.simps)
  next
    case (TsCrdtPatch p)
    with run show ?thesis using patched [OF t] ok by (simp add: local_apply_def statement_of.simps)
  next
    case (TsUnknownOp v)
    with ok show ?thesis by (simp add: applicable.simps)
  qed
qed

lemma apply_all_tables:
  "for_each (applyOne (tx_query P)) ops tx = (Inr (), tx') \<Longrightarrow>
   list_all applicable ops \<and> tables tx' = fold local_apply ops (tables tx)"
proof (induction ops arbitrary: tx)
  case Nil
  then show ?case by simp
next
  case (Cons op ops)
  then obtain tx1 where "applyOne (tx_query P) op tx = (Inr (), tx1)" "for_each (applyOne (tx_query P)) ops tx1 = (Inr (), tx')"
    by (auto simp: result_simps)
  with Cons.IH apply_one_tables [of op tx tx1] show ?case by simp
qed

lemma apply_ops_cases:
  "(\<exists>e. applyOps P ops db = (Inl e, db)) \<or>
   (\<exists>db'. applyOps P ops db = (Inr (), db') \<and> list_all applicable ops \<and>
      tables (opened db') = fold local_apply ops (tables (opened db)))"
proof -
  obtain r tx where run: "for_each (applyOne (tx_query P)) ops (opened db) = (r, tx)" by (meson surj_pair)
  show ?thesis
  proof (cases r)
    case (Inl e)
    then show ?thesis using rolled_back run unfolding applyOps_def by blast
  next
    case (Inr u)
    then have run': "for_each (applyOne (tx_query P)) ops (opened db) = (Inr (), tx)" using run by simp
    from committed [of "for_each (applyOne (tx_query P)) ops", OF this] apply_all_tables [OF this] show ?thesis unfolding applyOps_def by auto
  qed
qed

end

locale pglite_healthy = pglite_store +
  assumes query_ok: "\<exists>rows tx'. tx_query P sql params tx = (Inr rows, tx')"
    and commit_ok: "body (opened db) = (Inr (), tx) \<Longrightarrow> \<exists>db'. pg_transaction P body db = (Inr (), db')"
begin

lemma apply_all_runs:
  "list_all applicable ops \<Longrightarrow> \<exists>tx'. for_each (applyOne (tx_query P)) ops tx = (Inr (), tx')"
proof (induction ops arbitrary: tx)
  case Nil
  then show ?case by simp
next
  case (Cons op ops)
  obtain rows tx1 where "case_prod (tx_query P) (statement_of op) tx = (Inr rows, tx1)"
    using query_ok [of "fst (statement_of op)" "snd (statement_of op)" tx] by (auto simp: case_prod_unfold)
  then have "applyOne (tx_query P) op tx = (Inr (), tx1)" using Cons.prems by (simp add: applyOne_query seq_def)
  with Cons show ?case by (simp add: seq_def)
qed

lemma apply_ops_run:
  assumes "list_all applicable ops"
  shows "\<exists>db'. applyOps P ops db = (Inr (), db') \<and> tables (opened db') = fold local_apply ops (tables (opened db))"
proof -
  obtain tx where "for_each (applyOne (tx_query P)) ops (opened db) = (Inr (), tx)" using apply_all_runs [OF assms] by blast
  from commit_ok [of "for_each (applyOne (tx_query P)) ops", OF this] show ?thesis using apply_ops_cases [of ops db] unfolding applyOps_def by auto
qed

end

text \<open>C12: a batch is applied completely or not at all. Whatever the database does and whatever the ops are, either an error
  is thrown and the database is what it was, or the tables hold the result of the ops in order, and
  then every op was of a known kind for a plain table name.\<close>

theorem apply_ops_atomic:
  assumes "pglite_store P opened tables"
  shows "case applyOps P ops db of
      (Inl e, db') \<Rightarrow> db' = db
    | (Inr _, db') \<Rightarrow> filter applicable ops = ops \<and> tables (opened db') = fold local_apply ops (tables (opened db))"
  using pglite_store.apply_ops_cases [OF assms, of ops db]
  by (auto simp: list_all_iff split: prod.splits sum.splits)

subsection \<open>Applying a batch again\<close>

definition overwrite :: "js_value option \<Rightarrow> bytes option \<Rightarrow> local_row \<Rightarrow> local_row" where
  "overwrite p c r =
     \<lparr>lr_payload = (case p of None \<Rightarrow> lr_payload r | Some v \<Rightarrow> Some v),
      lr_crdt_state = (case c of None \<Rightarrow> lr_crdt_state r | Some b \<Rightarrow> Some b)\<rparr>"

text \<open>Any sequence of ops on a row leaves it, replaces it by a fixed value, or overwrites columns of it.\<close>

definition row_map :: "(local_row option \<Rightarrow> local_row option) \<Rightarrow> bool" where
  "row_map f \<longleftrightarrow> f = id \<or> (\<exists>x. f = (\<lambda>_. x)) \<or> (\<exists>p c. f = (\<lambda>r. Some (overwrite p c (row_or_new r))))"

lemma overwrite_overwrite:
  "overwrite p c (overwrite p' c' r) = overwrite (case p of None \<Rightarrow> p' | _ \<Rightarrow> p) (case c of None \<Rightarrow> c' | _ \<Rightarrow> c) r"
  by (simp add: overwrite_def split: option.split)

lemma row_map_comp:
  assumes "row_map f" and "row_map g"
  shows "row_map (f \<circ> g)"
proof -
  have "(\<lambda>r. Some (overwrite p c (row_or_new r))) \<circ> (\<lambda>r. Some (overwrite p' c' (row_or_new r))) =
      (\<lambda>r. Some (overwrite (case p of None \<Rightarrow> p' | _ \<Rightarrow> p) (case c of None \<Rightarrow> c' | _ \<Rightarrow> c) (row_or_new r)))" for p c p' c'
    by (simp add: fun_eq_iff row_or_new_def [of "Some _"] overwrite_overwrite)
  moreover have "f \<circ> (\<lambda>_. x) = (\<lambda>_. f x)" "(\<lambda>_. x) \<circ> g = (\<lambda>_. x)" for x by (simp_all add: comp_def)
  ultimately show ?thesis using assms unfolding row_map_def by (elim disjE exE) (simp_all, blast+)
qed

lemma row_map_store: "row_map (store_op k)"
proof (cases k)
  case (TsUpsert v)
  have "store_op (TsUpsert v) = (\<lambda>r. Some (overwrite (Some v) None (row_or_new r)))" by (simp add: fun_eq_iff overwrite_def)
  with TsUpsert show ?thesis unfolding row_map_def by blast
next
  case (TsCrdtPatch b)
  have "store_op (TsCrdtPatch b) = (\<lambda>r. Some (overwrite None (Some b) (row_or_new r)))" by (simp add: fun_eq_iff overwrite_def)
  with TsCrdtPatch show ?thesis unfolding row_map_def by blast
next
  case TsDelete
  have "store_op TsDelete = (\<lambda>_. None)" by (simp add: fun_eq_iff)
  with TsDelete show ?thesis unfolding row_map_def by blast
next
  case (TsUnknownOp v)
  then have "store_op k = id" by (simp add: fun_eq_iff)
  then show ?thesis unfolding row_map_def by blast
qed

lemma row_map_fold: "row_map (fold store_op ks)"
proof (induction ks)
  case Nil
  have "fold store_op [] = id" by simp
  then show ?case unfolding row_map_def by blast
next
  case (Cons k ks)
  have "fold store_op (k # ks) = fold store_op ks \<circ> store_op k" by simp
  then show ?case using row_map_comp [OF Cons.IH row_map_store] by (simp only:)
qed

lemma store_ops_idem: "fold store_op ks (fold store_op ks r) = fold store_op ks r"
proof -
  have "f (f r) = f r" if "row_map f" for f
    using that unfolding row_map_def
    by (elim disjE exE) (simp_all add: row_or_new_def [of "Some _"] overwrite_overwrite split: option.split)
  then show ?thesis using row_map_fold by blast
qed

definition ops_on :: "string \<Rightarrow> string \<Rightarrow> ts_bucket_op list \<Rightarrow> ts_op list" where
  "ops_on t i ops = map to_op (filter (\<lambda>op. to_entity_type op = t \<and> to_entity_id op = i) ops)"

lemma fold_local_apply: "fold local_apply ops T t i = fold store_op (ops_on t i ops) (T t i)"
  by (induction ops arbitrary: T) (auto simp: ops_on_def local_apply_def set_row_def)

lemma local_apply_idem: "fold local_apply ops (fold local_apply ops T) = fold local_apply ops T"
  by (intro ext) (simp add: fold_local_apply store_ops_idem)

text \<open>On a database that does not fail, a batch of ops of known kinds for plain tables is applied, and a batch applied again,
  as a redelivery after a reconnection or a second subscriber of the transport does, leaves the tables as they were.\<close>

theorem apply_again_harmless:
  assumes "pglite_healthy P opened tables" and "filter applicable ops = ops"
  shows "\<exists>db1 db2. applyOps P ops db = (Inr (), db1) \<and> applyOps P ops db1 = (Inr (), db2) \<and>
    tables (opened db1) = fold local_apply ops (tables (opened db)) \<and> tables (opened db2) = tables (opened db1)"
proof -
  have ok: "list_all applicable ops" using assms(2) by (simp add: filter_id_conv list_all_iff)
  from pglite_healthy.apply_ops_run [OF assms(1) ok, of db] obtain db1 where one: "applyOps P ops db = (Inr (), db1)"
    "tables (opened db1) = fold local_apply ops (tables (opened db))" by blast
  from pglite_healthy.apply_ops_run [OF assms(1) ok, of db1] obtain db2 where two: "applyOps P ops db1 = (Inr (), db2)"
    "tables (opened db2) = fold local_apply ops (tables (opened db1))" by blast
  with one show ?thesis by (simp add: local_apply_idem)
qed

subsection \<open>A store that reads the statements\<close>

definition named_table :: "string \<Rightarrow> string" where
  "named_table sql = takeWhile (\<lambda>c. c \<noteq> CHR 0x22) (drop 13 sql)"

fun mem_query :: "(local_tables, 'row) query_fn" where
  "mem_query sql [TextParam i] T =
     (Inr [], if sql = delete_statement (dquoted (named_table sql)) then set_row (named_table sql) i None T else T)"
| "mem_query sql [TextParam i, JsonText v] T =
     (Inr [], if sql = upsert_statement (dquoted (named_table sql))
              then set_row (named_table sql) i (Some ((row_or_new (T (named_table sql) i))\<lparr>lr_payload := Some v\<rparr>)) T else T)"
| "mem_query sql [TextParam i, BytesParam p] T =
     (Inr [], if sql = crdt_statement (dquoted (named_table sql))
              then set_row (named_table sql) i (Some ((row_or_new (T (named_table sql) i))\<lparr>lr_crdt_state := Some p\<rparr>)) T else T)"
| "mem_query sql params T = (Inr [], T)"

definition mem_transaction :: "(local_tables, thrown, unit) action \<Rightarrow> (local_tables, thrown, unit) action" where
  "mem_transaction body T = (case body T of (Inl e, _) \<Rightarrow> (Inl e, T) | (Inr _, T') \<Rightarrow> (Inr (), T'))"

definition mem_pglite :: "(local_tables, 'row) query_fn \<Rightarrow> (local_tables, local_tables, 'row) pglite" where
  "mem_pglite q = \<lparr>tx_query = mem_query, pg_transaction = mem_transaction, pg_query = q\<rparr>"

lemma named_table_plain:
  assumes "plain_identifier t"
  shows "takeWhile (\<lambda>c. c \<noteq> CHR 0x22) (t @ CHR 0x22 # rest) = t"
proof -
  have "\<not> ident_char (CHR 0x22)" by code_simp
  moreover have "list_all ident_char t" using assms by (cases t) auto
  ultimately have "c \<noteq> CHR 0x22" if "c \<in> set t" for c using that unfolding list_all_iff by blast
  then show ?thesis by (simp add: takeWhile_append2 del: ident_char.simps)
qed

lemma named_tables:
  assumes "plain_identifier t"
  shows "named_table (delete_statement (dquoted t)) = t" "named_table (upsert_statement (dquoted t)) = t"
    "named_table (crdt_statement (dquoted t)) = t"
  by (simp_all add: named_table_def delete_statement_def upsert_statement_def crdt_statement_def dquoted_def
      named_table_plain [OF assms])

interpretation mem_pg: pglite_healthy "mem_pglite q" id id for q :: "(local_tables, 'row) query_fn"
proof
  show "\<exists>rows tx'. tx_query (mem_pglite q) sql params tx = (Inr rows, tx')" for sql params tx
    unfolding mem_pglite_def pglite.simps by (cases "(sql, params, tx)" rule: mem_query.cases) auto
qed (auto simp: mem_pglite_def mem_transaction_def named_tables)

lemma mem_pglite_ok: "pglite_healthy (mem_pglite q) id id" "pglite_store (mem_pglite q) id id"
  by (rule mem_pg.pglite_healthy_axioms, rule mem_pg.pglite_store_axioms)

definition sample_pglite :: "(local_tables, local_tables, unit) pglite" where
  "sample_pglite = mem_pglite (\<lambda>_ _. ret [])"

lemma sample_pglite_ok: "pglite_healthy sample_pglite id id" "pglite_store sample_pglite id id"
  unfolding sample_pglite_def by (rule mem_pglite_ok)+

definition sample_batch :: "ts_bucket_op list" where
  "sample_batch =
     [\<lparr>to_lsn = 5, to_bucket_id = ''u'', to_entity_type = ''todos'', to_entity_id = ''7'', to_op = TsUpsert (JsString ''a'')\<rparr>,
      \<lparr>to_lsn = 6, to_bucket_id = ''u'', to_entity_type = ''todos'', to_entity_id = ''8'', to_op = TsDelete\<rparr>]"

lemma sample_batch_applicable: "filter applicable sample_batch = sample_batch"
  by code_simp

theorem apply_ops_atomic_witness:
  "case applyOps sample_pglite sample_batch (\<lambda>_ _. None) of
     (Inl e, db') \<Rightarrow> False
   | (Inr _, db') \<Rightarrow> db' ''todos'' ''7'' = Some \<lparr>lr_payload = Some (JsString ''a''), lr_crdt_state = None\<rparr>"
proof -
  have "list_all applicable sample_batch" using sample_batch_applicable by (simp add: filter_id_conv list_all_iff)
  from pglite_healthy.apply_ops_run [OF sample_pglite_ok(1) this]
  obtain db' where "applyOps sample_pglite sample_batch (\<lambda>_ _. None) = (Inr (), db')" by blast
  then show ?thesis using apply_ops_atomic [OF sample_pglite_ok(2), where ops = sample_batch and db = "\<lambda>_ _. None"]
    by (simp add: sample_batch_def local_apply_def set_row_def row_or_new_def)
qed

theorem apply_again_harmless_witness:
  "\<exists>db1 db2. applyOps sample_pglite sample_batch (\<lambda>_ _. None) = (Inr (), db1) \<and>
     applyOps sample_pglite sample_batch db1 = (Inr (), db2) \<and> db2 = db1"
  using apply_again_harmless [OF sample_pglite_ok(1) sample_batch_applicable, of "\<lambda>_ _. None"] unfolding id_apply by blast

theorem apply_statements_witness:
  "case for_each (applyOne (traced_query (tx_query sample_pglite))) sample_batch (\<lambda>_ _. None, []) of
     (r, tx, sent) \<Rightarrow> map snd sent = [[TextParam ''7'', JsonText (JsString ''a'')], [TextParam ''8'']]"
proof -
  let ?q = "traced_query (tx_query sample_pglite)"
  obtain r tx sent where run: "for_each (applyOne ?q) sample_batch (\<lambda>_ _. None, []) = (r, tx, sent)"
    by (metis prod_cases3)
  have "r = Inr ()"
    using run by (auto simp: sample_pglite_def mem_pglite_def sample_batch_def seq_def applyOne_query applicable.simps statement_of.simps ident_letters_def)
  with apply_statements [OF run] have "sent = map statement_of sample_batch" by auto
  moreover have "map snd (map statement_of sample_batch) = [[TextParam ''7'', JsonText (JsString ''a'')], [TextParam ''8'']]"
    by (simp add: sample_batch_def statement_of.simps)
  ultimately show ?thesis unfolding run by simp
qed

end
