(* ===== verification/Pglite_Extension.thy ===== *)
theory Pglite_Extension
  imports Local_Apply Client_Properties
begin

section \<open>The PGlite extension (\<^verbatim>\<open>entity-sync-pglite: extension.ts\<close>)\<close>

text \<open>
  The extension owns a client, registers one delta handler and gives the application the namespace \<^verbatim>\<open>db.sync\<close>. The
  handler calls \<^verbatim>\<open>applyOps\<close> without awaiting it; PGlite runs the transactions it is asked for one at a time
  and in the order of the requests, so the batches not yet run are the queue \<open>ex_pending\<close> and running the first one is an event of
  its own. A batch that fails is gone: nothing handles the rejected promise.
\<close>

subsection \<open>State and operations\<close>

record 'db extension =
  ex_paused :: bool
  ex_buckets :: "string list"
  ex_client :: sync_client
  ex_pending :: "ts_bucket_op list list"
  ex_db :: 'db

definition EXT_HANDLER :: nat where
  "EXT_HANDLER = 0"

definition extension_setup :: "'db \<Rightarrow> 'db extension" where
  "extension_setup pg =
     \<lparr>ex_paused = False, ex_buckets = [], ex_client = onDelta EXT_HANDLER new_client, ex_pending = [], ex_db = pg\<rparr>"

fun delta_of :: "nat \<Rightarrow> client_output \<Rightarrow> delta list" where
  "delta_of h (DeltaCallback h' d) = (if h' = h then [d] else [])"
| "delta_of h _ = []"

text \<open>The deltas with which a step of the client has called handler \<open>h\<close>.\<close>

definition calls_of :: "nat \<Rightarrow> sync_client \<Rightarrow> sync_client \<Rightarrow> delta list" where
  "calls_of h c c' = concat (map (delta_of h) (drop (length (sc_log c)) (sc_log c')))"

definition on_ext_delta :: "delta \<Rightarrow> 'db extension \<Rightarrow> 'db extension" where
  "on_ext_delta d x = (if ex_paused x then x else x\<lparr>ex_pending := ex_pending x @ [de_ops d]\<rparr>)"

definition with_client :: "sync_client \<Rightarrow> 'db extension \<Rightarrow> 'db extension" where
  "with_client c' x = fold on_ext_delta (calls_of EXT_HANDLER (ex_client x) c') (x\<lparr>ex_client := c'\<rparr>)"

definition subscribeBucket :: "string \<Rightarrow> string option \<Rightarrow> 'db extension \<Rightarrow> 'db extension" where
  "subscribeBucket bucket resumeLsn x =
     (let x = x\<lparr>ex_buckets := (if bucket \<in> set (ex_buckets x) then ex_buckets x else ex_buckets x @ [bucket])\<rparr> in
      with_client (client_subscribe (ex_buckets x) resumeLsn (ex_client x)) x)"

definition ext_pause :: "'db extension \<Rightarrow> 'db extension" where
  "ext_pause x = x\<lparr>ex_paused := True\<rparr>"

definition ext_resume :: "'db extension \<Rightarrow> 'db extension" where
  "ext_resume x = x\<lparr>ex_paused := False\<rparr>"

definition ext_close :: "'db extension \<Rightarrow> 'db extension" where
  "ext_close x = with_client (client_disconnect (ex_client x)) x"

definition run_transaction :: "('db, 'tx, 'row) pglite \<Rightarrow> 'db extension \<Rightarrow> 'db extension" where
  "run_transaction P x =
     (case ex_pending x of
        [] \<Rightarrow> x
      | ops # rest \<Rightarrow> x\<lparr>ex_pending := rest, ex_db := snd (applyOps P ops (ex_db x))\<rparr>)"

datatype ext_event =
    ExtSubscribe string "string option"
  | ExtPause
  | ExtResume
  | ExtClose
  | ExtClient tick client_event
  | ExtTransaction

fun ext_enabled :: "'db extension \<Rightarrow> ext_event \<Rightarrow> bool" where
  "ext_enabled x (ExtClient t ev) \<longleftrightarrow> \<not> api_event ev \<and> enabled (ex_client x) ev"
| "ext_enabled x _ \<longleftrightarrow> True"

fun ext_step :: "client_env \<Rightarrow> ('db, 'tx, 'row) pglite \<Rightarrow> ext_event \<Rightarrow> 'db extension \<Rightarrow> 'db extension" where
  "ext_step E P (ExtSubscribe bucket resumeLsn) x = subscribeBucket bucket resumeLsn x"
| "ext_step E P ExtPause x = ext_pause x"
| "ext_step E P ExtResume x = ext_resume x"
| "ext_step E P ExtClose x = ext_close x"
| "ext_step E P (ExtClient t ev) x = with_client (client_step E t ev (ex_client x)) x"
| "ext_step E P ExtTransaction x = run_transaction P x"

fun ext_run :: "client_env \<Rightarrow> ('db, 'tx, 'row) pglite \<Rightarrow> ext_event list \<Rightarrow> 'db extension \<Rightarrow> 'db extension option" where
  "ext_run E P [] x = Some x"
| "ext_run E P (ev # evs) x = (if ext_enabled x ev then ext_run E P evs (ext_step E P ev x) else None)"

text \<open>The batches taken in during a run: those of the deltas whose handler call found the extension not paused.\<close>

fun client_after :: "client_env \<Rightarrow> ext_event \<Rightarrow> 'db extension \<Rightarrow> sync_client" where
  "client_after E (ExtClient t ev) x = client_step E t ev (ex_client x)"
| "client_after E _ x = ex_client x"

fun taken_in :: "client_env \<Rightarrow> ('db, 'tx, 'row) pglite \<Rightarrow> ext_event list \<Rightarrow> 'db extension \<Rightarrow> ts_bucket_op list list" where
  "taken_in E P [] x = []"
| "taken_in E P (ev # evs) x =
     (if ex_paused x then [] else map de_ops (calls_of EXT_HANDLER (ex_client x) (client_after E ev x))) @
     taken_in E P evs (ext_step E P ev x)"

subsection \<open>Deltas reach the tables in order\<close>

lemma fold_on_ext_delta:
  "fold on_ext_delta ds x = (if ex_paused x then x else x\<lparr>ex_pending := ex_pending x @ map de_ops ds\<rparr>)"
  by (induction ds arbitrary: x) (simp_all add: on_ext_delta_def)

lemma subscribe_no_calls: "calls_of h c (client_subscribe buckets lsn c) = []"
  by (simp add: calls_of_def client_subscribe_def client_connect_def ask_token_def setStatus_def Let_def split: option.split)

lemma disconnect_no_calls: "calls_of h c (client_disconnect c) = []"
  by (simp add: calls_of_def client_disconnect_def clear_timeout_def clearRefreshTimer_def update_socket_def setStatus_def Let_def
      split: option.split prod.split)

lemma with_client_fields [simp]:
  "ex_db (with_client c x) = ex_db x" "ex_client (with_client c x) = c" "ex_buckets (with_client c x) = ex_buckets x"
  "ex_paused (with_client c x) = ex_paused x"
  "ex_pending (with_client c x) =
     ex_pending x @ (if ex_paused x then [] else map de_ops (calls_of EXT_HANDLER (ex_client x) c))"
  by (simp_all add: with_client_def fold_on_ext_delta)

definition settled_tables :: "('db \<Rightarrow> local_tables) \<Rightarrow> 'db extension \<Rightarrow> local_tables" where
  "settled_tables tables x = fold local_apply (concat (ex_pending x)) (tables (ex_db x))"

lemma ext_step_settled:
  assumes "pglite_healthy P opened tables" and "list_all (list_all applicable) (ex_pending x)"
  shows "settled_tables (\<lambda>d. tables (opened d)) (ext_step E P ev x) =
    fold local_apply (concat (taken_in E P [ev] x)) (settled_tables (\<lambda>d. tables (opened d)) x) \<and>
    ex_pending (ext_step E P ev x) =
      (if ev = ExtTransaction then tl (ex_pending x) else ex_pending x @ taken_in E P [ev] x)"
proof (cases ev)
  case ExtTransaction
  show ?thesis
  proof (cases "ex_pending x")
    case Nil
    with ExtTransaction show ?thesis by (simp add: run_transaction_def calls_of_def)
  next
    case (Cons ops rest)
    with assms(2) have "list_all applicable ops" by simp
    from pglite_healthy.apply_ops_run [OF assms(1) this, of "ex_db x"]
    show ?thesis using Cons ExtTransaction by (auto simp: run_transaction_def settled_tables_def calls_of_def)
  qed
qed (auto simp: settled_tables_def subscribeBucket_def ext_pause_def ext_resume_def ext_close_def calls_of_def Let_def
  subscribe_no_calls [unfolded calls_of_def] disconnect_no_calls [unfolded calls_of_def])

lemma ext_run_settled:
  assumes "pglite_healthy P opened tables" and "ext_run E P evs x = Some x'"
    and "list_all (list_all applicable) (ex_pending x)" and "list_all (list_all applicable) (taken_in E P evs x)"
  shows "settled_tables (\<lambda>d. tables (opened d)) x' =
    fold local_apply (concat (taken_in E P evs x)) (settled_tables (\<lambda>d. tables (opened d)) x)"
  using assms(2-4)
proof (induction evs arbitrary: x)
  case Nil
  then show ?case by simp
next
  case (Cons ev evs)
  let ?x = "ext_step E P ev x"
  from Cons.prems have run: "ext_run E P evs ?x = Some x'" by (simp split: if_splits)
  have now: "list_all (list_all applicable) (taken_in E P [ev] x)" and rest: "list_all (list_all applicable) (taken_in E P evs ?x)"
    using Cons.prems(3) by simp_all
  note step = ext_step_settled [OF assms(1) Cons.prems(2), of E ev]
  have "list_all (list_all applicable) (ex_pending ?x)"
    using step Cons.prems(2) now by (cases "ex_pending x") (auto split: if_splits)
  from Cons.IH [OF run this rest] step show ?case by simp
qed



subsection \<open>What does not reach the tables\<close>

text \<open>A delta that arrives while the extension is paused is lost. The client still records its LSN and acknowledges it to the
  gateway, nothing is queued for the database, and resuming does not bring it back: the gateway considers it delivered.\<close>

theorem paused_delta_lost:
  fixes t :: tick and P :: "('db, 'tx, 'row) pglite"
  assumes "ex_paused x" and "ce_decode E data = Inr (TsDelta bucket ops lsn)" and "ce_delta_throws E = (\<lambda>_ _. False)"
    and "sc_ws (ex_client x) = Some i" and "i < length (sc_sockets (ex_client x))"
    and "sk_ready (sc_sockets (ex_client x) ! i) = OPEN"
  defines "x' \<equiv> ext_step E P ExtResume (ext_step E P (ExtClient t (SocketMessage i data)) x)"
  shows "ex_pending x' = ex_pending x \<and> ex_db x' = ex_db x \<and> \<not> ex_paused x' \<and>
    sc_last_lsn (ex_client x') = Some (LsnOf lsn) \<and>
    sk_frames (sc_sockets (ex_client x') ! i) = sk_frames (sc_sockets (ex_client x) ! i) @ [TsAck lsn]"
proof -
  have called: "call_handlers (\<lambda>_ _. False) d hs = (hs, True)" for d :: delta and hs by (induction hs) simp_all
  show ?thesis using assms(1,2,4-6)
    by (simp add: x'_def ext_resume_def handleMessage_def on_delta_def assms(3) called client_send_def ws_open_def update_socket_def
        setStatus_def Let_def)
qed

lemma client_step_snapshot_handlers:
  "\<not> api_event ev \<Longrightarrow> sc_snapshot_handlers (client_step E t ev c) = sc_snapshot_handlers c"
  by (cases ev) (auto simp: client_defs Let_def split: option.split sum.split prod.split awaiting.split timer_callback.split ts_server_message.split)

lemma ext_step_snapshot_handlers:
  "ext_enabled x ev \<Longrightarrow> sc_snapshot_handlers (ex_client (ext_step E P ev x)) = sc_snapshot_handlers (ex_client x)"
  by (cases ev) (auto simp: subscribeBucket_def ext_pause_def ext_resume_def ext_close_def run_transaction_def client_defs Let_def
    client_step_snapshot_handlers split: option.split list.split prod.split)

lemma ext_run_snapshot_handlers:
  "ext_run E P evs x = Some x' \<Longrightarrow> sc_snapshot_handlers (ex_client x') = sc_snapshot_handlers (ex_client x)"
  by (induction evs arbitrary: x) (auto simp: ext_step_snapshot_handlers split: if_splits)

text \<open>The rows of a snapshot never reach the local database. No handler is registered for them: in every state of the
  extension, a snapshot batch changes nothing at all, so the tables of a first subscription hold only what later deltas bring.\<close>

theorem snapshot_rows_ignored:
  assumes "ext_run E P evs (extension_setup db) = Some x" and "ce_decode E data = Inr (TsSnapshotBatch bucket rows offset)"
  shows "ext_step E P (ExtClient t (SocketMessage i data)) x = x"
proof -
  have "sc_snapshot_handlers (ex_client x) = []"
    using ext_run_snapshot_handlers [OF assms(1)] by (simp add: extension_setup_def onDelta_def new_client_def)
  then have "handleMessage E data (ex_client x) = ex_client x" using assms(2) by (simp add: handleMessage_def on_snapshot_batch_def)
  then show ?thesis by (simp add: with_client_def calls_of_def)
qed

subsection \<open>Examples\<close>

definition delta_env :: client_env where
  "delta_env = sample_env\<lparr>ce_decode := (\<lambda>data. if data = [] then Inr (TsDelta ''u'' sample_batch 6)
                                              else Inr (TsSnapshotBatch ''u'' [JsNull] 0))\<rparr>"

definition opening_events :: "ext_event list" where
  "opening_events = [ExtSubscribe ''u'' None, ExtClient sample_tick (TokenSettled 0 (Inr ''token'')),
     ExtClient sample_tick (SocketOpened 0)]"

definition opened_extension :: "local_tables extension" where
  "opened_extension = the (ext_run delta_env sample_pglite opening_events (extension_setup (\<lambda>_ _. None)))"

lemma opened_extension:
  "ext_run delta_env sample_pglite opening_events (extension_setup (\<lambda>_ _. None)) = Some opened_extension \<and>
   sc_sockets (ex_client opened_extension) =
     [\<lparr>sk_ready = OPEN, sk_token = ''token'', sk_frames = [TsSubscribe [''u''] ''token'' None TS_PROTOCOL_VERSION]\<rparr>] \<and>
   sc_ws (ex_client opened_extension) = Some 0 \<and> sc_delta_handlers (ex_client opened_extension) = [EXT_HANDLER] \<and>
   ex_pending opened_extension = [] \<and> ex_db opened_extension = (\<lambda>_ _. None) \<and> \<not> ex_paused opened_extension"
  by (simp add: opened_extension_def opening_events_def extension_setup_def new_client_def onDelta_def subscribeBucket_def Let_def
      with_client_def calls_of_def EXT_HANDLER_def new_scheduler_def client_subscribe_def ws_open_def client_connect_def
      ask_token_def setStatus_def settle_def remove_nth_def delta_env_def sample_env_def
      connect_continue_def on_open_def update_socket_def sendSubscribe_def client_send_def clearRefreshTimer_def
      scheduleTokenRefresh_def scheduleJwtRefresh_def decodeJwtExpiry_def split: option.split list.split)

theorem snapshot_rows_ignored_witness:
  "ext_step delta_env sample_pglite (ExtClient sample_tick (SocketMessage 0 [0])) opened_extension = opened_extension"
  using snapshot_rows_ignored [OF conjunct1 [OF opened_extension], of "[0]" "''u''" "[JsNull]" 0 sample_tick 0]
  by (simp add: delta_env_def)

theorem paused_delta_lost_witness:
  "ex_pending (ext_step delta_env sample_pglite ExtResume (ext_step delta_env sample_pglite
     (ExtClient sample_tick (SocketMessage 0 [])) (ext_pause opened_extension))) = []"
proof -
  let ?x = "ext_pause opened_extension"
  have "ex_paused ?x" "sc_ws (ex_client ?x) = Some 0" "0 < length (sc_sockets (ex_client ?x))"
    "sk_ready (sc_sockets (ex_client ?x) ! 0) = OPEN" "ex_pending ?x = []"
    using opened_extension by (simp_all add: ext_pause_def)
  moreover have "ce_decode delta_env [] = Inr (TsDelta ''u'' sample_batch 6)" "ce_delta_throws delta_env = (\<lambda>_ _. False)"
    by (simp_all add: delta_env_def sample_env_def)
  ultimately show ?thesis using paused_delta_lost [of ?x delta_env "[]" "''u''" sample_batch 6 0 sample_pglite sample_tick]
    by simp
qed

lemma sample_delta_step:
  "ext_enabled opened_extension (ExtClient sample_tick (SocketMessage 0 []))"
  "calls_of EXT_HANDLER (ex_client opened_extension) (client_step delta_env sample_tick (SocketMessage 0 []) (ex_client opened_extension)) =
     [\<lparr>de_bucket_id = ''u'', de_ops = sample_batch, de_lsn = LsnOf 6\<rparr>]"
  using opened_extension
  by (simp_all add: calls_of_def delta_env_def sample_env_def handleMessage_def on_delta_def client_send_def ws_open_def
      update_socket_def setStatus_def Let_def)

lemma ext_run_append:
  "ext_run E P evs x = Some x1 \<Longrightarrow> ext_run E P (evs @ evs') x = ext_run E P evs' x1"
  "ext_run E P evs x = Some x1 \<Longrightarrow> taken_in E P (evs @ evs') x = taken_in E P evs x @ taken_in E P evs' x1"
  by (induction evs arbitrary: x) (auto split: if_splits)

lemma opening_takes_nothing: "taken_in delta_env sample_pglite opening_events (extension_setup (\<lambda>_ _. None)) = []"
  by (simp add: opening_events_def calls_of_def settle_def on_open_def client_defs Let_def subscribeBucket_def extension_setup_def
      new_client_def delta_env_def sample_env_def scheduleJwtRefresh_def decodeJwtExpiry_def ws_open_def EXT_HANDLER_def
      split: option.split list.split)


end
