(* ===== verification/Pem_Transport.thy ===== *)
theory Pem_Transport
  imports Local_Apply Client_Properties
begin

section \<open>The entity transport (\<^verbatim>\<open>entity-sync-pglite: pem-transport.ts, status-store.ts\<close>)\<close>

text \<open>
  \<^verbatim>\<open>prometheusSync\<close> gives an entity library a pull interface (\<^verbatim>\<open>list\<close>, \<^verbatim>\<open>get\<close>), change events and \<^verbatim>\<open>write\<close> over a local PGlite database and a
  \<^verbatim>\<open>SyncClient\<close>. The closure's variables are the record \<open>transport\<close>; a handler's call of \<^verbatim>\<open>handleOps\<close>, which is not
  awaited, is a task of \<open>tp_tasks\<close> and running the first task is an event of its own (the reads of one
  task are not interleaved with the transaction of the next). The filter, sort and query types are those of the
  entity library as the source uses them; \<open>OpOther\<close> is any other operator, and limits and cursors are natural numbers.
\<close>

subsection \<open>Status store\<close>

record status_store =
  ss_state :: sync_status
  ss_listeners :: "nat list"
  ss_calls :: "(nat \<times> sync_status \<times> sync_status) list"

definition createStatusStore :: "sync_status \<Rightarrow> status_store" where
  "createStatusStore initial = \<lparr>ss_state = initial, ss_listeners = [], ss_calls = []\<rparr>"

definition store_setState :: "sync_status \<Rightarrow> status_store \<Rightarrow> status_store" where
  "store_setState next s =
     s\<lparr>ss_state := next, ss_calls := ss_calls s @ map (\<lambda>l. (l, next, ss_state s)) (ss_listeners s)\<rparr>"

definition store_subscribe :: "nat \<Rightarrow> status_store \<Rightarrow> status_store" where
  "store_subscribe l s = s\<lparr>ss_listeners := (if l \<in> set (ss_listeners s) then ss_listeners s else ss_listeners s @ [l])\<rparr>"

definition store_unsubscribe :: "nat \<Rightarrow> status_store \<Rightarrow> status_store" where
  "store_unsubscribe l s = s\<lparr>ss_listeners := removeAll l (ss_listeners s)\<rparr>"

subsection \<open>Filters, sorting and queries\<close>

datatype filter_operator =
    OpEq | OpNeq | OpGt | OpGte | OpLt | OpLte | OpIn | OpIsNull | OpIsNotNull
  | OpContains | OpStartsWith | OpEndsWith | OpMatches | OpCustom | OpOther string

record filter_clause =
  fc_field :: string
  fc_op :: filter_operator
  fc_value :: js_value

datatype filter_item = FieldClause filter_clause | NestedGroup string "filter_item list"

datatype filter_spec = FilterList "filter_item list" | FilterGroup string "filter_item list"

datatype sort_direction = Asc | Desc

datatype nulls_order = NullsFirst | NullsLast

record sort_clause =
  st_field :: string
  st_direction :: "sort_direction option"
  st_nulls :: "nulls_order option"

datatype list_cursor = NumberCursor nat | OtherCursor string

record list_query =
  lq_filter :: "filter_spec option"
  lq_sort :: "sort_clause list option"
  lq_limit :: "nat option"
  lq_cursor :: "list_cursor option"

record 'row list_result =
  lr_rows :: "'row list"
  lr_next_cursor :: "nat option"

definition identifierName :: "string \<Rightarrow> thrown + string" where
  "identifierName name = (if plain_identifier name then Inr (dquoted name) else Inl (UnsafeIdentifier name))"

text \<open>\<^verbatim>\<open>params.push(p); return field + pre + "$" + params.length + post\<close>\<close>

definition push_param :: "string \<Rightarrow> string \<Rightarrow> string \<Rightarrow> pg_param \<Rightarrow> (pg_param list, thrown, string option) action" where
  "push_param field pre post p params =
     (Inr (Some (field @ pre @ CHR ''$'' # dec (length params + 1) @ post)), params @ [p])"

definition clauseToSql :: "filter_clause \<Rightarrow> (pg_param list, thrown, string option) action" where
  "clauseToSql c =
     seq (lift_result (identifierName (fc_field c))) (\<lambda>field.
     case fc_op c of
       OpEq \<Rightarrow> push_param field '' = '' '''' (ValueParam (fc_value c))
     | OpNeq \<Rightarrow> push_param field '' != '' '''' (ValueParam (fc_value c))
     | OpGt \<Rightarrow> push_param field '' > '' '''' (ValueParam (fc_value c))
     | OpGte \<Rightarrow> push_param field '' >= '' '''' (ValueParam (fc_value c))
     | OpLt \<Rightarrow> push_param field '' < '' '''' (ValueParam (fc_value c))
     | OpLte \<Rightarrow> push_param field '' <= '' '''' (ValueParam (fc_value c))
     | OpIn \<Rightarrow> push_param field '' = ANY('' '')'' (ValueParam (fc_value c))
     | OpIsNull \<Rightarrow> ret (Some (field @ '' IS NULL''))
     | OpIsNotNull \<Rightarrow> ret (Some (field @ '' IS NOT NULL''))
     | OpContains \<Rightarrow> push_param field '' ILIKE '' '''' (LikeParam ''%'' (fc_value c) ''%'')
     | OpStartsWith \<Rightarrow> push_param field '' ILIKE '' '''' (LikeParam '''' (fc_value c) ''%'')
     | OpEndsWith \<Rightarrow> push_param field '' ILIKE '' '''' (LikeParam ''%'' (fc_value c) '''')
     | OpMatches \<Rightarrow> push_param field '' ILIKE '' '''' (LikeParam '''' (fc_value c) '''')
     | OpCustom \<Rightarrow> ret None
     | OpOther _ \<Rightarrow> ret None)"

fun map_action :: "('x \<Rightarrow> ('w, 'e, 'y) action) \<Rightarrow> 'x list \<Rightarrow> ('w, 'e, 'y list) action" where
  "map_action f [] = ret []"
| "map_action f (x # xs) = seq (f x) (\<lambda>y. seq (map_action f xs) (\<lambda>ys. ret (y # ys)))"

fun own_clause :: "filter_item \<Rightarrow> filter_clause list" where
  "own_clause (FieldClause c) = [c]"
| "own_clause (NestedGroup _ _) = []"

definition own_clauses :: "filter_item list \<Rightarrow> filter_clause list" where
  "own_clauses items = concat (map own_clause items)"

fun somes :: "'a option list \<Rightarrow> 'a list" where
  "somes [] = []"
| "somes (None # xs) = somes xs"
| "somes (Some x # xs) = x # somes xs"

definition compile_fragments :: "filter_item list \<Rightarrow> thrown + (string list \<times> pg_param list)" where
  "compile_fragments items =
     (case map_action clauseToSql (own_clauses items) [] of
        (Inl e, _) \<Rightarrow> Inl e
      | (Inr fragments, params) \<Rightarrow> Inr (somes fragments, params))"

fun spec_items :: "filter_spec \<Rightarrow> filter_item list" where
  "spec_items (FilterList items) = items"
| "spec_items (FilterGroup _ items) = items"

fun is_or :: "filter_spec \<Rightarrow> bool" where
  "is_or (FilterList _) \<longleftrightarrow> False"
| "is_or (FilterGroup logic _) \<longleftrightarrow> logic = ''or''"

definition compileFilter :: "filter_spec option \<Rightarrow> thrown + (string \<times> pg_param list)" where
  "compileFilter filt =
     (case filt of
        None \<Rightarrow> Inr ('''', [])
      | Some spec \<Rightarrow>
          and_then (compile_fragments (spec_items spec)) (\<lambda>(fragments, params).
          Inr (if is_or spec
               then (if fragments \<noteq> [] then ''('' @ join_with '' OR '' fragments @ '')'' else '''')
               else join_with '' AND '' fragments, params)))"

definition sort_text :: "sort_clause \<Rightarrow> thrown + string" where
  "sort_text s =
     and_then (identifierName (st_field s)) (\<lambda>field.
     Inr (field @ '' '' @ (if st_direction s = Some Desc then ''DESC'' else ''ASC'') @
          (case st_nulls s of Some NullsFirst \<Rightarrow> '' NULLS FIRST'' | Some NullsLast \<Rightarrow> '' NULLS LAST'' | None \<Rightarrow> '''')))"

fun sort_texts :: "sort_clause list \<Rightarrow> thrown + string list" where
  "sort_texts [] = Inr []"
| "sort_texts (s # ss) = and_then (sort_text s) (\<lambda>t. and_then (sort_texts ss) (\<lambda>ts. Inr (t # ts)))"

definition compileSort :: "sort_clause list option \<Rightarrow> thrown + string" where
  "compileSort clauses =
     (case clauses of
        None \<Rightarrow> Inr ''''
      | Some ss \<Rightarrow> and_then (sort_texts ss) (\<lambda>ts. Inr (join_with '', '' ts)))"

definition list_text :: "string \<Rightarrow> string \<Rightarrow> string \<Rightarrow> nat \<Rightarrow> string" where
  "list_text name whereClause orderClause n =
     ''SELECT * FROM '' @ name @
     (if whereClause \<noteq> '''' then '' WHERE '' @ whereClause else '''') @
     (if orderClause \<noteq> '''' then '' ORDER BY '' @ orderClause else '''') @
     '' LIMIT '' @ CHR ''$'' # dec (n + 1) @ '' OFFSET '' @ CHR ''$'' # dec (n + 2)"

text \<open>The statement and the filter's parameters of a query.\<close>

definition list_request :: "string \<Rightarrow> list_query \<Rightarrow> thrown + (string \<times> pg_param list)" where
  "list_request table q =
     and_then (compileFilter (lq_filter q)) (\<lambda>(whereClause, params).
     and_then (compileSort (lq_sort q)) (\<lambda>orderClause.
     and_then (identifierName table) (\<lambda>name.
     Inr (list_text name whereClause orderClause (length params), params))))"

datatype transport_error = TerminalErr thrown | TransientErr thrown | PlainErr thrown

fun mapPGliteError :: "thrown \<Rightarrow> transport_error" where
  "mapPGliteError (UnsafeIdentifier name) = TerminalErr (UnsafeIdentifier name)"
| "mapPGliteError Aborted = TerminalErr Aborted"
| "mapPGliteError (DatabaseError e) =
     (if dbe_code e \<in> {Some ''42P01'', Some ''42703''} then TerminalErr (DatabaseError e) else TransientErr (DatabaseError e))"
| "mapPGliteError e = TransientErr e"

definition list_limit :: "list_query \<Rightarrow> nat" where
  "list_limit q = (case lq_limit q of None \<Rightarrow> 200 | Some n \<Rightarrow> n)"

definition list_offset :: "list_query \<Rightarrow> nat" where
  "list_offset q = (case lq_cursor q of Some (NumberCursor n) \<Rightarrow> n | _ \<Rightarrow> 0)"

definition list_rows :: "('db, 'tx, 'row) pglite \<Rightarrow> string \<Rightarrow> list_query \<Rightarrow> ('db, transport_error, 'row list_result) action" where
  "list_rows P table q db =
     (case list_request table q of
        Inl e \<Rightarrow> (Inl (TerminalErr e), db)
      | Inr (sql, params) \<Rightarrow>
          (case pg_query P sql (params @ [NumberParam (list_limit q), NumberParam (list_offset q)]) db of
             (Inl e, db') \<Rightarrow> (Inl (mapPGliteError e), db')
           | (Inr rows, db') \<Rightarrow>
               (Inr \<lparr>lr_rows = rows,
                     lr_next_cursor = (if length rows = list_limit q then Some (list_offset q + list_limit q) else None)\<rparr>,
                db')))"

definition select_one :: "string \<Rightarrow> string" where
  "select_one table = ''SELECT * FROM '' @ table @ '' WHERE id::text = $1 LIMIT 1''"

definition first_row :: "'row list \<Rightarrow> 'row option" where
  "first_row rows = (case rows of [] \<Rightarrow> None | r # _ \<Rightarrow> Some r)"

definition get_row :: "('db, 'tx, 'row) pglite \<Rightarrow> string \<Rightarrow> string \<Rightarrow> bool \<Rightarrow> ('db, transport_error, 'row option) action" where
  "get_row P table i aborted db =
     (if aborted then (Inl (TerminalErr Aborted), db)
      else case identifierName table of
        Inl e \<Rightarrow> (Inl (mapPGliteError e), db)
      | Inr name \<Rightarrow>
          (case pg_query P (select_one name) [TextParam i] db of
             (Inl e, db') \<Rightarrow> (Inl (mapPGliteError e), db')
           | (Inr rows, db') \<Rightarrow> (Inr (first_row rows), db')))"

subsection \<open>Change events\<close>

datatype 'row change_event = DeleteEvent string | UpdateEvent string 'row

definition notifyOne :: "('db, 'tx, 'row) pglite \<Rightarrow> string \<Rightarrow> string \<Rightarrow> ts_op \<Rightarrow> 'db \<Rightarrow> 'row change_event list \<times> 'db" where
  "notifyOne P table i op db =
     (if op = TsDelete then ([DeleteEvent i], db)
      else case identifierName table of
        Inl e \<Rightarrow> ([], db)
      | Inr name \<Rightarrow>
          (case pg_query P (select_one name) [TextParam i] db of
             (Inl e, db') \<Rightarrow> ([], db')
           | (Inr rows, db') \<Rightarrow> (case first_row rows of None \<Rightarrow> [] | Some r \<Rightarrow> [UpdateEvent i r], db')))"

fun notify_each :: "('db, 'tx, 'row) pglite \<Rightarrow> string \<Rightarrow> ts_bucket_op list \<Rightarrow> 'db \<Rightarrow> 'row change_event list \<times> 'db" where
  "notify_each P table [] db = ([], db)"
| "notify_each P table (op # ops) db =
     (case notifyOne P table (to_entity_id op) (to_op op) db of
        (evs, db') \<Rightarrow> (case notify_each P table ops db' of (evs', db'') \<Rightarrow> (evs @ evs', db'')))"

definition handleOps :: "('db, 'tx, 'row) pglite \<Rightarrow> string \<Rightarrow> ts_bucket_op list \<Rightarrow> 'db \<Rightarrow> 'row change_event list \<times> 'db" where
  "handleOps P table ops db =
     (case applyOps P ops db of
        (Inl e, db') \<Rightarrow> ([], db')
      | (Inr _, db') \<Rightarrow> notify_each P table ops db')"

subsection \<open>The transport\<close>

record transport_config =
  tc_bucket :: string
  tc_table :: string

record ('db, 'row) transport =
  tp_subscribed :: bool
  tp_client :: sync_client
  tp_store :: status_store
  tp_next_handler :: nat
  tp_tasks :: "(nat \<times> ts_bucket_op list) list"
  tp_events :: "(nat \<times> 'row change_event) list"
  tp_db :: 'db

definition new_transport :: "'db \<Rightarrow> ('db, 'row) transport" where
  "new_transport db =
     \<lparr>tp_subscribed = False, tp_client = new_client, tp_store = createStatusStore DisconnectedStatus,
      tp_next_handler = 0, tp_tasks = [], tp_events = [], tp_db = db\<rparr>"

fun status_of :: "client_output \<Rightarrow> sync_status list" where
  "status_of (StatusCallback s) = [s]"
| "status_of _ = []"

text \<open>The handler of \<^verbatim>\<open>subscribe\<close> when the client calls it.\<close>

fun task_of :: "transport_config \<Rightarrow> client_output \<Rightarrow> (nat \<times> ts_bucket_op list) list" where
  "task_of C (DeltaCallback h d) =
     (if de_bucket_id d \<noteq> tc_bucket C then []
      else let relevant = filter (\<lambda>op. to_entity_type op = tc_table C) (de_ops d) in
           if relevant = [] then [] else [(h, relevant)])"
| "task_of C _ = []"

definition tp_with_client :: "transport_config \<Rightarrow> sync_client \<Rightarrow> ('db, 'row) transport \<Rightarrow> ('db, 'row) transport" where
  "tp_with_client C c' x =
     (let outs = drop (length (sc_log (tp_client x))) (sc_log c') in
      x\<lparr>tp_client := c',
        tp_store := fold store_setState (concat (map status_of outs)) (tp_store x),
        tp_tasks := tp_tasks x @ concat (map (task_of C) outs)\<rparr>)"

definition ensureSubscribed :: "transport_config \<Rightarrow> ('db, 'row) transport \<Rightarrow> ('db, 'row) transport" where
  "ensureSubscribed C x =
     (if tp_subscribed x then x
      else tp_with_client C (client_subscribe [tc_bucket C] None (tp_client x)) (x\<lparr>tp_subscribed := True\<rparr>))"

definition transport_list ::
  "('db, 'tx, 'row) pglite \<Rightarrow> transport_config \<Rightarrow> list_query \<Rightarrow> (('db, 'row) transport, transport_error, 'row list_result) action" where
  "transport_list P C q x =
     (let x = ensureSubscribed C x in
      case list_rows P (tc_table C) q (tp_db x) of (r, db) \<Rightarrow> (r, x\<lparr>tp_db := db\<rparr>))"

definition transport_get ::
  "('db, 'tx, 'row) pglite \<Rightarrow> transport_config \<Rightarrow> string \<Rightarrow> bool \<Rightarrow> (('db, 'row) transport, transport_error, 'row option) action" where
  "transport_get P C i aborted x =
     (let x = ensureSubscribed C x in
      case get_row P (tc_table C) i aborted (tp_db x) of (r, db) \<Rightarrow> (r, x\<lparr>tp_db := db\<rparr>))"

definition transport_subscribe :: "transport_config \<Rightarrow> ('db, 'row) transport \<Rightarrow> ('db, 'row) transport" where
  "transport_subscribe C x =
     (let x = ensureSubscribed C x in
      x\<lparr>tp_client := onDelta (tp_next_handler x) (tp_client x), tp_next_handler := tp_next_handler x + 1\<rparr>)"

definition transport_unsubscribe :: "nat \<Rightarrow> ('db, 'row) transport \<Rightarrow> ('db, 'row) transport" where
  "transport_unsubscribe h x = x\<lparr>tp_client := offDelta h (tp_client x)\<rparr>"

datatype write_input = UpsertInput string js_value | DeleteInput string

fun input_id :: "write_input \<Rightarrow> string" where
  "input_id (UpsertInput i _) = i"
| "input_id (DeleteInput i) = i"

fun input_op :: "write_input \<Rightarrow> ts_op" where
  "input_op (UpsertInput _ v) = TsUpsert v"
| "input_op (DeleteInput _) = TsDelete"

text \<open>What \<^verbatim>\<open>write\<close> resolves to: the row, or the input object of a delete.\<close>

datatype write_result = WrittenRow js_value | WrittenInput write_input

fun written :: "write_input \<Rightarrow> write_result" where
  "written (UpsertInput _ v) = WrittenRow v"
| "written (DeleteInput i) = WrittenInput (DeleteInput i)"

definition transport_write ::
  "transport_config \<Rightarrow> write_input \<Rightarrow> (('db, 'row) transport, transport_error, write_result) action" where
  "transport_write C input x =
     (let x = ensureSubscribed C x in
      case client_write (tc_table C) (input_id input) (input_op input) (tp_client x) of
        (Inl e, c') \<Rightarrow> (Inl (PlainErr (NotConnected e)), tp_with_client C c' x)
      | (Inr _, c') \<Rightarrow> (Inr (written input), tp_with_client C c' x))"

definition transport_disconnect :: "transport_config \<Rightarrow> ('db, 'row) transport \<Rightarrow> ('db, 'row) transport" where
  "transport_disconnect C x = tp_with_client C (client_disconnect (tp_client x)) x"

definition run_task :: "('db, 'tx, 'row) pglite \<Rightarrow> transport_config \<Rightarrow> ('db, 'row) transport \<Rightarrow> ('db, 'row) transport" where
  "run_task P C x =
     (case tp_tasks x of
        [] \<Rightarrow> x
      | (h, ops) # rest \<Rightarrow>
          (case handleOps P (tc_table C) ops (tp_db x) of
             (evs, db) \<Rightarrow> x\<lparr>tp_tasks := rest, tp_db := db, tp_events := tp_events x @ map (Pair h) evs\<rparr>))"

datatype transport_event =
    TpList list_query
  | TpGet string bool
  | TpSubscribe
  | TpUnsubscribe nat
  | TpWrite write_input
  | TpDisconnect
  | TpWatch nat
  | TpUnwatch nat
  | TpClient tick client_event
  | TpTask

fun tp_enabled :: "('db, 'row) transport \<Rightarrow> transport_event \<Rightarrow> bool" where
  "tp_enabled x (TpClient t ev) \<longleftrightarrow> \<not> api_event ev \<and> enabled (tp_client x) ev"
| "tp_enabled x _ \<longleftrightarrow> True"

fun tp_step ::
  "client_env \<Rightarrow> ('db, 'tx, 'row) pglite \<Rightarrow> transport_config \<Rightarrow> transport_event \<Rightarrow> ('db, 'row) transport \<Rightarrow> ('db, 'row) transport" where
  "tp_step E P C (TpList q) x = snd (transport_list P C q x)"
| "tp_step E P C (TpGet i aborted) x = snd (transport_get P C i aborted x)"
| "tp_step E P C TpSubscribe x = transport_subscribe C x"
| "tp_step E P C (TpUnsubscribe h) x = transport_unsubscribe h x"
| "tp_step E P C (TpWrite input) x = snd (transport_write C input x)"
| "tp_step E P C TpDisconnect x = transport_disconnect C x"
| "tp_step E P C (TpWatch l) x = x\<lparr>tp_store := store_subscribe l (tp_store x)\<rparr>"
| "tp_step E P C (TpUnwatch l) x = x\<lparr>tp_store := store_unsubscribe l (tp_store x)\<rparr>"
| "tp_step E P C (TpClient t ev) x = tp_with_client C (client_step E t ev (tp_client x)) x"
| "tp_step E P C TpTask x = run_task P C x"

fun tp_run ::
  "client_env \<Rightarrow> ('db, 'tx, 'row) pglite \<Rightarrow> transport_config \<Rightarrow> transport_event list \<Rightarrow> ('db, 'row) transport \<Rightarrow>
   ('db, 'row) transport option" where
  "tp_run E P C [] x = Some x"
| "tp_run E P C (ev # evs) x = (if tp_enabled x ev then tp_run E P C evs (tp_step E P C ev x) else None)"

end
