(* ===== verification/Transport_Queries.thy ===== *)
theory Transport_Queries
  imports Pem_Transport
begin

section \<open>The statements of the transport's queries\<close>

text \<open>
  The text a query compiles to: its placeholders and the parameters bound to them, that no value reaches the text, what
  the clauses without a translation do to the result, and the pages a caller gets by following the cursor.
\<close>

subsection \<open>Placeholders\<close>

definition decimal_digit :: "char \<Rightarrow> bool" where
  "decimal_digit c \<longleftrightarrow> c \<in> set ''0123456789''"

text \<open>The numbers of the placeholders of a statement, in the order of the text.\<close>

function placeholders :: "string \<Rightarrow> nat list" where
  "placeholders [] = []"
| "placeholders (c # cs) =
     (if c = CHR ''$'' then of_radix 10 (takeWhile decimal_digit cs) # placeholders (dropWhile decimal_digit cs)
      else placeholders cs)"
  by pat_completeness auto
termination
  by (relation "measure length") (auto simp: le_imp_less_Suc length_dropWhile_le)

definition ends_number :: "string \<Rightarrow> bool" where
  "ends_number s \<longleftrightarrow> s = [] \<or> \<not> decimal_digit (hd s)"

lemma ends_number_Nil [simp]: "ends_number []"
  by (simp add: ends_number_def)

lemma ends_number_separators:
  "ends_number (CHR '' '' # s)" "ends_number (CHR ''('' # s)" "ends_number (CHR '')'' # s)" "ends_number (CHR ''$'' # s)"
  by (simp_all add: ends_number_def decimal_digit_def)

text \<open>A text that contributes the placeholders \<open>ns\<close> wherever no digit follows it.\<close>

definition shows_params :: "string \<Rightarrow> nat list \<Rightarrow> bool" where
  "shows_params s ns \<longleftrightarrow> (\<forall>rest. ends_number rest \<longrightarrow> placeholders (s @ rest) = ns @ placeholders rest)"

lemma digit_char_decimal: "d < 10 \<Longrightarrow> decimal_digit (digit_char d)"
proof -
  assume "d < 10"
  then have "d \<in> set [0..<10]" by simp
  moreover have "list_all (\<lambda>d. decimal_digit (digit_char d)) [0..<10]" by code_simp
  ultimately show ?thesis by (simp only: list_all_iff)
qed

lemma set_dec: "c \<in> set (dec n) \<Longrightarrow> decimal_digit c"
proof -
  have "\<forall>c \<in> set (to_radix 10 n). decimal_digit c"
  proof (induction n rule: less_induct)
    case (less n)
    have "\<forall>c \<in> set (to_radix 10 (n div 10)). decimal_digit c" if "\<not> n < 10" using less [of "n div 10"] that by simp
    then show ?case by (auto simp: to_radix.simps [of 10 n] digit_char_decimal)
  qed
  then show "c \<in> set (dec n) \<Longrightarrow> decimal_digit c" by (simp add: dec_def)
qed

lemma shows_text: "CHR ''$'' \<notin> set s \<Longrightarrow> shows_params s []"
proof -
  have "CHR ''$'' \<notin> set s \<Longrightarrow> placeholders (s @ rest) = placeholders rest" for rest by (induction s) auto
  then show "CHR ''$'' \<notin> set s \<Longrightarrow> shows_params s []" by (simp add: shows_params_def)
qed

lemma shows_placeholder: "shows_params (CHR ''$'' # dec n) [n]"
proof -
  have "placeholders (CHR ''$'' # dec n @ rest) = n # placeholders rest" if "ends_number rest" for rest
  proof -
    have "takeWhile decimal_digit rest = []" "dropWhile decimal_digit rest = rest"
      using that by (cases rest; simp add: ends_number_def)+
    then have "takeWhile decimal_digit (dec n @ rest) = dec n" "dropWhile decimal_digit (dec n @ rest) = rest"
      using set_dec by (simp_all add: takeWhile_append2 dropWhile_append2)
    then show ?thesis by (simp add: dec_def of_radix_to_radix)
  qed
  then show ?thesis by (simp add: shows_params_def)
qed

lemma shows_append:
  assumes "shows_params s ns" and "shows_params t ms" and "ends_number t"
  shows "shows_params (s @ t) (ns @ ms)"
proof -
  have "ends_number (t @ rest)" if "ends_number rest" for rest using that assms(3) by (cases t) (auto simp: ends_number_def)
  with assms(1,2) show ?thesis unfolding shows_params_def by simp
qed

lemma shows_all: "shows_params s ns \<Longrightarrow> placeholders s = ns"
  unfolding shows_params_def by (drule spec [of _ "[]"]) (simp add: ends_number_def)

subsection \<open>Fragments\<close>

definition numbers_between :: "nat \<Rightarrow> nat \<Rightarrow> nat list" where
  "numbers_between m n = [Suc m..<Suc n]"

lemma numbers_between_simps [simp]: "numbers_between m m = []" "numbers_between m (Suc m) = [Suc m]"
  by (simp_all add: numbers_between_def)

lemma numbers_between_append: "m \<le> k \<Longrightarrow> k \<le> n \<Longrightarrow> numbers_between m k @ numbers_between k n = numbers_between m n"
  using upt_add_eq_append [of "Suc m" "Suc k" "n - k"] by (simp add: numbers_between_def del: upt_Suc)

text \<open>The parameter a clause binds.\<close>

fun clause_params :: "filter_clause \<Rightarrow> pg_param list" where
  "clause_params c =
     (case fc_op c of
        OpIsNull \<Rightarrow> [] | OpIsNotNull \<Rightarrow> [] | OpCustom \<Rightarrow> [] | OpOther _ \<Rightarrow> []
      | OpContains \<Rightarrow> [LikeParam ''%'' (fc_value c) ''%'']
      | OpStartsWith \<Rightarrow> [LikeParam '''' (fc_value c) ''%'']
      | OpEndsWith \<Rightarrow> [LikeParam ''%'' (fc_value c) '''']
      | OpMatches \<Rightarrow> [LikeParam '''' (fc_value c) '''']
      | _ \<Rightarrow> [ValueParam (fc_value c)])"

lemma plain_no_dollar: "plain_identifier t \<Longrightarrow> CHR ''$'' \<notin> set (dquoted t)"
proof -
  assume "plain_identifier t"
  then have "list_all ident_char t" by (cases t) auto
  moreover have "\<not> ident_char (CHR ''$'')" by code_simp
  ultimately have "CHR ''$'' \<notin> set t" unfolding list_all_iff by blast
  then show ?thesis by (simp add: dquoted_def)
qed

lemma dquoted_ends_number: "ends_number (dquoted t @ s)"
  by (simp add: dquoted_def ends_number_def decimal_digit_def)

lemma shows_push:
  assumes "plain_identifier t" and "CHR ''$'' \<notin> set pre" and "CHR ''$'' \<notin> set post" and "ends_number post"
  shows "shows_params (dquoted t @ pre @ CHR ''$'' # dec n @ post) [n]"
proof -
  have "shows_params (dquoted t @ pre) []" using shows_text plain_no_dollar [OF assms(1)] assms(2) by simp
  moreover have "shows_params ((CHR ''$'' # dec n) @ post) ([n] @ [])"
    by (rule shows_append [OF shows_placeholder shows_text [OF assms(3)] assms(4)])
  moreover have "ends_number ((CHR ''$'' # dec n) @ post)" by (simp add: ends_number_def decimal_digit_def)
  ultimately have "shows_params ((dquoted t @ pre) @ (CHR ''$'' # dec n) @ post) ([] @ [n] @ [])" by (rule shows_append)
  then show ?thesis by simp
qed

text \<open>The text of a clause by its operator: around a placeholder, without one, or none.\<close>

datatype clause_form = Around string string | Bare string | Untranslated

fun form_of :: "filter_operator \<Rightarrow> clause_form" where
  "form_of OpEq = Around '' = '' ''''"
| "form_of OpNeq = Around '' != '' ''''"
| "form_of OpGt = Around '' > '' ''''"
| "form_of OpGte = Around '' >= '' ''''"
| "form_of OpLt = Around '' < '' ''''"
| "form_of OpLte = Around '' <= '' ''''"
| "form_of OpIn = Around '' = ANY('' '')''"
| "form_of OpIsNull = Bare '' IS NULL''"
| "form_of OpIsNotNull = Bare '' IS NOT NULL''"
| "form_of OpCustom = Untranslated"
| "form_of (OpOther _) = Untranslated"
| "form_of _ = Around '' ILIKE '' ''''"

lemma clauseToSql_form:
  "clauseToSql c params =
     (if \<not> plain_identifier (fc_field c) then (Inl (UnsafeIdentifier (fc_field c)), params)
      else case form_of (fc_op c) of
        Around pre post \<Rightarrow> push_param (dquoted (fc_field c)) pre post (hd (clause_params c)) params
      | Bare s \<Rightarrow> (Inr (Some (dquoted (fc_field c) @ s)), params)
      | Untranslated \<Rightarrow> (Inr None, params))"
  by (cases "fc_op c") (simp_all add: clauseToSql_def identifierName_def seq_def)

lemma form_shape:
  "case form_of op of
     Around pre post \<Rightarrow> CHR ''$'' \<notin> set pre \<and> CHR ''$'' \<notin> set post \<and> ends_number post
   | Bare s \<Rightarrow> CHR ''$'' \<notin> set s
   | Untranslated \<Rightarrow> True"
  by (cases op) (simp_all add: ends_number_def decimal_digit_def)

lemma clause_params_form:
  "case form_of (fc_op c) of Around _ _ \<Rightarrow> clause_params c = [hd (clause_params c)] | _ \<Rightarrow> clause_params c = []"
  by (cases "fc_op c") simp_all

declare clause_params.simps [simp del]

lemma clauseToSql_shows:
  assumes "clauseToSql c params = (Inr r, params')"
  shows "params' = params @ clause_params c"
    and "r = None \<longleftrightarrow> form_of (fc_op c) = Untranslated"
    and "r = Some f \<Longrightarrow> shows_params f (numbers_between (length params) (length params')) \<and> (\<forall>s. ends_number (f @ s))"
proof -
  from assms have t: "plain_identifier (fc_field c)" by (auto simp: clauseToSql_form split: if_splits)
  note form = assms form_shape [of "fc_op c"] clause_params_form [of c] plain_no_dollar [OF t]
  show "params' = params @ clause_params c"
    by (cases "form_of (fc_op c)") (use form t in \<open>auto simp: clauseToSql_form push_param_def\<close>)
  show "r = None \<longleftrightarrow> form_of (fc_op c) = Untranslated"
    by (cases "form_of (fc_op c)") (use assms t in \<open>auto simp: clauseToSql_form push_param_def\<close>)
  show "shows_params f (numbers_between (length params) (length params')) \<and> (\<forall>s. ends_number (f @ s))" if r: "r = Some f"
  proof (cases "form_of (fc_op c)")
    case (Around pre post)
    with assms form_shape [of "fc_op c"] t r have f: "f = dquoted (fc_field c) @ pre @ CHR ''$'' # dec (Suc (length params)) @ post" "length params' = Suc (length params)"
      and ok: "CHR ''$'' \<notin> set pre" "CHR ''$'' \<notin> set post" "ends_number post"
      by (auto simp: clauseToSql_form push_param_def)
    have "shows_params f [Suc (length params)]" unfolding f(1) by (rule shows_push [OF t ok])
    then show ?thesis using f dquoted_ends_number by simp
  next
    case (Bare s)
    with form t r have "f = dquoted (fc_field c) @ s" "params' = params" "CHR ''$'' \<notin> set s" by (auto simp: clauseToSql_form)
    then show ?thesis using shows_text plain_no_dollar [OF t] dquoted_ends_number by simp
  next
    case Untranslated
    with form t r show ?thesis by (simp add: clauseToSql_form)
  qed
qed

lemma join_with_Cons: "join_with sep (s # ss) = s @ (if ss = [] then [] else sep @ join_with sep ss)"
  by (cases ss) simp_all

lemma fragments_show:
  assumes "map_action clauseToSql cs params = (Inr rs, params')" and "CHR ''$'' \<notin> set sep" and "sep \<noteq> []" and "ends_number sep"
  shows "params' = params @ concat (map clause_params cs) \<and>
    shows_params (join_with sep (somes rs)) (numbers_between (length params) (length params')) \<and>
    (\<forall>s. somes rs \<noteq> [] \<longrightarrow> ends_number (join_with sep (somes rs) @ s))"
  using assms(1)
proof (induction cs arbitrary: params rs)
  case Nil
  then show ?case by (simp add: shows_text)
next
  case (Cons c cs)
  then obtain r params1 rs' where one: "clauseToSql c params = (Inr r, params1)"
    and rest: "map_action clauseToSql cs params1 = (Inr rs', params')" and rs: "rs = r # rs'"
    by (auto simp: result_simps)
  note IH = Cons.IH [OF rest] note head = clauseToSql_shows [OF one]
  note tail = conjunct1 [OF conjunct2 [OF IH]]
  let ?L = "somes rs'"
  have len: "length params \<le> length params1" "length params1 \<le> length params'" using IH head(1) by simp_all
  show ?case
  proof (cases r)
    case None
    then have "clause_params c = []" using head(2) clause_params_form [of c] by simp
    with None IH head(1) rs show ?thesis by auto
  next
    case (Some f)
    then have L: "somes rs = f # ?L" using rs by simp
    have f: "shows_params f (numbers_between (length params) (length params1))" "\<And>s. ends_number (f @ s)"
      using head(3) [OF Some] by simp_all
    have "shows_params (join_with sep (f # ?L)) ((numbers_between (length params) (length params1)) @ (numbers_between (length params1) (length params')))"
    proof (cases "?L = []")
      case True
      then have "shows_params '''' (numbers_between (length params1) (length params'))" using tail by (simp only: join_with.simps)
      from shows_append [OF f(1) this] True show ?thesis by (simp add: ends_number_def)
    next
      case False
      have "ends_number (join_with sep ?L)" using IH False by (metis append_Nil2)
      from shows_append [OF shows_text [OF assms(2)] tail this]
      have "shows_params (sep @ join_with sep ?L) (numbers_between (length params1) (length params'))" by simp
      moreover have "ends_number (sep @ join_with sep ?L)" using assms(3,4) by (cases sep) (auto simp: ends_number_def)
      ultimately show ?thesis using shows_append [OF f(1)] False by (simp add: join_with_Cons)
    qed
    moreover have "(numbers_between (length params) (length params1)) @ (numbers_between (length params1) (length params')) =
        (numbers_between (length params) (length params'))"
      using len by (rule numbers_between_append)
    moreover have "ends_number (join_with sep (f # ?L) @ s)" for s using f(2) by (simp add: join_with_Cons)
    ultimately show ?thesis using IH head(1) L by auto
  qed
qed

subsection \<open>The whole statement\<close>

lemma join_ends: "ends_number s \<Longrightarrow> ends_number (s @ CHR '')'' # t)"
  by (cases s) (simp_all add: ends_number_def decimal_digit_def)

lemma compileFilter_shows:
  assumes "compileFilter filt = Inr (w, params)"
  shows "params = (case filt of None \<Rightarrow> [] | Some spec \<Rightarrow> concat (map clause_params (own_clauses (spec_items spec)))) \<and>
    shows_params w (numbers_between 0 (length params)) \<and> ends_number w"
proof (cases filt)
  case None
  with assms show ?thesis by (simp add: compileFilter_def shows_text)
next
  case (Some spec)
  with assms obtain rs where run: "map_action clauseToSql (own_clauses (spec_items spec)) [] = (Inr rs, params)"
    and w: "w = (if is_or spec then (if somes rs \<noteq> [] then ''('' @ join_with '' OR '' (somes rs) @ '')'' else '''')
      else join_with '' AND '' (somes rs))"
    by (auto simp: compileFilter_def compile_fragments_def result_simps split: prod.splits sum.splits)
  let ?N = "numbers_between 0 (length params)"
  have join: "shows_params (join_with sep (somes rs)) ?N \<and> ends_number (join_with sep (somes rs))"
    if "CHR ''$'' \<notin> set sep" "sep \<noteq> []" "ends_number sep" for sep
    using fragments_show [OF run that] by (cases "somes rs") (auto dest: spec [of _ "[]"])
  have ands: "shows_params (join_with '' AND '' (somes rs)) ?N \<and> ends_number (join_with '' AND '' (somes rs))"
    and ors: "shows_params (join_with '' OR '' (somes rs)) ?N \<and> ends_number (join_with '' OR '' (somes rs))"
    by (rule join; simp add: ends_number_separators)+
  have params: "params = concat (map clause_params (own_clauses (spec_items spec)))"
    using fragments_show [OF run, of "'' ''"] by (simp add: ends_number_separators)
  have "shows_params (''('' @ join_with '' OR '' (somes rs) @ '')'') ([] @ ?N @ [])"
    using ors by (intro shows_append shows_text) (simp_all add: ends_number_separators join_ends)
  moreover have "shows_params '''' ?N" if "somes rs = []" using conjunct1 [OF ors] unfolding that by simp
  ultimately have "shows_params w ?N \<and> ends_number w" using ands unfolding w by (simp add: ends_number_separators)
  with params Some show ?thesis by simp
qed

lemma sort_no_dollar: "compileSort ss = Inr t \<Longrightarrow> CHR ''$'' \<notin> set t"
proof -
  have one: "CHR ''$'' \<notin> set t" if "sort_text s = Inr t" for s t
    using that plain_no_dollar by (auto simp: sort_text_def identifierName_def result_simps split: if_splits option.splits nulls_order.splits)
  have "\<forall>t \<in> set ts. CHR ''$'' \<notin> set t" if "sort_texts ss = Inr ts" for ss ts
    using that one by (induction ss arbitrary: ts) (auto simp: result_simps)
  moreover have "CHR ''$'' \<notin> set (join_with '', '' ts)" if "\<forall>t \<in> set ts. CHR ''$'' \<notin> set t" for ts
    using that by (induction ts) (auto simp: join_with_Cons)
  ultimately show "compileSort ss = Inr t \<Longrightarrow> CHR ''$'' \<notin> set t"
    by (auto simp: compileSort_def result_simps split: option.splits)
qed

lemma list_request_shows:
  assumes "list_request table q = Inr (sql, params)"
  shows "plain_identifier table \<and> placeholders sql = [1..<length params + 3] \<and>
    params = (case lq_filter q of None \<Rightarrow> [] | Some spec \<Rightarrow> concat (map clause_params (own_clauses (spec_items spec))))"
proof -
  from assms obtain w ord where filt: "compileFilter (lq_filter q) = Inr (w, params)" and ord: "compileSort (lq_sort q) = Inr ord"
    and t: "plain_identifier table"
    and sql: "sql = (''SELECT * FROM '' @ dquoted table) @ (if w \<noteq> '''' then '' WHERE '' @ w else '''') @
      ((if ord \<noteq> '''' then '' ORDER BY '' @ ord else '''') @ '' LIMIT '') @
      (CHR ''$'' # dec (length params + 1)) @ '' OFFSET '' @ (CHR ''$'' # dec (length params + 2))"
    by (auto simp: list_request_def list_text_def result_simps identifierName_def split: if_splits)
  note wh = conjunct1 [OF compileFilter_shows [OF filt]] conjunct2 [OF compileFilter_shows [OF filt]]
  have "shows_params (''SELECT * FROM '' @ dquoted table) []" using shows_text plain_no_dollar [OF t] by simp
  moreover have "shows_params (if w \<noteq> '''' then '' WHERE '' @ w else '''') (numbers_between 0 (length params))"
  proof (cases "w = ''''")
    case True
    then show ?thesis using wh(2) by simp
  next
    case False
    have "shows_params ('' WHERE '' @ w) ([] @ numbers_between 0 (length params))"
      using wh(2) by (intro shows_append shows_text) simp_all
    with False show ?thesis by simp
  qed
  moreover have "shows_params ((if ord \<noteq> '''' then '' ORDER BY '' @ ord else '''') @ '' LIMIT '') []"
    using sort_no_dollar [OF ord] shows_text by simp
  moreover have "shows_params ((CHR ''$'' # dec (length params + 1)) @ '' OFFSET '' @ (CHR ''$'' # dec (length params + 2)))
      ([length params + 1] @ [] @ [length params + 2])"
    by (intro shows_append shows_placeholder shows_text) (simp_all add: ends_number_separators)
  ultimately have "shows_params sql ([] @ numbers_between 0 (length params) @ [] @ [length params + 1, length params + 2])"
    unfolding sql by (intro shows_append) (simp_all add: ends_number_separators)
  from shows_all [OF this] have "placeholders sql = [1..<length params + 3]"
    by (simp add: numbers_between_def eval_nat_numeral)
  with t wh(1) show ?thesis by blast
qed

subsection \<open>Values stay out of the text\<close>

fun revalue_item :: "(filter_clause \<Rightarrow> js_value) \<Rightarrow> filter_item \<Rightarrow> filter_item" where
  "revalue_item f (FieldClause c) = FieldClause (c\<lparr>fc_value := f c\<rparr>)"
| "revalue_item f (NestedGroup logic items) = NestedGroup logic items"

fun revalue :: "(filter_clause \<Rightarrow> js_value) \<Rightarrow> filter_spec \<Rightarrow> filter_spec" where
  "revalue f (FilterList items) = FilterList (map (revalue_item f) items)"
| "revalue f (FilterGroup logic items) = FilterGroup logic (map (revalue_item f) items)"

lemma revalue_fields [simp]:
  "is_or (revalue f spec) = is_or spec" "spec_items (revalue f spec) = map (revalue_item f) (spec_items spec)"
  by (cases spec; simp)+

lemma own_clauses_revalue: "own_clauses (map (revalue_item f) items) = map (\<lambda>c. c\<lparr>fc_value := f c\<rparr>) (own_clauses items)"
proof (induction items)
  case (Cons i items)
  then show ?case by (cases i) (simp_all add: own_clauses_def)
qed (simp add: own_clauses_def)

lemma clauseToSql_revalue:
  assumes "clauseToSql c params = (Inr r, params')" and "length ps = length params"
  shows "\<exists>ps'. clauseToSql (c\<lparr>fc_value := v\<rparr>) ps = (Inr r, ps') \<and> length ps' = length params'"
  using assms by (auto simp: clauseToSql_form push_param_def split: if_splits clause_form.splits)

lemma fragments_revalue:
  assumes "map_action clauseToSql cs params = (Inr rs, params')" and "length ps = length params"
  shows "\<exists>ps'. map_action clauseToSql (map (\<lambda>c. c\<lparr>fc_value := f c\<rparr>) cs) ps = (Inr rs, ps') \<and> length ps' = length params'"
  using assms
proof (induction cs arbitrary: params ps rs)
  case Nil
  then show ?case by simp
next
  case (Cons c cs)
  then obtain r params1 rs' where one: "clauseToSql c params = (Inr r, params1)"
    and rest: "map_action clauseToSql cs params1 = (Inr rs', params')" and rs: "rs = r # rs'"
    by (auto simp: result_simps)
  from clauseToSql_revalue [OF one Cons.prems(2)] obtain ps1 where
    one': "clauseToSql (c\<lparr>fc_value := f c\<rparr>) ps = (Inr r, ps1)" "length ps1 = length params1" by blast
  from Cons.IH [OF rest one'(2)] one' rs show ?case by (auto simp: seq_def)
qed

lemma list_request_revalue:
  assumes "list_request table q = Inr (sql, params)"
  shows "\<exists>params'. list_request table (q\<lparr>lq_filter := map_option (revalue f) (lq_filter q)\<rparr>) = Inr (sql, params')"
proof (cases "lq_filter q")
  case None
  then have "q\<lparr>lq_filter := map_option (revalue f) (lq_filter q)\<rparr> = q" by simp
  with assms show ?thesis by auto
next
  case (Some spec)
  from assms obtain w where "compileFilter (lq_filter q) = Inr (w, params)" by (auto simp: list_request_def result_simps)
  with Some obtain rs where run: "map_action clauseToSql (own_clauses (spec_items spec)) [] = (Inr rs, params)"
    and w: "w = (if is_or spec then (if somes rs \<noteq> [] then ''('' @ join_with '' OR '' (somes rs) @ '')'' else '''')
      else join_with '' AND '' (somes rs))"
    by (auto simp: compileFilter_def compile_fragments_def result_simps split: prod.splits sum.splits)
  from fragments_revalue [OF run, of "[]" f] obtain ps where
    "map_action clauseToSql (own_clauses (spec_items (revalue f spec))) [] = (Inr rs, ps)" and len: "length ps = length params"
    by (auto simp: own_clauses_revalue)
  then have "compileFilter (Some (revalue f spec)) = Inr (w, ps)" by (simp add: compileFilter_def compile_fragments_def w)
  with assms Some len \<open>compileFilter (lq_filter q) = Inr (w, params)\<close> show ?thesis
    by (auto simp: list_request_def result_simps)
qed


definition sample_query :: list_query where
  "sample_query =
     \<lparr>lq_filter = Some (FilterGroup ''or''
        [FieldClause \<lparr>fc_field = ''title'', fc_op = OpContains, fc_value = JsString ''a''\<rparr>,
         FieldClause \<lparr>fc_field = ''score'', fc_op = OpCustom, fc_value = JsNull\<rparr>,
         FieldClause \<lparr>fc_field = ''done'', fc_op = OpEq, fc_value = JsBool True\<rparr>]),
      lq_sort = Some [\<lparr>st_field = ''title'', st_direction = Some Desc, st_nulls = Some NullsLast\<rparr>],
      lq_limit = Some 2, lq_cursor = None\<rparr>"

definition sample_sql :: string where
  "sample_sql = ''SELECT * FROM '' @ dquoted ''todos'' @ '' WHERE ('' @ dquoted ''title'' @ '' ILIKE $1 OR '' @
     dquoted ''done'' @ '' = $2) ORDER BY '' @ dquoted ''title'' @ '' DESC NULLS LAST LIMIT $3 OFFSET $4''"

lemma sample_request:
  "list_request ''todos'' sample_query = Inr (sample_sql, [LikeParam ''%'' (JsString ''a'') ''%'', ValueParam (JsBool True)])"
  by code_simp


subsection \<open>Clauses without a translation\<close>

definition translatable :: "filter_clause \<Rightarrow> bool" where
  "translatable c \<longleftrightarrow> form_of (fc_op c) \<noteq> Untranslated"

fun prune :: "filter_spec \<Rightarrow> filter_spec" where
  "prune (FilterList items) = FilterList (map FieldClause (filter translatable (own_clauses items)))"
| "prune (FilterGroup logic items) = FilterGroup logic (map FieldClause (filter translatable (own_clauses items)))"

text \<open>What a filter means, given the meaning of its clauses.\<close>

fun item_holds :: "(filter_clause \<Rightarrow> 'r \<Rightarrow> bool) \<Rightarrow> 'r \<Rightarrow> filter_item \<Rightarrow> bool" where
  "item_holds sat r (FieldClause c) \<longleftrightarrow> sat c r"
| "item_holds sat r (NestedGroup logic items) \<longleftrightarrow>
     (if logic = ''or'' then list_ex (item_holds sat r) items else list_all (item_holds sat r) items)"

definition spec_holds :: "(filter_clause \<Rightarrow> 'r \<Rightarrow> bool) \<Rightarrow> 'r \<Rightarrow> filter_spec \<Rightarrow> bool" where
  "spec_holds sat r spec \<longleftrightarrow>
     (if is_or spec then list_ex (item_holds sat r) (spec_items spec) else list_all (item_holds sat r) (spec_items spec))"

lemma prune_fields [simp]:
  "is_or (prune spec) = is_or spec"
  "spec_items (prune spec) = map FieldClause (filter translatable (own_clauses (spec_items spec)))"
  by (cases spec; simp)+

lemma own_clauses_FieldClause [simp]: "own_clauses (map FieldClause cs) = cs"
  by (induction cs) (simp_all add: own_clauses_def)

lemma set_own_clauses: "c \<in> set (own_clauses items) \<longleftrightarrow> FieldClause c \<in> set items"
proof (induction items)
  case (Cons i items)
  then show ?case by (cases i) (auto simp: own_clauses_def)
qed (simp add: own_clauses_def)

lemma fragments_prune:
  assumes "map_action clauseToSql cs params = (Inr rs, params')"
  shows "\<exists>rs'. map_action clauseToSql (filter translatable cs) params = (Inr rs', params') \<and> somes rs' = somes rs"
  using assms
proof (induction cs arbitrary: params rs)
  case Nil
  then show ?case by simp
next
  case (Cons c cs)
  then obtain r params1 rs' where one: "clauseToSql c params = (Inr r, params1)"
    and rest: "map_action clauseToSql cs params1 = (Inr rs', params')" and rs: "rs = r # rs'"
    by (auto simp: result_simps)
  from Cons.IH [OF rest] obtain rs'' where
    IH: "map_action clauseToSql (filter translatable cs) params1 = (Inr rs'', params')" "somes rs'' = somes rs'" by blast
  show ?case
  proof (cases r)
    case None
    then have "\<not> translatable c" "clause_params c = []"
      using clauseToSql_shows(2) [OF one] clause_params_form [of c] by (simp_all add: translatable_def)
    with IH None rs clauseToSql_shows(1) [OF one] show ?thesis by simp
  next
    case (Some f)
    then have "translatable c" using clauseToSql_shows(2) [OF one] by (simp add: translatable_def)
    with IH one Some rs show ?thesis by (auto simp: seq_def)
  qed
qed

lemma compileFilter_prune:
  assumes "compileFilter (Some spec) = Inr w"
  shows "compileFilter (Some (prune spec)) = Inr w"
proof -
  from assms obtain rs params where run: "map_action clauseToSql (own_clauses (spec_items spec)) [] = (Inr rs, params)"
    by (auto simp: compileFilter_def compile_fragments_def result_simps split: prod.splits sum.splits)
  from fragments_prune [OF run] obtain rs' where
    "map_action clauseToSql (filter translatable (own_clauses (spec_items spec))) [] = (Inr rs', params)" "somes rs' = somes rs" by blast
  with assms run show ?thesis by (simp add: compileFilter_def compile_fragments_def)
qed

text \<open>What happens to a filter's local-only clauses and nested groups. The statement is the one of the filter without them. For a conjunction
  the rows it selects include all rows of the filter, so that a local check of the rest is enough; for a
  disjunction it is the other way round: as soon as one alternative is translated, the rows of the dropped alternatives are missing.\<close>

theorem dropped_clauses:
  assumes "lq_filter q = Some spec" and "list_request table q = Inr request"
  shows "list_request table (q\<lparr>lq_filter := Some (prune spec)\<rparr>) = Inr request \<and>
    (if is_or spec then (spec_holds sat r (prune spec) \<longrightarrow> spec_holds sat r spec)
     else (spec_holds sat r spec \<longrightarrow> spec_holds sat r (prune spec)))"
proof
  from assms obtain w where w: "compileFilter (Some spec) = Inr w" by (auto simp: list_request_def result_simps)
  then show "list_request table (q\<lparr>lq_filter := Some (prune spec)\<rparr>) = Inr request"
    using assms compileFilter_prune [OF w] by (simp add: list_request_def)
  show "if is_or spec then (spec_holds sat r (prune spec) \<longrightarrow> spec_holds sat r spec)
     else (spec_holds sat r spec \<longrightarrow> spec_holds sat r (prune spec))"
    by (auto simp: spec_holds_def list_ex_iff list_all_iff set_own_clauses intro: rev_bexI)
qed

theorem dropped_clauses_witness:
  "list_request ''todos'' (sample_query\<lparr>lq_filter := map_option prune (lq_filter sample_query)\<rparr>) = list_request ''todos'' sample_query \<and>
   spec_holds (\<lambda>c _. fc_op c = OpCustom) () (the (lq_filter sample_query)) \<and>
   \<not> spec_holds (\<lambda>c _. fc_op c = OpCustom) () (prune (the (lq_filter sample_query)))"
proof -
  have spec: "lq_filter sample_query = Some (the (lq_filter sample_query))" by (simp add: sample_query_def)
  then have pruned: "map_option prune (lq_filter sample_query) = Some (prune (the (lq_filter sample_query)))" by (metis option.map(2))
  have "list_request ''todos'' (sample_query\<lparr>lq_filter := map_option prune (lq_filter sample_query)\<rparr>) = list_request ''todos'' sample_query"
    unfolding pruned sample_request by (rule conjunct1 [OF dropped_clauses [OF spec sample_request]])
  moreover have "spec_holds (\<lambda>c _. fc_op c = OpCustom) () (the (lq_filter sample_query)) \<and>
      \<not> spec_holds (\<lambda>c _. fc_op c = OpCustom) () (prune (the (lq_filter sample_query)))"
    by (simp add: spec_holds_def sample_query_def own_clauses_def translatable_def)
  ultimately show ?thesis by blast
qed

subsection \<open>Paging\<close>

text \<open>A caller that follows the cursor, for at most the given number of pages.\<close>

fun pages :: "('db, 'tx, 'row) pglite \<Rightarrow> string \<Rightarrow> nat \<Rightarrow> list_query \<Rightarrow> 'db \<Rightarrow> 'row list option" where
  "pages P table 0 q db = None"
| "pages P table (Suc n) q db =
     (case list_rows P table q db of
        (Inl e, _) \<Rightarrow> None
      | (Inr page, db') \<Rightarrow>
          (case lr_next_cursor page of
             None \<Rightarrow> Some (lr_rows page)
           | Some k \<Rightarrow> map_option (\<lambda>rest. lr_rows page @ rest) (pages P table n (q\<lparr>lq_cursor := Some (NumberCursor k)\<rparr>) db')))"

lemma list_request_cursor [simp]: "list_request table (q\<lparr>lq_cursor := k\<rparr>) = list_request table q"
  by (simp add: list_request_def)

lemma list_limit_cursor [simp]: "list_limit (q\<lparr>lq_cursor := k\<rparr>) = list_limit q"
  by (simp add: list_limit_def)

lemma list_offset_cursor [simp]: "list_offset (q\<lparr>lq_cursor := Some (NumberCursor k)\<rparr>) = k"
  by (simp add: list_offset_def)

definition selects :: "('db, 'tx, 'row) pglite \<Rightarrow> string \<Rightarrow> pg_param list \<Rightarrow> 'row list \<Rightarrow> 'db \<Rightarrow> bool" where
  "selects P sql params rows db \<longleftrightarrow>
     (\<forall>n k. pg_query P sql (params @ [NumberParam n, NumberParam k]) db = (Inr (take n (drop k rows)), db))"

lemma list_rows_page:
  assumes "list_request table q = Inr (sql, params)" and "selects P sql params rows db"
  shows "list_rows P table q db =
    (Inr \<lparr>lr_rows = take (list_limit q) (drop (list_offset q) rows),
          lr_next_cursor = (if list_limit q \<le> length rows - list_offset q then Some (list_offset q + list_limit q) else None)\<rparr>, db)"
proof -
  have "length (take (list_limit q) (drop (list_offset q) rows)) = list_limit q \<longleftrightarrow> list_limit q \<le> length rows - list_offset q"
    by auto
  with assms show ?thesis by (simp add: list_rows_def selects_def)
qed

lemma pages_from:
  assumes "list_request table q = Inr (sql, params)" and "selects P sql params rows db" and "0 < list_limit q"
    and "length rows - list_offset q < fuel * list_limit q"
  shows "pages P table fuel q db = Some (drop (list_offset q) rows)"
  using assms
proof (induction fuel arbitrary: q)
  case 0
  then show ?case by simp
next
  case (Suc fuel)
  let ?q = "q\<lparr>lq_cursor := Some (NumberCursor (list_offset q + list_limit q))\<rparr>"
  show ?case
  proof (cases "list_limit q \<le> length rows - list_offset q")
    case True
    have "length rows - list_offset ?q < fuel * list_limit ?q" using Suc.prems(4) True by simp
    then have "pages P table fuel ?q db = Some (drop (list_offset ?q) rows)" using Suc by simp
    then show ?thesis using True list_rows_page [OF Suc.prems(1,2)]
      by (simp add: add.commute) (metis append_take_drop_id drop_drop)
  next
    case False
    then show ?thesis using list_rows_page [OF Suc.prems(1,2)] by simp
  qed
qed

text \<open>C21: following the cursor gives every row once. When the statement's answer does not change meanwhile and the limit is
  positive, the pages end after at most one more than the number of full pages and are together the whole answer, in order. With a limit of zero
  the cursor never advances and the pages never end.\<close>

theorem list_paging_complete:
  assumes "list_request table q = Inr (sql, params)" and "selects P sql params rows db" and "lq_cursor q = None"
  shows "if list_limit q = 0 then pages P table fuel q db = None
    else pages P table (length rows div list_limit q + 1 + fuel) q db = Some rows"
proof (cases "list_limit q = 0")
  case True
  have "pages P table fuel q' db = None" if "list_limit q' = 0" "list_request table q' = Inr (sql, params)" for q'
    using that by (induction fuel arbitrary: q') (simp_all add: list_rows_page [OF _ assms(2)])
  with True assms(1) show ?thesis by simp
next
  case False
  have "length rows < (length rows div list_limit q + 1 + fuel) * list_limit q"
    using False dividend_less_div_times [of "list_limit q" "length rows"] by (simp add: algebra_simps trans_less_add2)
  then show ?thesis using pages_from [OF assms(1,2), of "length rows div list_limit q + 1 + fuel"] False assms(3)
    by (simp add: list_offset_def)
qed

text \<open>A database whose answer to every query is five rows.\<close>

definition five_rows :: "(unit, unit, nat) pglite" where
  "five_rows =
     \<lparr>tx_query = (\<lambda>_ _. ret []), pg_transaction = (\<lambda>body db. (fst (body db), db)),
      pg_query = (\<lambda>_ params. ret (case rev params of
        NumberParam k # NumberParam n # _ \<Rightarrow> take n (drop k [1, 2, 3, 4, 5]) | _ \<Rightarrow> []))\<rparr>"

theorem list_paging_complete_witness: "pages five_rows ''todos'' 3 sample_query () = Some [1, 2, 3, 4, 5]"
proof -
  have "selects five_rows sample_sql [LikeParam ''%'' (JsString ''a'') ''%'', ValueParam (JsBool True)] [1, 2, 3, 4, 5] ()"
    by (simp add: selects_def five_rows_def)
  moreover have "lq_cursor sample_query = None" "list_limit sample_query = 2" by (simp_all add: sample_query_def list_limit_def)
  moreover have "length [1 :: nat, 2, 3, 4, 5] div 2 + 1 + 0 = 3" by simp
  ultimately show ?thesis using list_paging_complete [OF sample_request, of five_rows "[1, 2, 3, 4, 5]" "()" 0] by (metis zero_neq_numeral)
qed

end
