(* ===== verification/Transport_Properties.thy ===== *)
theory Transport_Properties
  imports Transport_Queries
begin

section \<open>Properties of the entity transport\<close>

text \<open>
  What the change events tell a subscriber, what the status store shows, and when the deltas reach the local database at all.
  \<open>pglite_reads\<close> adds to a database that does not fail what the transport relies on in its reads: a \<^verbatim>\<open>SELECT\<close>
  changes no table, and the query for one id returns its row.
\<close>

subsection \<open>Change events\<close>

locale pglite_reads = pglite_healthy P opened tables
  for P :: "('db, 'tx, 'row) pglite" and opened :: "'db \<Rightarrow> 'tx" and tables :: "'tx \<Rightarrow> local_tables" +
  fixes row_of :: "string \<Rightarrow> local_row \<Rightarrow> 'row"
  assumes select_keeps: "take 7 sql = ''SELECT '' \<Longrightarrow> pg_query P sql params db = (r, db') \<Longrightarrow>
      tables (opened db') = tables (opened db)"
    and select_finds: "plain_identifier t \<Longrightarrow> \<exists>db'. pg_query P (select_one (dquoted t)) [TextParam i] db =
      (Inr (case tables (opened db) t i of None \<Rightarrow> [] | Some r \<Rightarrow> [row_of i r]), db')"
begin

text \<open>The event of an op when the table has the rows \<open>T\<close>.\<close>

definition event_of :: "(string \<Rightarrow> local_row option) \<Rightarrow> ts_bucket_op \<Rightarrow> 'row change_event list" where
  "event_of T op =
     (if to_op op = TsDelete then [DeleteEvent (to_entity_id op)]
      else case T (to_entity_id op) of None \<Rightarrow> [] | Some r \<Rightarrow> [UpdateEvent (to_entity_id op) (row_of (to_entity_id op) r)])"

lemma notify_each_events:
  assumes "plain_identifier t"
  shows "\<exists>db'. notify_each P t ops db = (concat (map (event_of (tables (opened db) t)) ops), db') \<and>
    tables (opened db') = tables (opened db)"
proof (induction ops arbitrary: db)
  case Nil
  then show ?case by simp
next
  case (Cons op ops)
  obtain db1 where one: "notifyOne P t (to_entity_id op) (to_op op) db = (event_of (tables (opened db) t) op, db1)"
    "tables (opened db1) = tables (opened db)"
  proof (cases "to_op op = TsDelete")
    case True
    then show ?thesis using that by (simp add: notifyOne_def event_of_def)
  next
    case False
    obtain db1 where read: "pg_query P (select_one (dquoted t)) [TextParam (to_entity_id op)] db =
        (Inr (case tables (opened db) t (to_entity_id op) of None \<Rightarrow> [] | Some r \<Rightarrow> [row_of (to_entity_id op) r]), db1)"
      using select_finds [OF assms] by blast
    moreover have "take 7 (select_one (dquoted t)) = ''SELECT ''" by (simp add: select_one_def)
    ultimately have "tables (opened db1) = tables (opened db)" using select_keeps by blast
    with read False assms show ?thesis using that
      by (auto simp: notifyOne_def event_of_def identifierName_def first_row_def split: option.splits)
  qed
  from Cons.IH [of db1] one show ?case by auto
qed

end

text \<open>What a subscriber that keeps a copy of the table does with an event.\<close>

fun take_event :: "'row change_event \<Rightarrow> (string \<Rightarrow> 'row option) \<Rightarrow> (string \<Rightarrow> 'row option)" where
  "take_event (DeleteEvent i) m = m(i := None)"
| "take_event (UpdateEvent i r) m = m(i := Some r)"

definition rows_of :: "(string \<Rightarrow> local_row \<Rightarrow> 'row) \<Rightarrow> (string \<Rightarrow> local_row option) \<Rightarrow> (string \<Rightarrow> 'row option)" where
  "rows_of row_of T = (\<lambda>i. map_option (row_of i) (T i))"

context pglite_reads
begin

definition cell_event :: "(string \<Rightarrow> local_row option) \<Rightarrow> string \<Rightarrow> ts_bucket_op \<Rightarrow> 'row option \<Rightarrow> 'row option" where
  "cell_event T i op x =
     (if to_op op = TsDelete then None else case T i of None \<Rightarrow> x | Some r \<Rightarrow> Some (row_of i r))"

lemma fold_event_of:
  "fold take_event (event_of T op) m i = (if to_entity_id op = i then cell_event T i op (m i) else m i)"
  by (auto simp: event_of_def cell_event_def split: option.split)

lemma events_cell:
  "fold take_event (concat (map (event_of T) ops)) m i = fold (cell_event T i) (filter (\<lambda>op. to_entity_id op = i) ops) (m i)"
  by (induction ops arbitrary: m) (simp_all add: fold_event_of)

lemma cell_final:
  assumes "list_all applicable ops" and "T i = fold store_op (map to_op ops) r"
  shows "fold (cell_event T i) ops (map_option (row_of i) r) = map_option (row_of i) (T i)"
proof (cases ops rule: rev_cases)
  case Nil
  with assms(2) show ?thesis by simp
next
  case (snoc before op)
  have "applicable op" using assms(1) snoc by simp
  then show ?thesis using assms(2) snoc
    by (cases "to_op op") (auto simp: cell_event_def applicable.simps)
qed

lemma events_track:
  assumes "plain_identifier t" and "list_all applicable ops" and "list_all (\<lambda>op. to_entity_type op = t) ops"
    and "handleOps P t ops db = (evs, db')"
  shows "fold take_event evs (rows_of row_of (tables (opened db) t)) = rows_of row_of (tables (opened db') t)"
proof
  fix i
  from apply_ops_run [OF assms(2), of db] obtain db1 where run: "applyOps P ops db = (Inr (), db1)"
    and T: "tables (opened db1) = fold local_apply ops (tables (opened db))" by blast
  from notify_each_events [OF assms(1), of ops db1] run assms(4)
  have evs: "evs = concat (map (event_of (tables (opened db1) t)) ops)" and db': "tables (opened db') = tables (opened db1)"
    by (auto simp: handleOps_def)
  let ?ks = "filter (\<lambda>op. to_entity_id op = i) ops"
  have "filter (\<lambda>op. to_entity_type op = t \<and> to_entity_id op = i) ops = ?ks"
    using assms(3) by (intro filter_cong) (auto simp: list_all_iff)
  then have "tables (opened db1) t i = fold store_op (map to_op ?ks) (tables (opened db) t i)"
    by (simp add: T fold_local_apply ops_on_def)
  moreover have "list_all applicable ?ks" using assms(2) by (simp add: list_all_iff)
  ultimately have "fold (cell_event (tables (opened db1) t) i) ?ks (map_option (row_of i) (tables (opened db) t i)) =
      map_option (row_of i) (tables (opened db1) t i)"
    using cell_final by blast
  then show "fold take_event evs (rows_of row_of (tables (opened db) t)) i = rows_of row_of (tables (opened db') t) i"
    by (simp add: evs events_cell db' rows_of_def)
qed

end

text \<open>C14: the change events keep a subscriber's copy of the table right. When a batch of ops of known kinds for the transport's table is handled on a
  database that does not fail, a copy of the table that follows the emitted events in order holds, afterwards, the rows of the
  table; this covers batches with several ops on one id in any order. If applying the batch fails, no event is emitted and the table
  is unchanged.\<close>

theorem events_track_table:
  assumes "handleOps P t ops db = (evs, db')"
  shows "(pglite_store P opened tables \<and> (\<exists>e db1. applyOps P ops db = (Inl e, db1)) \<longrightarrow> evs = [] \<and> db' = db) \<and>
    (pglite_reads P opened tables row_of \<and> plain_identifier t \<and> filter applicable ops = ops \<and>
       filter (\<lambda>op. to_entity_type op = t) ops = ops \<longrightarrow>
     fold take_event evs (rows_of row_of (tables (opened db) t)) = rows_of row_of (tables (opened db') t))"
proof (intro conjI impI)
  assume "pglite_store P opened tables \<and> (\<exists>e db1. applyOps P ops db = (Inl e, db1))"
  then show "evs = []" "db' = db"
    using assms pglite_store.apply_ops_cases [of P opened tables ops db] by (auto simp: handleOps_def)
next
  assume "pglite_reads P opened tables row_of \<and> plain_identifier t \<and> filter applicable ops = ops \<and>
    filter (\<lambda>op. to_entity_type op = t) ops = ops"
  then show "fold take_event evs (rows_of row_of (tables (opened db) t)) = rows_of row_of (tables (opened db') t)"
    by (intro pglite_reads.events_track [OF _ _ _ _ assms]) (simp_all add: filter_id_conv list_all_iff)
qed

subsection \<open>The status store\<close>

text \<open>The client reports every change of its status.\<close>

definition reported :: "sync_client \<Rightarrow> sync_client \<Rightarrow> bool" where
  "reported c c' \<longleftrightarrow>
     sc_status c' = last (sc_status c # concat (map status_of (drop (length (sc_log c)) (sc_log c'))))"

lemma no_status [simp]:
  "concat (map (status_of \<circ> (\<lambda>h. DeltaCallback h d)) hs) = []" "concat (map (status_of \<circ> (\<lambda>h. SnapshotCallback h b)) hs) = []"
  by (induction hs) simp_all

lemma reported_api:
  "reported c (client_subscribe buckets lsn c)" "reported c (client_disconnect c)"
  "reported c (snd (client_write entityType entityId op c))"
  by (simp_all add: reported_def client_defs Let_def split: option.split prod.split)

lemma reported_step: "\<not> api_event ev \<Longrightarrow> reported c (client_step E t ev c)"
  by (cases ev) (auto simp: reported_def client_defs Let_def
    split: option.split sum.split prod.split awaiting.split timer_callback.split ts_server_message.split)

lemma ss_state_fold: "ss_state (fold store_setState ss s) = last (ss_state s # ss)"
  by (induction ss arbitrary: s) (simp_all add: store_setState_def)

definition mirrors :: "('db, 'row) transport \<Rightarrow> bool" where
  "mirrors x \<longleftrightarrow> ss_state (tp_store x) = sc_status (tp_client x)"

lemma mirrors_with_client: "mirrors x \<Longrightarrow> reported (tp_client x) c \<Longrightarrow> mirrors (tp_with_client C c x)"
  by (simp add: mirrors_def tp_with_client_def Let_def ss_state_fold reported_def)

lemma mirrors_ensure: "mirrors x \<Longrightarrow> mirrors (ensureSubscribed C x)"
proof -
  assume "mirrors x"
  then have "mirrors (x\<lparr>tp_subscribed := True\<rparr>)" by (simp add: mirrors_def)
  from mirrors_with_client [OF this, of "client_subscribe [tc_bucket C] None (tp_client x)" C] \<open>mirrors x\<close>
  show ?thesis by (simp add: ensureSubscribed_def reported_api)
qed

lemma mirrors_step:
  assumes "mirrors x" and "tp_enabled x ev"
  shows "mirrors (tp_step E P C ev x)"
proof (cases ev)
  case (TpWrite input)
  let ?y = "ensureSubscribed C x"
  obtain r c' where w: "client_write (tc_table C) (input_id input) (input_op input) (tp_client ?y) = (r, c')" by (meson surj_pair)
  then have "reported (tp_client ?y) c'" using reported_api(3) by (metis snd_conv)
  from mirrors_with_client [OF mirrors_ensure [OF assms(1)] this] TpWrite w show ?thesis
    by (cases r) (simp_all add: transport_write_def)
next
  case (TpClient t e)
  then show ?thesis using assms by (simp add: mirrors_with_client reported_step)
next
  case TpDisconnect
  then show ?thesis using assms by (simp add: transport_disconnect_def mirrors_with_client reported_api)
qed (use assms(1) mirrors_ensure [OF assms(1), of C] in
  \<open>auto simp: transport_list_def transport_get_def transport_subscribe_def transport_unsubscribe_def run_task_def Let_def
     store_subscribe_def store_unsubscribe_def onDelta_def offDelta_def mirrors_def split: prod.split list.split\<close>)

lemma mirrors_run: "tp_run E P C evs x = Some x' \<Longrightarrow> mirrors x \<Longrightarrow> mirrors x'"
  by (induction evs arbitrary: x) (auto simp: mirrors_step split: if_splits)

text \<open>The observable status is the client's. In every run of the transport, whatever the application, the network and the timers do, the
  status store holds the status the client has.\<close>

theorem status_store_mirrors:
  assumes "tp_run E P C evs (new_transport db) = Some x"
  shows "ss_state (tp_store x) = sc_status (tp_client x)"
proof -
  have "mirrors (new_transport db)" by (simp add: mirrors_def new_transport_def createStatusStore_def new_client_def)
  from mirrors_run [OF assms this] show ?thesis by (simp add: mirrors_def)
qed

subsection \<open>When deltas reach the database\<close>

lemma no_task [simp]:
  "concat (map (task_of C \<circ> (\<lambda>h. SnapshotCallback h b)) hs) = []"
  by (induction hs) simp_all

definition tasks_in :: "transport_config \<Rightarrow> sync_client \<Rightarrow> sync_client \<Rightarrow> (nat \<times> ts_bucket_op list) list" where
  "tasks_in C c c' = concat (map (task_of C) (drop (length (sc_log c)) (sc_log c')))"

lemma no_tasks_api:
  "tasks_in C c (client_subscribe buckets lsn c) = []" "tasks_in C c (client_disconnect c) = []"
  "tasks_in C c (snd (client_write entityType entityId op c)) = []"
  by (simp_all add: tasks_in_def client_defs Let_def split: option.split prod.split)

lemma no_tasks_step:
  "\<not> api_event ev \<Longrightarrow> sc_delta_handlers c = [] \<Longrightarrow> tasks_in C c (client_step E t ev c) = []"
  by (cases ev) (auto simp: tasks_in_def client_defs Let_def
    split: option.split sum.split prod.split awaiting.split timer_callback.split ts_server_message.split)

lemma delta_handlers_api:
  "sc_delta_handlers (client_subscribe buckets lsn c) = sc_delta_handlers c"
  "sc_delta_handlers (client_disconnect c) = sc_delta_handlers c"
  "sc_delta_handlers (snd (client_write entityType entityId op c)) = sc_delta_handlers c"
  by (simp_all add: client_defs Let_def split: option.split prod.split)

lemma delta_handlers_step:
  "\<not> api_event ev \<Longrightarrow> sc_delta_handlers (client_step E t ev c) = sc_delta_handlers c"
  by (cases ev) (auto simp: client_defs Let_def
    split: option.split sum.split prod.split awaiting.split timer_callback.split ts_server_message.split)

lemma tp_with_client_fields [simp]:
  "tp_client (tp_with_client C c x) = c" "tp_db (tp_with_client C c x) = tp_db x" "tp_events (tp_with_client C c x) = tp_events x"
  "tp_tasks (tp_with_client C c x) = tp_tasks x @ tasks_in C (tp_client x) c"
  by (simp_all add: tp_with_client_def tasks_in_def Let_def)

text \<open>No handler, hence no task and no event.\<close>

definition inert :: "('db, 'row) transport \<Rightarrow> bool" where
  "inert x \<longleftrightarrow> sc_delta_handlers (tp_client x) = [] \<and> tp_tasks x = [] \<and> tp_events x = []"

lemma inert_ensure: "inert x \<Longrightarrow> inert (ensureSubscribed C x) \<and> tp_db (ensureSubscribed C x) = tp_db x"
  by (simp add: inert_def ensureSubscribed_def no_tasks_api delta_handlers_api)

context pglite_reads
begin

lemma list_rows_keeps: "list_rows P t q db = (r, db') \<Longrightarrow> tables (opened db') = tables (opened db)"
proof -
  have "take 7 sql = ''SELECT ''" if "list_request t q = Inr (sql, params)" for sql params
    using that by (auto simp: list_request_def list_text_def result_simps)
  then show "list_rows P t q db = (r, db') \<Longrightarrow> tables (opened db') = tables (opened db)"
    by (auto simp: list_rows_def dest: select_keeps split: sum.splits prod.splits)
qed

lemma get_row_keeps: "get_row P t i aborted db = (r, db') \<Longrightarrow> tables (opened db') = tables (opened db)"
proof -
  have "take 7 (select_one name) = ''SELECT ''" for name by (simp add: select_one_def)
  then show "get_row P t i aborted db = (r, db') \<Longrightarrow> tables (opened db') = tables (opened db)"
    by (auto simp: get_row_def dest: select_keeps split: sum.splits prod.splits if_splits)
qed

lemma inert_step:
  assumes "inert x" and "tp_enabled x ev" and "ev \<noteq> TpSubscribe"
  shows "inert (tp_step E P C ev x) \<and> tables (opened (tp_db (tp_step E P C ev x))) = tables (opened (tp_db x))"
proof (cases ev)
  case (TpWrite input)
  let ?y = "ensureSubscribed C x"
  obtain r c' where w: "client_write (tc_table C) (input_id input) (input_op input) (tp_client ?y) = (r, c')" by (meson surj_pair)
  then have "tasks_in C (tp_client ?y) c' = []" "sc_delta_handlers c' = sc_delta_handlers (tp_client ?y)"
    using no_tasks_api(3) delta_handlers_api(3) by (metis snd_conv)+
  then show ?thesis using inert_ensure [OF assms(1), of C] TpWrite w
    by (cases r) (simp_all add: transport_write_def inert_def)
next
  case (TpClient t e)
  then show ?thesis using assms by (simp add: inert_def no_tasks_step delta_handlers_step)
next
  case (TpList q)
  obtain r db' where l: "list_rows P (tc_table C) q (tp_db (ensureSubscribed C x)) = (r, db')" by (meson surj_pair)
  with TpList inert_ensure [OF assms(1), of C] list_rows_keeps [OF l] show ?thesis
    by (simp add: transport_list_def inert_def)
next
  case (TpGet i aborted)
  obtain r db' where l: "get_row P (tc_table C) i aborted (tp_db (ensureSubscribed C x)) = (r, db')" by (meson surj_pair)
  with TpGet inert_ensure [OF assms(1), of C] get_row_keeps [OF l] show ?thesis
    by (simp add: transport_get_def inert_def)
qed (use assms in \<open>simp_all add: inert_def transport_unsubscribe_def transport_disconnect_def run_task_def offDelta_def
  no_tasks_api delta_handlers_api\<close>)

lemma inert_run:
  "tp_run E P C evs x = Some x' \<Longrightarrow> TpSubscribe \<notin> set evs \<Longrightarrow> inert x \<Longrightarrow>
   inert x' \<and> tables (opened (tp_db x')) = tables (opened (tp_db x))"
proof (induction evs arbitrary: x)
  case Nil
  then show ?case by simp
next
  case (Cons ev evs)
  then have run: "tp_run E P C evs (tp_step E P C ev x) = Some x'" and on: "tp_enabled x ev"
    by (simp_all split: if_splits)
  from inert_step [OF Cons.prems(3) on, of E C] Cons.prems(2)
  have "inert (tp_step E P C ev x)" "tables (opened (tp_db (tp_step E P C ev x))) = tables (opened (tp_db x))" by auto
  with Cons.IH [OF run] Cons.prems(2) show ?case by simp
qed

end


subsection \<open>Examples\<close>

definition selected_table :: "string \<Rightarrow> string" where
  "selected_table sql = takeWhile (\<lambda>c. c \<noteq> CHR 0x22) (drop 15 sql)"

fun mem_select :: "(local_tables, string \<times> local_row) query_fn" where
  "mem_select sql [TextParam i] T =
     (Inr (if sql = select_one (dquoted (selected_table sql))
           then (case T (selected_table sql) i of None \<Rightarrow> [] | Some r \<Rightarrow> [(i, r)]) else []), T)"
| "mem_select sql params T = (Inr [], T)"

lemma mem_select_keeps: "snd (mem_select sql params T) = T"
  by (cases "(sql, params, T)" rule: mem_select.cases) simp_all

lemma selected_table_plain: "plain_identifier t \<Longrightarrow> selected_table (select_one (dquoted t)) = t"
  by (simp add: selected_table_def select_one_def dquoted_def named_table_plain)

interpretation mem_reads: pglite_reads "mem_pglite mem_select" id id Pair
proof
  show "id (id db') = id (id db)" if "pg_query (mem_pglite mem_select) sql params db = (r, db')" for sql params db r db'
    using that mem_select_keeps [of sql params db] by (simp add: mem_pglite_def)
  show "\<exists>db'. pg_query (mem_pglite mem_select) (select_one (dquoted t)) [TextParam i] db =
      (Inr (case id (id db) t i of None \<Rightarrow> [] | Some r \<Rightarrow> [(i, r)]), db')" if "plain_identifier t" for t i db
    by (simp add: mem_pglite_def selected_table_plain [OF that])
qed

definition todos_config :: transport_config where
  "todos_config = \<lparr>tc_bucket = ''u'', tc_table = ''todos''\<rparr>"

theorem events_track_table_witness:
  "case handleOps (mem_pglite mem_select) ''todos'' sample_batch (\<lambda>_ _. None) of
     (evs, db') \<Rightarrow> fold take_event evs (\<lambda>_. None) ''7'' = Some (''7'', \<lparr>lr_payload = Some (JsString ''a''), lr_crdt_state = None\<rparr>)"
proof -
  obtain evs db' where run: "handleOps (mem_pglite mem_select) ''todos'' sample_batch (\<lambda>_ _. None) = (evs, db')" by (meson surj_pair)
  have batch: "filter (\<lambda>op. to_entity_type op = ''todos'') sample_batch = sample_batch" "plain_identifier ''todos''"
    by (simp add: sample_batch_def, code_simp)
  have ok: "list_all applicable sample_batch" using sample_batch_applicable by (simp add: filter_id_conv list_all_iff)
  obtain db1 where one: "applyOps (mem_pglite mem_select) sample_batch (\<lambda>_ _. None) = (Inr (), db1)"
    "db1 = fold local_apply sample_batch (\<lambda>_ _. None)"
    using pglite_healthy.apply_ops_run [OF mem_pglite_ok(1) ok, of mem_select "\<lambda>_ _. None"] by auto
  from mem_reads.notify_each_events [OF batch(2), of sample_batch db1] run one(1) have db': "db' = db1"
    by (auto simp: handleOps_def)
  from events_track_table [OF run, of id id Pair] mem_reads.pglite_reads_axioms sample_batch_applicable batch
  have "fold take_event evs (rows_of Pair (\<lambda>_. None)) = rows_of Pair (db' ''todos'')" by simp
  moreover have "rows_of Pair (\<lambda>_. None) = (\<lambda>_. None :: (string \<times> local_row) option)" by (simp add: rows_of_def)
  ultimately have "fold take_event evs (\<lambda>_. None) ''7'' = rows_of Pair (db' ''todos'') ''7''" by simp
  then show ?thesis using run unfolding db' one(2)
    by (simp add: rows_of_def sample_batch_def local_apply_def set_row_def row_or_new_def)
qed

definition todos_env :: client_env where
  "todos_env = sample_env\<lparr>ce_decode := (\<lambda>_. Inr (TsDelta ''u'' sample_batch 6))\<rparr>"

definition listing_events :: "transport_event list" where
  "listing_events = [TpList sample_query, TpClient sample_tick (TokenSettled 0 (Inr ''token'')),
     TpClient sample_tick (SocketOpened 0), TpClient sample_tick (SocketMessage 0 [])]"

lemma sample_listing:
  "list_rows (mem_pglite mem_select) ''todos'' sample_query T = (Inr \<lparr>lr_rows = [], lr_next_cursor = None\<rparr>, T)"
proof -
  have "list_limit sample_query = 2" by (simp add: sample_query_def list_limit_def)
  then show ?thesis by (simp add: list_rows_def sample_request mem_pglite_def)
qed

lemma listing_run:
  "\<exists>x. tp_run todos_env (mem_pglite mem_select) todos_config listing_events (new_transport (\<lambda>_ _. None)) = Some x \<and>
     sk_frames (sc_sockets (tp_client x) ! 0) = [TsSubscribe [''u''] ''token'' None TS_PROTOCOL_VERSION, TsAck 6] \<and>
     sc_status (tp_client x) = LiveStatus (LsnOf 6)"
  by (simp add: listing_events_def transport_list_def Let_def ensureSubscribed_def new_transport_def new_client_def new_scheduler_def
      todos_config_def sample_listing tp_with_client_def client_subscribe_def ws_open_def client_connect_def
      ask_token_def setStatus_def settle_def remove_nth_def todos_env_def sample_env_def
      connect_continue_def on_open_def update_socket_def sendSubscribe_def client_send_def clearRefreshTimer_def
      scheduleTokenRefresh_def scheduleJwtRefresh_def decodeJwtExpiry_def handleMessage_def on_delta_def
      split: option.split list.split)


theorem status_store_mirrors_witness:
  "\<exists>x. tp_run todos_env (mem_pglite mem_select) todos_config listing_events (new_transport (\<lambda>_ _. None)) = Some x \<and>
     ss_state (tp_store x) = LiveStatus (LsnOf 6)"
proof -
  obtain x where x: "tp_run todos_env (mem_pglite mem_select) todos_config listing_events (new_transport (\<lambda>_ _. None)) = Some x"
    "sc_status (tp_client x) = LiveStatus (LsnOf 6)"
    using listing_run by blast
  with status_store_mirrors [OF x(1)] show ?thesis by auto
qed

end
