(* ===== verification/React_Hooks.thy ===== *)
theory React_Hooks
  imports Transport_Properties
begin

section \<open>The React hooks (\<^verbatim>\<open>entity-sync-react: hooks.ts\<close>)\<close>

text \<open>
  \<^verbatim>\<open>useEntitySync\<close> with the cells React keeps for it: the two refs, the state variable and whether the component is mounted. React
  calls the hook at every render and its effect's cleanup at unmount; that it keeps the cells between renders
  and ignores a state update after unmount is what is used of it (the cleanup runs once, as outside strict mode).
  A configuration is any value; a report is recorded with the configuration whose callback gets it, if it has one.
  The \<^verbatim>\<open>subscribe\<close> callback may outlive the component.
\<close>

record 'cfg sync_hook =
  hk_client :: "sync_client option"
  hk_created_with :: "'cfg option"
  hk_config :: "'cfg option"
  hk_status :: sync_status
  hk_mounted :: bool
  hk_reports :: "('cfg option \<times> sync_status) list"

definition fresh_hook :: "'cfg sync_hook" where
  "fresh_hook = \<lparr>hk_client = None, hk_created_with = None, hk_config = None, hk_status = DisconnectedStatus,
     hk_mounted = True, hk_reports = []\<rparr>"

definition hook_render :: "'cfg \<Rightarrow> 'cfg sync_hook \<Rightarrow> 'cfg sync_hook" where
  "hook_render config h =
     (let h = h\<lparr>hk_config := Some config\<rparr> in
      if hk_client h = None then h\<lparr>hk_client := Some new_client, hk_created_with := Some config\<rparr> else h)"

text \<open>The \<^verbatim>\<open>onStatus\<close> the client was created with.\<close>

definition hook_on_status :: "sync_status \<Rightarrow> 'cfg sync_hook \<Rightarrow> 'cfg sync_hook" where
  "hook_on_status next h =
     (let h = (if hk_mounted h then h\<lparr>hk_status := next\<rparr> else h) in
      h\<lparr>hk_reports := hk_reports h @ [(hk_config h, next)]\<rparr>)"

definition hook_with_client :: "sync_client \<Rightarrow> sync_client \<Rightarrow> 'cfg sync_hook \<Rightarrow> 'cfg sync_hook" where
  "hook_with_client c c' h =
     fold hook_on_status (concat (map status_of (drop (length (sc_log c)) (sc_log c')))) (h\<lparr>hk_client := Some c'\<rparr>)"

definition hook_subscribe :: "string list \<Rightarrow> 'cfg sync_hook \<Rightarrow> 'cfg sync_hook" where
  "hook_subscribe buckets h =
     (case hk_client h of None \<Rightarrow> h | Some c \<Rightarrow> hook_with_client c (client_subscribe buckets None c) h)"

definition hook_unmount :: "'cfg sync_hook \<Rightarrow> 'cfg sync_hook" where
  "hook_unmount h =
     (let h = h\<lparr>hk_mounted := False\<rparr> in
      case hk_client h of None \<Rightarrow> h | Some c \<Rightarrow> hook_with_client c (client_disconnect c) h)"

definition useSyncStatus :: "sync_status option \<Rightarrow> sync_status" where
  "useSyncStatus context_value = (case context_value of None \<Rightarrow> DisconnectedStatus | Some status \<Rightarrow> status)"

datatype 'cfg hook_event = Render 'cfg | HookSubscribe "string list" | Unmount | HookClient tick client_event

fun hook_enabled :: "'cfg sync_hook \<Rightarrow> 'cfg hook_event \<Rightarrow> bool" where
  "hook_enabled h (HookClient t ev) \<longleftrightarrow> \<not> api_event ev \<and> (case hk_client h of None \<Rightarrow> False | Some c \<Rightarrow> enabled c ev)"
| "hook_enabled h (HookSubscribe _) \<longleftrightarrow> True"
| "hook_enabled h _ \<longleftrightarrow> hk_mounted h"

fun hook_step :: "client_env \<Rightarrow> 'cfg hook_event \<Rightarrow> 'cfg sync_hook \<Rightarrow> 'cfg sync_hook" where
  "hook_step E (Render config) h = hook_render config h"
| "hook_step E (HookSubscribe buckets) h = hook_subscribe buckets h"
| "hook_step E Unmount h = hook_unmount h"
| "hook_step E (HookClient t ev) h =
     (case hk_client h of None \<Rightarrow> h | Some c \<Rightarrow> hook_with_client c (client_step E t ev c) h)"

fun hook_run :: "client_env \<Rightarrow> 'cfg hook_event list \<Rightarrow> 'cfg sync_hook \<Rightarrow> 'cfg sync_hook option" where
  "hook_run E [] h = Some h"
| "hook_run E (ev # evs) h = (if hook_enabled h ev then hook_run E evs (hook_step E ev h) else None)"

subsection \<open>What the hook shows\<close>

lemma fold_on_status [simp]:
  "hk_client (fold hook_on_status ss h) = hk_client h" "hk_created_with (fold hook_on_status ss h) = hk_created_with h"
  "hk_mounted (fold hook_on_status ss h) = hk_mounted h"
  "hk_status (fold hook_on_status ss h) = (if hk_mounted h then last (hk_status h # ss) else hk_status h)"
  by (induction ss arbitrary: h) (simp_all add: hook_on_status_def Let_def)

definition hook_ok :: "'cfg sync_hook \<Rightarrow> bool" where
  "hook_ok h \<longleftrightarrow> (case hk_client h of None \<Rightarrow> hk_status h = DisconnectedStatus
     | Some c \<Rightarrow> hk_mounted h \<longrightarrow> hk_status h = sc_status c)"

lemma hook_ok_with_client:
  "hook_ok h \<Longrightarrow> hk_client h = Some c \<Longrightarrow> reported c c' \<Longrightarrow> hook_ok (hook_with_client c c' h)"
  by (simp add: hook_ok_def hook_with_client_def reported_def)

lemma hook_step_ok:
  assumes "hook_ok h" and "hook_enabled h ev"
  shows "hook_ok (hook_step E ev h)"
proof (cases "hk_client h")
  case None
  then show ?thesis using assms
    by (cases ev) (simp_all add: hook_ok_def hook_render_def hook_subscribe_def hook_unmount_def Let_def new_client_def)
next
  case (Some c)
  show ?thesis
  proof (cases ev)
    case (Render config)
    with assms Some show ?thesis by (simp add: hook_ok_def hook_render_def Let_def)
  next
    case (HookSubscribe buckets)
    with assms Some show ?thesis by (simp add: hook_subscribe_def hook_ok_with_client reported_api)
  next
    case Unmount
    with Some show ?thesis by (simp add: hook_ok_def hook_unmount_def Let_def hook_with_client_def)
  next
    case (HookClient t e)
    with assms Some show ?thesis by (simp add: hook_ok_with_client reported_step)
  qed
qed

lemma hook_run_ok: "hook_run E evs h = Some h' \<Longrightarrow> hook_ok h \<Longrightarrow> hook_ok h'"
  by (induction evs arbitrary: h) (auto simp: hook_step_ok split: if_splits)

text \<open>While the component is mounted, the status the hook returns is the status of its client, in every run.\<close>

theorem hook_shows_client_status:
  assumes "hook_run E evs fresh_hook = Some h" and "hk_client h = Some c" and "hk_mounted h"
  shows "hk_status h = sc_status c"
proof -
  have "hook_ok fresh_hook" by (simp add: hook_ok_def fresh_hook_def)
  from hook_run_ok [OF assms(1) this] assms(2,3) show ?thesis by (simp add: hook_ok_def)
qed

subsection \<open>One client per mount\<close>

lemma hook_step_created:
  "hk_client h \<noteq> None \<Longrightarrow> hk_client (hook_step E ev h) \<noteq> None \<and> hk_created_with (hook_step E ev h) = hk_created_with h"
  by (cases ev) (auto simp: hook_render_def hook_subscribe_def hook_unmount_def hook_with_client_def Let_def)

lemma hook_run_created:
  "hook_run E evs h = Some h' \<Longrightarrow> hk_client h \<noteq> None \<Longrightarrow> hk_created_with h' = hk_created_with h"
proof (induction evs arbitrary: h)
  case (Cons ev evs)
  with hook_step_created [of h E ev] show ?case by (simp split: if_splits)
qed simp

text \<open>The client is created with the configuration of the first render and never again: a render with another server URL
  changes nothing but the callback.\<close>

theorem first_configuration_stays:
  assumes "hook_run E (Render config # evs) fresh_hook = Some h"
  shows "hk_created_with h = Some config"
proof -
  have "hk_client (hook_render config fresh_hook) \<noteq> None" "hk_created_with (hook_render config fresh_hook) = Some config"
    by (simp_all add: hook_render_def fresh_hook_def Let_def)
  with hook_run_created [of E evs "hook_render config fresh_hook" h] assms show ?thesis by (simp split: if_splits)
qed

text \<open>Unmounting a settled client leaves nothing that acts for it.\<close>

theorem unmount_quiet:
  assumes "hk_client h = Some c" and "(client_trans E)\<^sup>*\<^sup>* new_client c" and "settled c"
  shows "\<exists>c'. hk_client (hook_unmount h) = Some c' \<and> quiet c' \<and> frames c' = frames c"
  using assms(1) disconnect_quiet [OF timers_ok_reachable [OF assms(2)] sockets_ok_reachable [OF assms(2)] assms(3)]
  by (simp add: hook_unmount_def Let_def hook_with_client_def)

end
